(* ===== verification/Prelude.thy ===== *)
theory Prelude
  imports Main "HOL-Library.Word"
begin

text \<open>
  Shared vocabulary of the development: the C integer types as words, C strings and bytes,
  little- and big-endian views of byte arrays, and writes into a byte array at an offset
  (\<open>memcpy\<close> and \<open>memset\<close> into the middle of a buffer). The lemmas collected in
  \<open>poke_simps\<close> and \<open>byte_simps\<close> carry the component proofs.

  The target is the one the sources accept (\<^verbatim>\<open>seccomp.c\<close> refuses anything but
  x86, x86-64, ARM and AArch64 Linux): little-endian, 8-bit bytes, signed plain \<open>char\<close>.
  A \<open>time_t\<close> is a signed 64-bit count of seconds; signed overflow is undefined in C, so it is
  an \<open>int\<close> here and converted to a 64-bit word only where the code casts it.
\<close>

unbundle bit_operations_syntax

named_theorems poke_simps \<open>writes into a byte array at an offset\<close>
named_theorems byte_simps \<open>byte-level views of machine words\<close>

type_synonym byte = "8 word"
type_synonym u16 = "16 word"
type_synonym u32 = "32 word"
type_synonym u64 = "64 word"
type_synonym time_t = int

section \<open>Bytes and characters\<close>

text \<open>The value of a plain (signed) \<open>char\<close> in an integer expression.\<close>

definition c_char :: "char \<Rightarrow> int" where
  "c_char c = (let n = of_char c in if 128 \<le> n then n - 256 else n)"

definition byte_of_char :: "char \<Rightarrow> byte" where
  "byte_of_char c = of_char c"

definition bytes_of_string :: "string \<Rightarrow> byte list" where
  "bytes_of_string s = map byte_of_char s"

lemma length_bytes_of_string [simp]: "length (bytes_of_string s) = length s"
  by (simp add: bytes_of_string_def)

lemma option_filter_eqI:
  assumes "\<And>e. x = Some e \<longleftrightarrow> y = Some e \<and> P e"
  shows "x = (case y of None \<Rightarrow> None | Some e \<Rightarrow> if P e then Some e else None)"
proof (cases y)
  case None
  then show ?thesis using assms [of "the x"] by (cases x) simp_all
next
  case (Some e)
  then show ?thesis using assms [of e] assms [of "the x"] by (cases x) auto
qed

section \<open>Writing into an array\<close>

text \<open>\<open>memcpy (a + i, xs, length xs)\<close>: the elements of \<open>a\<close> from \<open>i\<close> on become \<open>xs\<close>.\<close>

definition poke :: "nat \<Rightarrow> 'a list \<Rightarrow> 'a list \<Rightarrow> 'a list" where
  "poke i xs a = take i a @ xs @ drop (i + length xs) a"

lemma length_poke [simp]: "i + length xs \<le> length a \<Longrightarrow> length (poke i xs a) = length a"
  by (simp add: poke_def)

lemma poke_Nil [poke_simps]: "poke i [] a = a"
  by (simp add: poke_def)

lemma poke_whole [poke_simps]: "length xs = length a \<Longrightarrow> poke 0 xs a = xs"
  by (simp add: poke_def)

lemma take_poke [poke_simps]:
  "i + length xs \<le> length a \<Longrightarrow> take (i + length xs) (poke i xs a) = take i a @ xs"
  by (simp add: poke_def)

lemma take_poke_before [poke_simps]:
  "k \<le> i \<Longrightarrow> i \<le> length a \<Longrightarrow> take k (poke i xs a) = take k a"
  by (simp add: poke_def min_def)

lemma poke_single: "i < length a \<Longrightarrow> poke i [x] a = a[i := x]"
  by (simp add: poke_def upd_conv_take_nth_drop)

lemma nth_poke:
  assumes "i + length xs \<le> length a" "k < length a"
  shows "poke i xs a ! k = (if i \<le> k \<and> k < i + length xs then xs ! (k - i) else a ! k)"
  using assms by (auto simp: poke_def nth_append min_def)

lemma poke_Cons: "i < length a \<Longrightarrow> poke (Suc i) xs (a[i := x]) = poke i (x # xs) a"
  by (simp add: poke_def upd_conv_take_nth_drop add.commute)

text \<open>A loop that writes consecutive elements is one write.\<close>

lemma poke_snoc:
  "i + length xs < length a \<Longrightarrow> (poke i xs a)[i + length xs := x] = poke i (xs @ [x]) a"
  by (simp add: poke_def list_update_append upd_conv_take_nth_drop flip: Cons_nth_drop_Suc)

lemma fold_poke:
  "i + n \<le> length a \<Longrightarrow> fold (\<lambda>k b. b[i + k := f k]) [0..<n] a = poke i (map f [0..<n]) a"
proof (induction n)
  case 0
  then show ?case by (simp add: poke_simps)
next
  case (Suc n)
  then show ?case using poke_snoc [of i "map f [0..<n]" a "f n"] by simp
qed

section \<open>Endianness\<close>

definition be32_bytes :: "u32 \<Rightarrow> byte list" where
  "be32_bytes w = [ucast (drop_bit 24 w), ucast (drop_bit 16 w), ucast (drop_bit 8 w), ucast w]"

definition be32_word :: "byte \<Rightarrow> byte \<Rightarrow> byte \<Rightarrow> byte \<Rightarrow> u32" where
  "be32_word a b c d =
     push_bit 24 (ucast a) OR push_bit 16 (ucast b) OR push_bit 8 (ucast c) OR ucast d"

definition be64_bytes :: "u64 \<Rightarrow> byte list" where
  "be64_bytes w = map (\<lambda>i. ucast (drop_bit (56 - i * 8) w)) [0..<8]"

definition le16_bytes :: "u16 \<Rightarrow> byte list" where
  "le16_bytes w = [ucast w, ucast (drop_bit 8 w)]"

definition le16_word :: "byte \<Rightarrow> byte \<Rightarrow> u16" where
  "le16_word a b = ucast a OR push_bit 8 (ucast b)"

definition le32_bytes :: "u32 \<Rightarrow> byte list" where
  "le32_bytes w = [ucast w, ucast (drop_bit 8 w), ucast (drop_bit 16 w), ucast (drop_bit 24 w)]"

definition le32_word :: "byte \<Rightarrow> byte \<Rightarrow> byte \<Rightarrow> byte \<Rightarrow> u32" where
  "le32_word a b c d =
     ucast a OR push_bit 8 (ucast b) OR push_bit 16 (ucast c) OR push_bit 24 (ucast d)"

lemma length_be32_bytes [simp]: "length (be32_bytes w) = 4"
  by (simp add: be32_bytes_def)

lemma length_be64_bytes [simp]: "length (be64_bytes w) = 8"
  by (simp add: be64_bytes_def)

lemma length_le16_bytes [simp]: "length (le16_bytes w) = 2"
  by (simp add: le16_bytes_def)

lemma length_le32_bytes [simp]: "length (le32_bytes w) = 4"
  by (simp add: le32_bytes_def)

lemma be32_word_bytes [byte_simps]:
  "be32_word (ucast (drop_bit 24 w)) (ucast (drop_bit 16 w)) (ucast (drop_bit 8 w)) (ucast w) = w"
  unfolding be32_word_def
proof (rule bit_word_eqI)
  fix n :: nat assume "n < LENGTH(32)"
  then show "bit (push_bit 24 (ucast (ucast (drop_bit 24 w) :: byte))
      OR push_bit 16 (ucast (ucast (drop_bit 16 w) :: byte))
      OR push_bit 8 (ucast (ucast (drop_bit 8 w) :: byte)) OR ucast (ucast w :: byte) :: u32) n
      \<longleftrightarrow> bit w n"
    by (cases "n < 8"; cases "n < 16"; cases "n < 24") (auto simp: bit_simps not_less)
qed

lemma le32_word_bytes [byte_simps]:
  "le32_word (ucast w) (ucast (drop_bit 8 w)) (ucast (drop_bit 16 w)) (ucast (drop_bit 24 w)) = w"
  unfolding le32_word_def
proof (rule bit_word_eqI)
  fix n :: nat assume "n < LENGTH(32)"
  then show "bit (ucast (ucast w :: byte) OR push_bit 8 (ucast (ucast (drop_bit 8 w) :: byte))
      OR push_bit 16 (ucast (ucast (drop_bit 16 w) :: byte))
      OR push_bit 24 (ucast (ucast (drop_bit 24 w) :: byte)) :: u32) n \<longleftrightarrow> bit w n"
    by (cases "n < 8"; cases "n < 16"; cases "n < 24") (auto simp: bit_simps not_less)
qed

lemma le16_word_bytes [byte_simps]: "le16_word (ucast w) (ucast (drop_bit 8 w)) = w"
  unfolding le16_word_def
  by (rule bit_eqI) (auto simp: bit_simps)

text \<open>The number four bytes stand for, most significant first.\<close>

lemma unat_ucast_byte [simp]: "unat (ucast (b::byte) :: u32) = unat b"
proof -
  have "unat b < 2 ^ 8" using unsigned_less [of b, where 'a = nat] by simp
  then show ?thesis by (simp add: unsigned_ucast_eq take_bit_nat_eq_self)
qed

lemma unat_push_bit_byte:
  assumes "k \<le> 24"
  shows "unat (push_bit k (ucast (b::byte)) :: u32) = unat b * 2 ^ k"
proof -
  have "unat b * 2 ^ k < 2 ^ 8 * 2 ^ k" using unsigned_less [of b] by simp
  also have "\<dots> = 2 ^ (8 + k)" by (simp add: power_add)
  also have "\<dots> \<le> 2 ^ 32" using assms by (intro power_increasing) auto
  finally have "take_bit 32 (push_bit k (unat b)) = unat b * 2 ^ k"
    by (simp add: push_bit_eq_mult take_bit_nat_eq_self)
  then show ?thesis by (simp add: unsigned_push_bit_eq)
qed

lemma unat_be32_word:
  "unat (be32_word a b c d) = unat a * 2 ^ 24 + unat b * 2 ^ 16 + unat c * 2 ^ 8 + unat d"
proof -
  have bnd: "unat a < 256" "unat b < 256" "unat c < 256" "unat d < 256"
    using unsigned_less [of a] unsigned_less [of b] unsigned_less [of c] unsigned_less [of d] by simp_all
  have "be32_word a b c d =
      push_bit 24 (ucast a) + (push_bit 16 (ucast b) + (push_bit 8 (ucast c) + ucast d))"
    unfolding be32_word_def
    by (subst disjunctive_add, use bit_imp_le_length in \<open>force simp: bit_simps\<close>)+ simp
  moreover have "unat (push_bit 8 (ucast c) + ucast d :: u32) = unat c * 2 ^ 8 + unat d"
    using bnd by (subst unat_add_lem [THEN iffD1]) (simp_all add: unat_push_bit_byte)
  moreover from this have "unat (push_bit 16 (ucast b) + (push_bit 8 (ucast c) + ucast d) :: u32)
      = unat b * 2 ^ 16 + (unat c * 2 ^ 8 + unat d)"
    using bnd by (subst unat_add_lem [THEN iffD1]) (simp_all add: unat_push_bit_byte)
  ultimately show ?thesis
    using bnd by (simp add: unat_add_lem [THEN iffD1] unat_push_bit_byte)
qed

end
