(* ===== verification/Sha1.thy ===== *)
theory Sha1
  imports Prelude
begin

text \<open>
  SHA-1 (\<^verbatim>\<open>src/sha1.c\<close>): the streaming implementation with its 64-byte block buffer,
  and the hash function of FIPS 180-4 written as the standard writes it. \<open>sha1_correct\<close>
  shows the two equal on every message; \<open>absorbed\<close> is the invariant that says what a
  context has taken in so far, whatever the pieces were.
\<close>

section \<open>The implementation\<close>

definition SHA1_BLOCK_LEN :: nat where "SHA1_BLOCK_LEN = 64"
definition SHA1_DIGEST_LEN :: nat where "SHA1_DIGEST_LEN = 20"

lemmas SHA1_LEN_defs = SHA1_BLOCK_LEN_def SHA1_DIGEST_LEN_def

record sha1_ctx_t =
  sha_H :: "u32 list"
  sha_count :: u64
  sha_buf :: "byte list"

text \<open>A context as it lies on the stack: five chaining words, 64 buffer bytes.\<close>

definition ctx_shape :: "sha1_ctx_t \<Rightarrow> bool" where
  "ctx_shape ctx \<longleftrightarrow> length (sha_H ctx) = 5 \<and> length (sha_buf ctx) = 64"

definition ROTL :: "u32 \<Rightarrow> nat \<Rightarrow> u32" where
  "ROTL x n = push_bit n x OR drop_bit (32 - n) x"

definition block_schedule :: "byte list \<Rightarrow> u32 list" where
  "block_schedule buf =
     (let W = fold (\<lambda>t W. W[t := push_bit 24 (ucast (buf ! (t * 4)))
                OR push_bit 16 (ucast (buf ! (t * 4 + 1)))
                OR push_bit 8 (ucast (buf ! (t * 4 + 2)))
                OR ucast (buf ! (t * 4 + 3))]) [0..<16] (replicate 80 0)
      in fold (\<lambda>t W. W[t := ROTL (W ! (t - 3) XOR W ! (t - 8) XOR W ! (t - 14) XOR W ! (t - 16)) 1])
           [16..<80] W)"

definition block_round :: "u32 list \<Rightarrow> nat \<Rightarrow> u32 \<times> u32 \<times> u32 \<times> u32 \<times> u32
    \<Rightarrow> u32 \<times> u32 \<times> u32 \<times> u32 \<times> u32" where
  "block_round W t = (\<lambda>(A, B, C, D, E).
     let (f, k) =
       (if t < 20 then ((B AND C) OR (NOT B AND D), 0x5a827999)
        else if t < 40 then (B XOR C XOR D, 0x6ed9eba1)
        else if t < 60 then ((B AND C) OR (B AND D) OR (C AND D), 0x8f1bbcdc)
        else (B XOR C XOR D, 0xca62c1d6));
         temp = ROTL A 5 + f + E + k + W ! t
     in (temp, A, ROTL B 30, C, D))"

definition process_block :: "sha1_ctx_t \<Rightarrow> sha1_ctx_t" where
  "process_block ctx =
     (let W = block_schedule (sha_buf ctx); H = sha_H ctx;
          (A, B, C, D, E) = fold (block_round W) [0..<80] (H ! 0, H ! 1, H ! 2, H ! 3, H ! 4)
      in ctx\<lparr>sha_H := [H ! 0 + A, H ! 1 + B, H ! 2 + C, H ! 3 + D, H ! 4 + E]\<rparr>)"

definition sha1_init :: "sha1_ctx_t \<Rightarrow> sha1_ctx_t" where
  "sha1_init ctx = ctx\<lparr>sha_H := [0x67452301, 0xefcdab89, 0x98badcfe, 0x10325476, 0xc3d2e1f0],
     sha_count := 0\<rparr>"

text \<open>The loop over whole blocks and the copy of what is left, at the end of \<open>sha1_update\<close>.\<close>

function update_blocks :: "sha1_ctx_t \<Rightarrow> byte list \<Rightarrow> sha1_ctx_t" where
  "update_blocks ctx data =
     (if SHA1_BLOCK_LEN \<le> length data
      then update_blocks (process_block (ctx\<lparr>sha_buf := poke 0 (take SHA1_BLOCK_LEN data) (sha_buf ctx)\<rparr>))
             (drop SHA1_BLOCK_LEN data)
      else if 0 < length data then ctx\<lparr>sha_buf := poke 0 data (sha_buf ctx)\<rparr>
      else ctx)"
  by pat_completeness auto
termination
  by (relation "measure (\<lambda>(ctx, data). length data)") (auto simp: SHA1_BLOCK_LEN_def)

declare update_blocks.simps [simp del]

definition sha1_update :: "sha1_ctx_t \<Rightarrow> byte list \<Rightarrow> sha1_ctx_t" where
  "sha1_update ctx data =
     (let idx = unat (sha_count ctx mod 64); len = length data;
          ctx = ctx\<lparr>sha_count := sha_count ctx + of_nat len\<rparr>
      in if 0 < idx then
           let avail = SHA1_BLOCK_LEN - idx in
           if len < avail then ctx\<lparr>sha_buf := poke idx data (sha_buf ctx)\<rparr>
           else update_blocks
                  (process_block (ctx\<lparr>sha_buf := poke idx (take avail data) (sha_buf ctx)\<rparr>))
                  (drop avail data)
         else update_blocks ctx data)"

definition sha1_final :: "sha1_ctx_t \<Rightarrow> sha1_ctx_t \<times> byte list" where
  "sha1_final ctx =
     (let bits = sha_count ctx * 8;
          idx = unat (sha_count ctx mod 64);
          ctx = ctx\<lparr>sha_buf := (sha_buf ctx)[idx := 0x80]\<rparr>;
          idx = idx + 1;
          (ctx, idx) =
            (if 56 < idx
             then (process_block (ctx\<lparr>sha_buf := poke idx (replicate (SHA1_BLOCK_LEN - idx) 0) (sha_buf ctx)\<rparr>), 0)
             else (ctx, idx));
          ctx = ctx\<lparr>sha_buf := poke idx (replicate (56 - idx) 0) (sha_buf ctx)\<rparr>;
          ctx = ctx\<lparr>sha_buf := fold (\<lambda>i b. b[56 + i := ucast (drop_bit (56 - i * 8) bits)])
                                [0..<8] (sha_buf ctx)\<rparr>;
          ctx = process_block ctx
      in (ctx, concat (map (\<lambda>i. [ucast (drop_bit 24 (sha_H ctx ! i)), ucast (drop_bit 16 (sha_H ctx ! i)),
                             ucast (drop_bit 8 (sha_H ctx ! i)), ucast (sha_H ctx ! i)]) [0..<5])))"

text \<open>
  The local context of a caller is not initialised before \<open>sha1_init\<close>; it is zero-filled
  here, and \<open>absorbed_init\<close> shows that nothing depends on what it holds.
\<close>

definition stack_ctx :: sha1_ctx_t where
  "stack_ctx = \<lparr>sha_H = replicate 5 0, sha_count = 0, sha_buf = replicate 64 0\<rparr>"

definition sha1 :: "byte list \<Rightarrow> byte list" where
  "sha1 msg = snd (sha1_final (sha1_update (sha1_init stack_ctx) msg))"

section \<open>The standard\<close>

definition fips_f :: "nat \<Rightarrow> u32 \<Rightarrow> u32 \<Rightarrow> u32 \<Rightarrow> u32" where
  "fips_f t x y z =
     (if t \<le> 19 then (x AND y) XOR (NOT x AND z)
      else if t \<le> 39 then x XOR y XOR z
      else if t \<le> 59 then (x AND y) XOR (x AND z) XOR (y AND z)
      else x XOR y XOR z)"

definition fips_K :: "nat \<Rightarrow> u32" where
  "fips_K t = (if t \<le> 19 then 0x5a827999 else if t \<le> 39 then 0x6ed9eba1
     else if t \<le> 59 then 0x8f1bbcdc else 0xca62c1d6)"

fun fips_W :: "byte list \<Rightarrow> nat \<Rightarrow> u32" where
  "fips_W M t =
     (if t < 16 then be32_word (M ! (4 * t)) (M ! (4 * t + 1)) (M ! (4 * t + 2)) (M ! (4 * t + 3))
      else word_rotl 1 (fips_W M (t - 3) XOR fips_W M (t - 8) XOR fips_W M (t - 14) XOR fips_W M (t - 16)))"

declare fips_W.simps [simp del]

definition fips_round :: "byte list \<Rightarrow> nat \<Rightarrow> u32 \<times> u32 \<times> u32 \<times> u32 \<times> u32
    \<Rightarrow> u32 \<times> u32 \<times> u32 \<times> u32 \<times> u32" where
  "fips_round M t = (\<lambda>(a, b, c, d, e).
     (word_rotl 5 a + fips_f t b c d + e + fips_K t + fips_W M t, a, word_rotl 30 b, c, d))"

definition fips_compress :: "u32 list \<Rightarrow> byte list \<Rightarrow> u32 list" where
  "fips_compress H M =
     (let (a, b, c, d, e) = fold (fips_round M) [0..<80] (H ! 0, H ! 1, H ! 2, H ! 3, H ! 4)
      in [a + H ! 0, b + H ! 1, c + H ! 2, d + H ! 3, e + H ! 4])"

definition fips_H0 :: "u32 list" where
  "fips_H0 = [0x67452301, 0xefcdab89, 0x98badcfe, 0x10325476, 0xc3d2e1f0]"

text \<open>Padding: a one bit, the fewest zero bits that fill up to 448 modulo 512, the bit length.\<close>

definition fips_pad :: "byte list \<Rightarrow> byte list" where
  "fips_pad m = m @ [0x80] @ replicate ((119 - length m mod 64) mod 64) 0
     @ be64_bytes (of_nat (8 * length m))"

function fips_blocks :: "u32 list \<Rightarrow> byte list \<Rightarrow> u32 list" where
  "fips_blocks H m = (if length m < 64 then H else fips_blocks (fips_compress H (take 64 m)) (drop 64 m))"
  by pat_completeness auto
termination
  by (relation "measure (\<lambda>(H, m). length m)") auto

declare fips_blocks.simps [simp del]

definition sha1_spec :: "byte list \<Rightarrow> byte list" where
  "sha1_spec m = concat (map be32_bytes (fips_blocks fips_H0 (fips_pad m)))"

section \<open>One block\<close>

lemma ROTL_word_rotl: "0 < n \<Longrightarrow> n < 32 \<Longrightarrow> ROTL x n = word_rotl n x"
proof (rule bit_word_eqI)
  fix k assume n: "0 < n" "n < 32" and k: "k < LENGTH(32)"
  then have "(k + 32 - n) mod 32 = (if n \<le> k then k - n else 32 + k - n)"
    by (auto simp: mod_if)
  then show "bit (ROTL x n) k \<longleftrightarrow> bit (word_rotl n x) k"
    using n k by (auto simp: ROTL_def bit_simps bit_word_rotl_iff dest: bit_imp_le_length)
qed

lemma fips_Ch: "(B AND C) OR (NOT B AND D) = (B AND C) XOR (NOT B AND (D::u32))"
  by (rule bit_word_eqI) (auto simp: bit_simps)

lemma fips_Maj: "(B AND C) OR (B AND D) OR (C AND D) = (B AND C) XOR (B AND D) XOR (C AND (D::u32))"
  by (rule bit_word_eqI) (auto simp: bit_simps)

text \<open>Filling an array slot by slot, where a new slot may read the ones before it.\<close>

lemma fold_fill:
  assumes "m \<le> n" and "n \<le> length Wi"
    and "\<And>t. t < m \<Longrightarrow> Wi ! t = g t"
    and "\<And>t W. m \<le> t \<Longrightarrow> t < n \<Longrightarrow> length W = length Wi \<Longrightarrow> (\<And>s. s < t \<Longrightarrow> W ! s = g s) \<Longrightarrow> h t W = g t"
  shows "length (fold (\<lambda>t W. W[t := h t W]) [m..<n] Wi) = length Wi
    \<and> (\<forall>t < n. fold (\<lambda>t W. W[t := h t W]) [m..<n] Wi ! t = g t)"
  using assms
proof (induction n)
  case 0
  then show ?case by simp
next
  case (Suc n)
  show ?case
  proof (cases "m = Suc n")
    case True
    then show ?thesis using Suc.prems by simp
  next
    case False
    with Suc.prems(1) have "m \<le> n" by simp
    then have IH: "length (fold (\<lambda>t W. W[t := h t W]) [m..<n] Wi) = length Wi
      \<and> (\<forall>t < n. fold (\<lambda>t W. W[t := h t W]) [m..<n] Wi ! t = g t)"
      using Suc by simp
    then show ?thesis
      using \<open>m \<le> n\<close> Suc.prems(2) Suc.prems(4) [of n] by (auto simp: nth_list_update less_Suc_eq)
  qed
qed

lemma block_schedule_fips:
  assumes "t < 80"
  shows "block_schedule buf ! t = fips_W buf t"
proof -
  define W1 where "W1 = fold (\<lambda>t W. W[t := push_bit 24 (ucast (buf ! (t * 4)))
                OR push_bit 16 (ucast (buf ! (t * 4 + 1)))
                OR push_bit 8 (ucast (buf ! (t * 4 + 2)))
                OR ucast (buf ! (t * 4 + 3))]) [0..<16] (replicate 80 (0::u32))"
  have W1: "length W1 = 80 \<and> (\<forall>t < 16. W1 ! t = fips_W buf t)"
    unfolding W1_def
    using fold_fill [where m = 0 and n = 16 and g = "fips_W buf" and Wi = "replicate 80 0"
        and h = "\<lambda>t W. push_bit 24 (ucast (buf ! (t * 4))) OR push_bit 16 (ucast (buf ! (t * 4 + 1)))
            OR push_bit 8 (ucast (buf ! (t * 4 + 2))) OR ucast (buf ! (t * 4 + 3))"]
    by (simp add: fips_W.simps be32_word_def mult.commute)
  have step: "ROTL (W ! (t - 3) XOR W ! (t - 8) XOR W ! (t - 14) XOR W ! (t - 16)) 1 = fips_W buf t"
    if "16 \<le> t" and "\<And>s. s < t \<Longrightarrow> W ! s = fips_W buf s" for t W
    using that fips_W.simps [of buf t] by (simp add: ROTL_word_rotl)
  have "length (fold (\<lambda>t W. W[t := ROTL (W ! (t - 3) XOR W ! (t - 8) XOR W ! (t - 14) XOR W ! (t - 16)) 1])
           [16..<80] W1) = length W1 \<and>
     (\<forall>t < 80. fold (\<lambda>t W. W[t := ROTL (W ! (t - 3) XOR W ! (t - 8) XOR W ! (t - 14) XOR W ! (t - 16)) 1])
           [16..<80] W1 ! t = fips_W buf t)"
    by (rule fold_fill) (use W1 step in auto)
  then show ?thesis
    using assms unfolding block_schedule_def Let_def W1_def by blast
qed

lemma block_round_fips:
  assumes "t < 80"
  shows "block_round (block_schedule buf) t S = fips_round buf t S"
  using assms
  by (cases S) (simp add: block_round_def fips_round_def fips_f_def fips_K_def ROTL_word_rotl
      block_schedule_fips fips_Ch fips_Maj)

lemma process_block_fips:
  "process_block ctx = ctx\<lparr>sha_H := fips_compress (sha_H ctx) (sha_buf ctx)\<rparr>"
proof -
  have "fold (block_round (block_schedule (sha_buf ctx))) [0..<80] S = fold (fips_round (sha_buf ctx)) [0..<80] S"
    for S by (rule fold_cong) (auto simp: block_round_fips)
  then show ?thesis
    by (simp add: process_block_def fips_compress_def Let_def add.commute split: prod.splits)
qed

lemma length_fips_compress [simp]: "length (fips_compress H M) = 5"
  by (simp add: fips_compress_def split: prod.splits)

section \<open>Streaming\<close>

lemma fips_blocks_append:
  "length b mod 64 = 0 \<Longrightarrow> fips_blocks H (b @ c) = fips_blocks (fips_blocks H b) c"
proof (induction H b rule: fips_blocks.induct)
  case (1 H m)
  show ?case
  proof (cases "length m < 64")
    case True
    with 1 have "m = []" by simp
    then show ?thesis by (simp add: fips_blocks.simps)
  next
    case False
    then have "length (drop 64 m) mod 64 = 0"
      using 1 by (simp add: mod_eq_0_iff_dvd)
    with 1 False have "fips_blocks (fips_compress H (take 64 m)) (drop 64 m @ c)
      = fips_blocks (fips_blocks (fips_compress H (take 64 m)) (drop 64 m)) c" by simp
    then show ?thesis using False fips_blocks.simps [of H m] fips_blocks.simps [of H "m @ c"] by simp
  qed
qed

lemma fips_blocks_one: "length b = 64 \<Longrightarrow> fips_blocks H b = fips_compress H b"
  by (simp add: fips_blocks.simps)

text \<open>
  \<open>absorbed ctx m\<close>: the context has taken in exactly \<open>m\<close>; the whole blocks of \<open>m\<close> are in the
  chaining value and the rest is at the front of the buffer.
\<close>

definition absorbed :: "sha1_ctx_t \<Rightarrow> byte list \<Rightarrow> bool" where
  "absorbed ctx m \<longleftrightarrow> sha_count ctx = of_nat (length m) \<and> length (sha_buf ctx) = 64
     \<and> sha_H ctx = fips_blocks fips_H0 (take (64 * (length m div 64)) m)
     \<and> take (length m mod 64) (sha_buf ctx) = drop (64 * (length m div 64)) m"

lemma absorbed_init:
  "length (sha_buf ctx) = 64 \<Longrightarrow> absorbed (sha1_init ctx) []"
  by (simp add: absorbed_def sha1_init_def fips_H0_def fips_blocks.simps)

lemma absorbed_idx:
  assumes "absorbed ctx m"
  shows "unat (sha_count ctx mod 64) = length m mod 64"
proof -
  have "unat (of_nat (length m) mod (64::u64)) = length m mod 2 ^ 64 mod 64"
    by (simp add: unat_mod unat_of_nat)
  also have "\<dots> = length m mod 64"
    by (rule mod_mod_cancel) simp
  finally show ?thesis using assms by (simp add: absorbed_def)
qed

text \<open>A full buffer behind a block boundary is one more block.\<close>

lemma absorb_block:
  assumes "sha_H ctx = fips_blocks fips_H0 b" and "length b mod 64 = 0"
    and "length (sha_buf ctx) = 64"
  shows "sha_H (process_block ctx) = fips_blocks fips_H0 (b @ sha_buf ctx)"
  using assms by (simp add: process_block_fips fips_blocks_append fips_blocks_one)

lemma update_blocks_absorbs:
  assumes "sha_H ctx = fips_blocks fips_H0 b" and "length b mod 64 = 0" and "length (sha_buf ctx) = 64"
    and "sha_count ctx = of_nat (length (b @ data))"
  shows "absorbed (update_blocks ctx data) (b @ data)"
  using assms
proof (induction ctx data arbitrary: b rule: update_blocks.induct)
  case (1 ctx data)
  show ?case
  proof (cases "64 \<le> length data")
    case True
    define ctx' where "ctx' = process_block (ctx\<lparr>sha_buf := poke 0 (take 64 data) (sha_buf ctx)\<rparr>)"
    have buf: "poke 0 (take 64 data) (sha_buf ctx) = take 64 data"
      using True 1 by (simp add: poke_simps)
    have H: "sha_H ctx' = fips_blocks fips_H0 (b @ take 64 data)"
      using absorb_block [of "ctx\<lparr>sha_buf := take 64 data\<rparr>" b] 1 True by (simp add: ctx'_def buf)
    have "length (sha_buf ctx') = 64" "sha_count ctx' = sha_count ctx"
      using True by (simp_all add: ctx'_def process_block_fips buf)
    then have "absorbed (update_blocks ctx' (drop 64 data)) ((b @ take 64 data) @ drop 64 data)"
      using "1.IH" [of "b @ take 64 data"] "1.prems" H True
      by (simp add: SHA1_BLOCK_LEN_def ctx'_def mod_add_left_eq [symmetric])
    then show ?thesis
      using True by (simp add: update_blocks.simps [of ctx data] SHA1_BLOCK_LEN_def ctx'_def)
  next
    case False
    have len: "(length b + length data) div 64 = length b div 64" "(length b + length data) mod 64 = length data"
      using False "1.prems"(2) by (auto simp: mod_eq_0_iff_dvd elim!: dvdE)
    have "take (64 * (length b div 64)) (b @ data) = b" "drop (64 * (length b div 64)) (b @ data) = data"
      using "1.prems"(2) by auto
    then show ?thesis
      using False "1.prems" len
      by (simp add: update_blocks.simps [of ctx data] SHA1_BLOCK_LEN_def absorbed_def poke_def)
  qed
qed

lemma absorbed_split:
  assumes "absorbed ctx m"
  obtains b r where "m = b @ r" and "length b mod 64 = 0" and "length r = length m mod 64"
    and "sha_H ctx = fips_blocks fips_H0 b" and "take (length r) (sha_buf ctx) = r"
    and "length (sha_buf ctx) = 64" and "sha_count ctx = of_nat (length m)"
proof (rule that [of "take (64 * (length m div 64)) m" "drop (64 * (length m div 64)) m"])
  have "64 * (length m div 64) \<le> length m" by simp
  then show "length (take (64 * (length m div 64)) m) mod 64 = 0" by (simp add: min_absorb2)
  show "length (drop (64 * (length m div 64)) m) = length m mod 64"
    by (simp add: minus_mult_div_eq_mod)
  then show "take (length (drop (64 * (length m div 64)) m)) (sha_buf ctx) = drop (64 * (length m div 64)) m"
    using assms unfolding absorbed_def by metis
qed (use assms in \<open>simp_all add: absorbed_def\<close>)

lemma absorbed_join:
  assumes "sha_H ctx = fips_blocks fips_H0 b" and "length b mod 64 = 0" and "length r < 64"
    and "take (length r) (sha_buf ctx) = r" and "length (sha_buf ctx) = 64"
    and "sha_count ctx = of_nat (length (b @ r))"
  shows "absorbed ctx (b @ r)"
proof -
  have "(length b + length r) div 64 = length b div 64" "(length b + length r) mod 64 = length r"
    using assms(2,3) by (auto simp: mod_eq_0_iff_dvd elim!: dvdE)
  moreover have "64 * (length b div 64) = length b" using assms(2) by auto
  ultimately show ?thesis using assms by (simp add: absorbed_def)
qed

lemma sha1_update_absorbs:
  assumes "absorbed ctx m"
  shows "absorbed (sha1_update ctx d) (m @ d)"
proof -
  obtain b r where m: "m = b @ r" and b: "length b mod 64 = 0" and r: "length r = length m mod 64"
    and H: "sha_H ctx = fips_blocks fips_H0 b" and tk: "take (length r) (sha_buf ctx) = r"
    and buf: "length (sha_buf ctx) = 64" and cnt: "sha_count ctx = of_nat (length m)"
    using absorbed_split [OF assms] by blast
  have idx: "unat (sha_count ctx mod 64) = length r" using absorbed_idx [OF assms] r by simp
  have r64: "length r < 64" by (simp add: r)
  define c where "c = ctx\<lparr>sha_count := sha_count ctx + of_nat (length d)\<rparr>"
  have cnt': "sha_count c = of_nat (length (m @ d))" by (simp add: c_def cnt)
  consider "r = []" | "r \<noteq> []" "length d < 64 - length r" | "r \<noteq> []" "64 - length r \<le> length d"
    by linarith
  then show ?thesis
  proof cases
    case 1
    then show ?thesis
      using update_blocks_absorbs [of c b d] H b buf cnt' m idx
      by (simp add: sha1_update_def Let_def c_def)
  next
    case 2
    have "take (length (r @ d)) (poke (length r) d (sha_buf ctx)) = r @ d"
      using take_poke [of "length r" d "sha_buf ctx"] 2 buf tk by simp
    then have "absorbed (c\<lparr>sha_buf := poke (length r) d (sha_buf ctx)\<rparr>) (b @ (r @ d))"
      using absorbed_join [of "c\<lparr>sha_buf := poke (length r) d (sha_buf ctx)\<rparr>" b "r @ d"] H b 2 buf cnt' m
      by (simp add: c_def)
    then show ?thesis
      using 2 idx m by (simp add: sha1_update_def Let_def c_def SHA1_BLOCK_LEN_def)
  next
    case 3
    define f where "f = r @ take (64 - length r) d"
    define c' where "c' = c\<lparr>sha_buf := poke (length r) (take (64 - length r) d) (sha_buf ctx)\<rparr>"
    have f: "length f = 64" using 3 r64 by (simp add: f_def)
    have "sha_buf c' = f"
      using 3 buf tk r64 by (simp add: c'_def f_def poke_def)
    moreover have "sha_H c' = fips_blocks fips_H0 b" by (simp add: c'_def c_def H)
    ultimately have "sha_H (process_block c') = fips_blocks fips_H0 (b @ f)"
      using absorb_block [of c' b] b f by simp
    moreover have "(b @ f) @ drop (64 - length r) d = m @ d" by (simp add: m f_def)
    ultimately have "absorbed (update_blocks (process_block c') (drop (64 - length r) d)) (m @ d)"
      using update_blocks_absorbs [of "process_block c'" "b @ f" "drop (64 - length r) d"] b f cnt'
        \<open>sha_buf c' = f\<close>
      by (simp add: process_block_fips mod_add_left_eq [symmetric], simp add: c'_def c_def)
    then show ?thesis
      using 3 idx by (simp add: sha1_update_def Let_def c_def c'_def SHA1_BLOCK_LEN_def not_less)
  qed
qed

section \<open>Padding and digest\<close>

lemma write_length_field:
  "length b = 64 \<Longrightarrow> fold (\<lambda>i b. b[56 + i := ucast (drop_bit (56 - i * 8) bits)]) [0..<8] b
     = take 56 b @ be64_bytes bits"
  using fold_poke [of 56 8 b "\<lambda>i. ucast (drop_bit (56 - i * 8) bits)"]
  by (simp add: be64_bytes_def poke_def del: upt_conv_Cons)

lemma digest_bytes:
  assumes "length H = 5"
  shows "concat (map (\<lambda>i. [ucast (drop_bit 24 (H ! i)), ucast (drop_bit 16 (H ! i)),
                           ucast (drop_bit 8 (H ! i)), ucast (H ! i)]) [0..<5])
    = concat (map be32_bytes H)"
proof -
  have "H = map ((!) H) [0..<5]" using assms by (metis map_nth)
  then have "map be32_bytes H = map (\<lambda>i. be32_bytes (H ! i)) [0..<5]"
    by (metis (no_types, lifting) comp_def list.map_comp map_eq_conv)
  then show ?thesis by (simp add: be32_bytes_def)
qed

text \<open>The closing block: the length field goes into the last eight bytes of the buffer.\<close>

lemma final_block:
  assumes "sha_H c = fips_blocks fips_H0 b" and "length b mod 64 = 0" and "length (sha_buf c) = 64"
    and "k \<le> 56"
  shows "sha_H (process_block (c\<lparr>sha_buf :=
      fold (\<lambda>i b. b[56 + i := ucast (drop_bit (56 - i * 8) bits)]) [0..<8]
        (poke k (replicate (56 - k) 0) (sha_buf c))\<rparr>))
    = fips_blocks fips_H0 (b @ take k (sha_buf c) @ replicate (56 - k) 0 @ be64_bytes bits)"
proof -
  have "take 56 (poke k (replicate (56 - k) 0) (sha_buf c)) = take k (sha_buf c) @ replicate (56 - k) 0"
    using take_poke [of k "replicate (56 - k) 0" "sha_buf c"] assms(3,4) by simp
  then have "fold (\<lambda>i b. b[56 + i := ucast (drop_bit (56 - i * 8) bits)]) [0..<8]
        (poke k (replicate (56 - k) 0) (sha_buf c))
      = take k (sha_buf c) @ replicate (56 - k) 0 @ be64_bytes bits"
    using write_length_field [of "poke k (replicate (56 - k) 0) (sha_buf c)" bits] assms(3,4) by simp
  then show ?thesis
    using absorb_block [of "c\<lparr>sha_buf := take k (sha_buf c) @ replicate (56 - k) 0 @ be64_bytes bits\<rparr>" b]
      assms by simp
qed

lemma sha1_final_spec:
  assumes "absorbed ctx m"
  shows "snd (sha1_final ctx) = sha1_spec m"
proof -
  obtain b r where m: "m = b @ r" and b: "length b mod 64 = 0" and r: "length r = length m mod 64"
    and H: "sha_H ctx = fips_blocks fips_H0 b" and tk: "take (length r) (sha_buf ctx) = r"
    and buf: "length (sha_buf ctx) = 64" and cnt: "sha_count ctx = of_nat (length m)"
    using absorbed_split [OF assms] by blast
  have idx: "unat (sha_count ctx mod 64) = length r" using absorbed_idx [OF assms] r by simp
  have r64: "length r < 64" by (simp add: r)
  define bits :: u64 where "bits = of_nat (8 * length m)"
  have bits: "sha_count ctx * 8 = bits" by (simp add: cnt bits_def)
  define c where "c = ctx\<lparr>sha_buf := (sha_buf ctx)[length r := 0x80]\<rparr>"
  have cbuf: "take (length r + 1) (sha_buf c) = r @ [0x80]" "length (sha_buf c) = 64"
    using r64 buf tk by (simp_all add: c_def take_Suc_conv_app_nth)
  have cH: "sha_H c = fips_blocks fips_H0 b" by (simp add: c_def H)
  show ?thesis
  proof (cases "length r + 1 \<le> 56")
    case True
    then have "119 - length r = 64 + (55 - length r)" by simp
    then have z: "(119 - length r) mod 64 = 55 - length r" by (simp only: mod_add_self1) simp
    have pad: "fips_pad m = b @ (r @ [0x80]) @ replicate (56 - (length r + 1)) 0 @ be64_bytes bits"
      by (simp add: fips_pad_def bits_def z flip: r) (simp add: m)
    show ?thesis
      using final_block [OF cH b cbuf(2) True, of bits] True idx bits
      by (simp add: sha1_final_def Let_def sha1_spec_def pad cbuf(1) [simplified] digest_bytes
          process_block_fips flip: c_def)
  next
    case False
    define f where "f = r @ [0x80] @ replicate (63 - length r) 0"
    define c' where "c' = process_block (c\<lparr>sha_buf := poke (length r + 1) (replicate (63 - length r) 0) (sha_buf c)\<rparr>)"
    have f: "length f = 64" using r64 by (simp add: f_def)
    have pk: "poke (length r + 1) (replicate (63 - length r) 0) (sha_buf c) = f"
      using cbuf r64 by (simp add: poke_def f_def)
    have c': "sha_H c' = fips_blocks fips_H0 (b @ f)" "length (sha_buf c') = 64"
      using absorb_block [of "c\<lparr>sha_buf := f\<rparr>" b] cH b f by (simp_all add: c'_def pk [simplified] process_block_fips)
    have z: "(119 - length r) mod 64 = (63 - length r) + 56" using False r64 by simp
    have pad: "fips_pad m = (b @ f) @ replicate 56 0 @ be64_bytes bits"
      unfolding fips_pad_def r [symmetric] z replicate_add bits_def f_def by (simp add: m)
    have "length (b @ f) mod 64 = 0" using b f by (simp add: mod_add_left_eq [symmetric])
    from final_block [OF c'(1) this c'(2), of 0 bits] show ?thesis
      using False idx bits
      by (simp add: sha1_final_def Let_def sha1_spec_def pad digest_bytes process_block_fips
          SHA1_BLOCK_LEN_def c'_def flip: c_def)
  qed
qed

lemma length_buf_final:
  "length (sha_buf ctx) = 64 \<Longrightarrow> length (sha_buf (fst (sha1_final ctx))) = 64"
  using unat_mod [of "sha_count ctx" 64]
  by (simp add: sha1_final_def Let_def process_block_fips write_length_field SHA1_BLOCK_LEN_def)

text \<open>Any split of a message into pieces gives the digest of the whole.\<close>

lemma sha1_stream:
  assumes "length (sha_buf ctx) = 64"
  shows "snd (sha1_final (fold (\<lambda>d c. sha1_update c d) ds (sha1_init ctx))) = sha1_spec (concat ds)"
proof -
  have "absorbed c m \<Longrightarrow> absorbed (fold (\<lambda>d c. sha1_update c d) ds c) (m @ concat ds)" for c m
    by (induction ds arbitrary: c m) (use sha1_update_absorbs in fastforce)+
  then show ?thesis
    using absorbed_init [OF assms] sha1_final_spec by fastforce
qed

lemma sha1_correct: "sha1 msg = sha1_spec msg"
  using sha1_stream [of stack_ctx "[msg]"] by (simp add: sha1_def stack_ctx_def)

lemma length_fips_blocks: "length H = 5 \<Longrightarrow> length (fips_blocks H m) = 5"
  by (induction H m rule: fips_blocks.induct) (subst fips_blocks.simps, simp)

lemma length_sha1_spec [simp]: "length (sha1_spec m) = 20"
proof -
  have "length (fips_blocks fips_H0 (fips_pad m)) = 5"
    by (rule length_fips_blocks) (simp add: fips_H0_def)
  then show ?thesis
    by (simp add: sha1_spec_def length_concat comp_def sum_list_triv)
qed

end
