(* ===== verification/Hmac.thy ===== *)
theory Hmac
  imports Sha1
begin

text \<open>
  HMAC-SHA1 (\<^verbatim>\<open>src/hmac.c\<close>): one key buffer that is masked for the inner hash, unmasked
  and masked again for the outer one, and one hash context used twice. \<open>hmac_sha1_rfc2104\<close> shows
  that it is the function of RFC 2104 for every key and message.
\<close>

definition HMAC_SHA1_LEN :: nat where "HMAC_SHA1_LEN = 20"

text \<open>The key block before masking; the local array starts with whatever the stack held.\<close>

definition hmac_key_block :: "byte list \<Rightarrow> byte list \<Rightarrow> byte list" where
  "hmac_key_block stack key =
     (if SHA1_BLOCK_LEN < length key
      then poke SHA1_DIGEST_LEN (replicate (SHA1_BLOCK_LEN - SHA1_DIGEST_LEN) 0) (poke 0 (sha1 key) stack)
      else let k = poke 0 key stack in
           if length key < SHA1_BLOCK_LEN
           then poke (length key) (replicate (SHA1_BLOCK_LEN - length key) 0) k
           else k)"

definition xor_block :: "byte \<Rightarrow> byte list \<Rightarrow> byte list" where
  "xor_block m k = fold (\<lambda>i k. k[i := k ! i XOR m]) [0..<SHA1_BLOCK_LEN] k"

definition hmac_sha1 :: "byte list \<Rightarrow> byte list \<Rightarrow> byte list" where
  "hmac_sha1 key msg =
     (let k = hmac_key_block (replicate SHA1_BLOCK_LEN 0) key;
          k = xor_block 0x36 k;
          (ctx, inner) = sha1_final (sha1_update (sha1_update (sha1_init stack_ctx) k) msg);
          k = xor_block 0x36 k;
          k = xor_block 0x5c k
      in snd (sha1_final (sha1_update (sha1_update (sha1_init ctx) k) inner)))"

section \<open>RFC 2104\<close>

definition rfc2104_key :: "byte list \<Rightarrow> byte list" where
  "rfc2104_key key =
     (let k = (if 64 < length key then sha1_spec key else key)
      in k @ replicate (64 - length k) 0)"

definition rfc2104_hmac :: "byte list \<Rightarrow> byte list \<Rightarrow> byte list" where
  "rfc2104_hmac key msg =
     (let k = rfc2104_key key
      in sha1_spec (map (\<lambda>b. b XOR 0x5c) k @ sha1_spec (map (\<lambda>b. b XOR 0x36) k @ msg)))"

lemma length_rfc2104_key [simp]: "length (rfc2104_key key) = 64"
  by (simp add: rfc2104_key_def)

lemma hmac_key_block_rfc2104:
  "length stack = 64 \<Longrightarrow> hmac_key_block stack key = rfc2104_key key"
  by (auto simp: hmac_key_block_def rfc2104_key_def Let_def SHA1_LEN_defs sha1_correct poke_def)

lemma fold_map_update:
  "n \<le> length k \<Longrightarrow> fold (\<lambda>i k. k[i := f (k ! i)]) [0..<n] k = map f (take n k) @ drop n k"
proof (induction n)
  case 0
  then show ?case by simp
next
  case (Suc n)
  then show ?case
    by (simp add: take_Suc_conv_app_nth nth_append list_update_append flip: Cons_nth_drop_Suc)
qed

lemma xor_block_map: "length k = 64 \<Longrightarrow> xor_block m k = map (\<lambda>b. b XOR m) k"
  using fold_map_update [of 64 k "\<lambda>b. b XOR m"] by (simp add: xor_block_def SHA1_BLOCK_LEN_def)

lemma absorbed_two:
  assumes "length (sha_buf ctx) = 64"
  shows "absorbed (sha1_update (sha1_update (sha1_init ctx) a) b) (a @ b)"
  using sha1_update_absorbs [OF sha1_update_absorbs [OF absorbed_init [OF assms]], of a b] by simp

lemma hmac_sha1_rfc2104: "hmac_sha1 key msg = rfc2104_hmac key msg"
proof -
  define k where "k = rfc2104_key key"
  define c where "c = sha1_update (sha1_update (sha1_init stack_ctx) (map (\<lambda>b. b XOR 0x36) k)) msg"
  have k: "length k = 64" by (simp add: k_def)
  have ab: "absorbed c (map (\<lambda>b. b XOR 0x36) k @ msg)"
    unfolding c_def by (rule absorbed_two) (simp add: stack_ctx_def)
  have "length (sha_buf (fst (sha1_final c))) = 64"
    using ab by (intro length_buf_final) (simp add: absorbed_def)
  from sha1_final_spec [OF absorbed_two [OF this]] sha1_final_spec [OF ab] show ?thesis
    by (simp add: hmac_sha1_def rfc2104_hmac_def Let_def hmac_key_block_rfc2104 xor_block_map k
        SHA1_BLOCK_LEN_def split_beta comp_def xor.assoc flip: k_def c_def)
qed

lemma length_hmac_sha1 [simp]: "length (hmac_sha1 key msg) = 20"
  by (simp add: hmac_sha1_rfc2104 rfc2104_hmac_def Let_def)

end
