(* ===== verification/Addr.thy ===== *)
theory Addr
  imports Prelude
begin

text \<open>
  Socket addresses and the address key of the per-client tables (\<^verbatim>\<open>src/addr.h\<close>).

  A \<open>struct sockaddr_storage\<close> is its 128 bytes, read through the layouts the code casts it
  to (\<open>sockaddr_in\<close>: family at 0, port at 2, address at 4; \<open>sockaddr_in6\<close>: family at 0,
  port at 2, address at 8), so a cast of the wrong family reads the bytes C would read.
\<close>

type_synonym sockaddr_storage = "byte list"

definition AF_UNSPEC :: u16 where "AF_UNSPEC = 0"
definition AF_INET :: u16 where "AF_INET = 2"
definition AF_INET6 :: u16 where "AF_INET6 = 10"

lemmas AF_defs = AF_UNSPEC_def AF_INET_def AF_INET6_def

definition ss_wf :: "sockaddr_storage \<Rightarrow> bool" where
  "ss_wf ss \<longleftrightarrow> length ss = 128"

definition ss_family :: "sockaddr_storage \<Rightarrow> u16" where
  "ss_family ss = le16_word (ss ! 0) (ss ! 1)"

definition sin_port :: "sockaddr_storage \<Rightarrow> byte list" where
  "sin_port ss = take 2 (drop 2 ss)"

definition sin_addr :: "sockaddr_storage \<Rightarrow> byte list" where
  "sin_addr ss = take 4 (drop 4 ss)"

definition sin6_addr :: "sockaddr_storage \<Rightarrow> byte list" where
  "sin6_addr ss = take 16 (drop 8 ss)"

definition ntohs :: "byte list \<Rightarrow> u16" where
  "ntohs b = push_bit 8 (ucast (b ! 0)) OR ucast (b ! 1)"

definition htons :: "u16 \<Rightarrow> byte list" where
  "htons p = [ucast (drop_bit 8 p), ucast p]"

section \<open>The address key\<close>

record ip_addr_t =
  family :: u16
  addr :: "byte list"

definition ip_wf :: "ip_addr_t \<Rightarrow> bool" where
  "ip_wf ip \<longleftrightarrow> length (addr ip) = 16"

definition ip_from_sockaddr :: "sockaddr_storage \<Rightarrow> ip_addr_t \<Rightarrow> ip_addr_t" where
  "ip_from_sockaddr ss ip =
     (let ip = ip\<lparr>family := ss_family ss\<rparr> in
      if ss_family ss = AF_INET
      then ip\<lparr>addr := poke 4 (replicate 12 0) (poke 0 (sin_addr ss) (addr ip))\<rparr>
      else if ss_family ss = AF_INET6
      then ip\<lparr>addr := poke 0 (sin6_addr ss) (addr ip)\<rparr>
      else ip)"

definition ip_eq :: "ip_addr_t \<Rightarrow> ip_addr_t \<Rightarrow> bool" where
  "ip_eq a b \<longleftrightarrow> family a = family b \<and> addr a = addr b"

definition ip_word :: "ip_addr_t \<Rightarrow> nat \<Rightarrow> u32" where
  "ip_word ip i = le32_word (addr ip ! (i * 4)) (addr ip ! (i * 4 + 1))
     (addr ip ! (i * 4 + 2)) (addr ip ! (i * 4 + 3))"

definition ip_hash32 :: "ip_addr_t \<Rightarrow> u32" where
  "ip_hash32 ip =
     (let h = fold (\<lambda>i h. h XOR ip_word ip i) [0..<4] (ucast (family ip));
          h = h XOR drop_bit 16 h;
          h = h XOR drop_bit 8 h
      in h XOR drop_bit 4 h)"

lemma ip_eq_iff [simp]: "ip_eq a b \<longleftrightarrow> a = b"
  by (cases a; cases b) (simp add: ip_eq_def)

lemma length_sin_addr [simp]: "ss_wf ss \<Longrightarrow> length (sin_addr ss) = 4"
  by (simp add: sin_addr_def ss_wf_def)

lemma length_sin6_addr [simp]: "ss_wf ss \<Longrightarrow> length (sin6_addr ss) = 16"
  by (simp add: sin6_addr_def ss_wf_def)

lemma ip_from_sockaddr_wf:
  assumes "ss_wf ss" "ip_wf ip"
  shows "ip_wf (ip_from_sockaddr ss ip)"
  using assms by (simp add: ip_from_sockaddr_def ip_wf_def Let_def)

lemma ip_from_sockaddr_inet:
  assumes "ss_wf ss" "ip_wf ip" "ss_family ss = AF_INET"
  shows "ip_from_sockaddr ss ip = \<lparr>family = AF_INET, addr = sin_addr ss @ replicate 12 0\<rparr>"
  using assms by (cases ip) (simp add: ip_from_sockaddr_def ip_wf_def poke_def)

lemma ip_from_sockaddr_inet6:
  assumes "ss_wf ss" "ip_wf ip" "ss_family ss = AF_INET6"
  shows "ip_from_sockaddr ss ip = \<lparr>family = AF_INET6, addr = sin6_addr ss\<rparr>"
  using assms by (cases ip) (simp add: ip_from_sockaddr_def ip_wf_def poke_def AF_defs)

text \<open>The slot of an address in a table of 64: the low six bits of the hash.\<close>

lemma hash_mask_less: "unat (ip_hash32 ip AND 63) < 64"
  using word_and_le1 [of "ip_hash32 ip" 63] by (simp add: word_le_nat_alt)

lemma and_63_mod: "(m::nat) AND 63 = m mod 64"
  using take_bit_eq_mask [of 6 m] by (simp add: take_bit_eq_mod mask_eq_exp_minus_1)

end
