(* ===== verification/Totp.thy ===== *)
theory Totp
  imports Hmac Addr
begin

text \<open>
  One-time passwords (\<^verbatim>\<open>src/totp.c\<close>, \<^verbatim>\<open>src/totp.h\<close>): dynamic truncation of the HMAC
  of a counter, and the search of the window of counters around the current time step.
  \<open>hotp_rfc4226\<close> relates the word arithmetic to the numbers of RFC 4226;
  \<open>window_scan_window\<close> relates the search over signed offsets to the set of counters that lie in the
  window.
\<close>

record totp_params =
  src_ip :: ip_addr_t
  p_now :: time_t
  p_digits :: int
  p_step :: int
  drift_behind :: int
  drift_ahead :: int
  out_counter :: bool  \<comment> \<open>whether the pointer is not \<open>NULL\<close>\<close>

definition pow10 :: "int \<Rightarrow> u32" where
  "pow10 d = (if d = 6 then 1000000 else if d = 7 then 10000000
     else if d = 8 then 100000000 else 1000000)"

definition counter_be :: "u64 \<Rightarrow> byte list" where
  "counter_be counter =
     fst (fold (\<lambda>i (b, c). (b[7 - i := ucast (c AND 0xff)], drop_bit 8 c)) [0..<8]
           (replicate 8 0, counter))"

definition hotp :: "byte list \<Rightarrow> u64 \<Rightarrow> int \<Rightarrow> u32" where
  "hotp secret counter d =
     (let mac = hmac_sha1 secret (counter_be counter);
          offset = unat (mac ! (HMAC_SHA1_LEN - 1) AND 0x0f);
          binary = push_bit 24 (ucast (mac ! offset AND 0x7f))
            OR push_bit 16 (ucast (mac ! (offset + 1)))
            OR push_bit 8 (ucast (mac ! (offset + 2)))
            OR ucast (mac ! (offset + 3))
      in binary mod pow10 d)"

definition totp_generate :: "byte list \<Rightarrow> u64 \<Rightarrow> int \<Rightarrow> u32" where
  "totp_generate secret counter d = hotp secret counter d"

text \<open>
  The loop over the drift \<open>d\<close>: offsets that would go below counter zero are skipped, and the
  first counter that satisfies \<open>ok\<close> is returned.
\<close>

fun window_scan :: "(u64 \<Rightarrow> bool) \<Rightarrow> u64 \<Rightarrow> int list \<Rightarrow> u64 option" where
  "window_scan ok current [] = None"
| "window_scan ok current (d # ds) =
     (if d < 0 \<and> current < word_of_int (- d) then window_scan ok current ds
      else let candidate = current + word_of_int d in
           if ok candidate then Some candidate else window_scan ok current ds)"

definition current_step :: "totp_params \<Rightarrow> u64" where
  "current_step p = word_of_int (p_now p) div word_of_int (p_step p)"

text \<open>Result: the return code, and what is stored through \<open>out_counter\<close>.\<close>

definition totp_validate :: "byte list \<Rightarrow> u32 \<Rightarrow> totp_params \<Rightarrow> int \<times> u64 option" where
  "totp_validate secret token p =
     (case window_scan (\<lambda>c. hotp secret c (p_digits p) = token) (current_step p)
             [- drift_behind p..drift_ahead p] of
        Some candidate \<Rightarrow> (0, if out_counter p then Some candidate else None)
      | None \<Rightarrow> (-1, None))"

section \<open>RFC 4226\<close>

definition rfc4226_truncate :: "byte list \<Rightarrow> nat" where
  "rfc4226_truncate mac =
     (let off = unat (mac ! 19) mod 16
      in (unat (mac ! off) * 2 ^ 24 + unat (mac ! (off + 1)) * 2 ^ 16
          + unat (mac ! (off + 2)) * 2 ^ 8 + unat (mac ! (off + 3))) mod 2 ^ 31)"

definition rfc4226_hotp :: "byte list \<Rightarrow> u64 \<Rightarrow> nat \<Rightarrow> nat" where
  "rfc4226_hotp secret counter n = rfc4226_truncate (rfc2104_hmac secret (be64_bytes counter)) mod 10 ^ n"

lemma counter_be_be64: "counter_be counter = be64_bytes counter"
proof -
  have "c AND 0xff = take_bit 8 c" for c :: u64
    by (simp add: take_bit_eq_mask mask_eq_exp_minus_1)
  moreover have "ucast (take_bit 8 c) = (ucast c :: byte)" for c :: u64
    by (rule bit_word_eqI) (auto simp: bit_simps)
  ultimately have "ucast (c AND 0xff) = (ucast c :: byte)" for c :: u64 by metis
  moreover have "replicate 8 0 = [0, 0, 0, 0, 0, 0, 0, 0 :: byte]" by (simp add: eval_nat_numeral)
  ultimately show ?thesis
    by (simp add: counter_be_def be64_bytes_def upt_rec)
qed

text \<open>The four bytes read by the truncation lie inside the 20-byte code.\<close>

lemma offset_in_mac: "unat ((b::byte) AND 0x0f) + 3 < HMAC_SHA1_LEN"
  using word_and_le1 [of b "0x0f"] by (simp add: HMAC_SHA1_LEN_def word_le_nat_alt)

lemma unat_and_mod: "unat ((b::byte) AND 0x0f) = unat b mod 16" "unat ((b::byte) AND 0x7f) = unat b mod 128"
proof -
  have "b AND 0x0f = take_bit 4 b" "b AND 0x7f = take_bit 7 b"
    by (simp_all add: take_bit_eq_mask mask_eq_exp_minus_1)
  then show "unat (b AND 0x0f) = unat b mod 16" "unat (b AND 0x7f) = unat b mod 128"
    by (simp_all add: take_bit_eq_mod unat_mod)
qed

lemma hotp_rfc4226:
  "unat (hotp secret counter d) =
     rfc4226_hotp secret counter (if d = 7 then 7 else if d = 8 then 8 else 6)"
proof -
  define mac where "mac = rfc2104_hmac secret (be64_bytes counter)"
  define off where "off = unat (mac ! 19) mod 16"
  define rest where "rest = unat (mac ! (off + 1)) * 2 ^ 16 + unat (mac ! (off + 2)) * 2 ^ 8 + unat (mac ! (off + 3))"
  have "unat (mac ! (off + 1)) < 256" "unat (mac ! (off + 2)) < 256" "unat (mac ! (off + 3)) < 256"
    using unsigned_less [where 'a = nat, of "mac ! (off + 1)"] unsigned_less [where 'a = nat, of "mac ! (off + 2)"]
      unsigned_less [where 'a = nat, of "mac ! (off + 3)"] by simp_all
  then have rest: "rest < 2 ^ 24" by (simp add: rest_def)
  obtain q r where qr: "q = unat (mac ! off) div 128" "r = unat (mac ! off) mod 128" by simp
  then have "unat (mac ! off) = 128 * q + r" by simp
  then have "unat (mac ! off) * 2 ^ 24 + rest = (r * 2 ^ 24 + rest) + 2 ^ 31 * q" by (simp add: algebra_simps)
  then have "unat (mac ! off) * 2 ^ 24 + rest
      = (unat (mac ! off) mod 128 * 2 ^ 24 + rest) + 2 ^ 31 * (unat (mac ! off) div 128)"
    by (simp add: qr)
  moreover have "unat (mac ! off) mod 128 * 2 ^ 24 + rest < 2 ^ 31"
    using rest pos_mod_bound [of 128 "int (unat (mac ! off))"] by (simp add: algebra_simps)
  ultimately have "(unat (mac ! off) * 2 ^ 24 + rest) mod 2 ^ 31 = unat (mac ! off) mod 128 * 2 ^ 24 + rest"
    by (metis mod_less mod_mult_self2)
  then have tr: "rfc4226_truncate mac
      = unat (be32_word (mac ! off AND 0x7f) (mac ! (off + 1)) (mac ! (off + 2)) (mac ! (off + 3)))"
    by (simp add: rfc4226_truncate_def off_def [symmetric] unat_be32_word unat_and_mod rest_def add.assoc)
  show ?thesis
    unfolding rfc4226_hotp_def mac_def [symmetric] tr
    by (simp add: hotp_def Let_def hmac_sha1_rfc2104 counter_be_be64 HMAC_SHA1_LEN_def
        mac_def [symmetric] unat_and_mod off_def [symmetric] be32_word_def unat_mod pow10_def)
qed

lemma hotp_less: "unat (hotp secret counter d) < 10 ^ (if d = 7 then 7 else if d = 8 then 8 else 6)"
  by (simp add: hotp_rfc4226 rfc4226_hotp_def)

section \<open>The window\<close>

lemma window_scan_find:
  "window_scan ok current ds =
     find ok (map (\<lambda>d. current + word_of_int d)
       (filter (\<lambda>d. \<not> (d < 0 \<and> current < word_of_int (- d))) ds))"
  by (induction ds) (auto simp: Let_def)

text \<open>Parameters that fit the C types and do not overflow them.\<close>

definition params_ok :: "totp_params \<Rightarrow> bool" where
  "params_ok p \<longleftrightarrow> 0 \<le> p_now p \<and> p_now p < 2 ^ 63 \<and> 0 < p_step p \<and> p_step p < 2 ^ 31
     \<and> 0 \<le> drift_behind p \<and> drift_behind p < 2 ^ 31 \<and> 0 \<le> drift_ahead p \<and> drift_ahead p < 2 ^ 31"

definition window :: "totp_params \<Rightarrow> int list" where
  "window p = [max 0 (p_now p div p_step p - drift_behind p)..p_now p div p_step p + drift_ahead p]"

lemma current_step_eq: "params_ok p \<Longrightarrow> uint (current_step p) = p_now p div p_step p"
  by (simp add: current_step_def params_ok_def uint_div_distrib uint_word_of_int_eq take_bit_int_eq_self)

lemma filter_upto_ge: "filter (\<lambda>d. m \<le> d) [lo..hi] = [max m lo..hi]"
proof (induction "nat (hi - lo + 1)" arbitrary: lo)
  case 0
  then show ?case by simp
next
  case (Suc n)
  then have "lo \<le> hi" by simp
  with Suc(1) [of "lo + 1"] Suc(2) show ?case
    by (cases "m = lo + 1") (auto simp: upto_rec1 [of lo hi] max_def)
qed

lemma map_add_upto: "map (\<lambda>d. n + d) [lo..hi] = [n + lo..n + hi]"
proof (induction "nat (hi - lo + 1)" arbitrary: lo)
  case 0
  then show ?case by simp
next
  case (Suc k)
  then have "lo \<le> hi" by simp
  with Suc(1) [of "lo + 1"] Suc(2) show ?case
    by (simp add: upto_rec1 [of lo hi] upto_rec1 [of "n + lo" "n + hi"] add.assoc)
qed

lemma window_scan_window:
  assumes "params_ok p"
  shows "window_scan ok (current_step p) [- drift_behind p..drift_ahead p] = find ok (map word_of_int (window p))"
proof -
  define n where "n = p_now p div p_step p"
  have n: "uint (current_step p) = n" "0 \<le> n"
    using current_step_eq [OF assms] assms by (simp_all add: n_def params_ok_def pos_imp_zdiv_nonneg_iff)
  then have w: "current_step p = word_of_int n" by (metis word_of_int_uint)
  have elig: "\<not> (d < 0 \<and> current_step p < word_of_int (- d)) \<longleftrightarrow> - n \<le> d"
    if "d \<in> set [- drift_behind p..drift_ahead p]" for d
  proof (cases "d < 0")
    case True
    with that assms have "uint (word_of_int (- d) :: u64) = - d"
      unfolding uint_word_of_int_eq by (simp add: params_ok_def take_bit_int_eq_self)
    then show ?thesis using True n by (auto simp: word_less_def)
  qed (use n in auto)
  have "window_scan ok (current_step p) [- drift_behind p..drift_ahead p]
      = find ok (map (\<lambda>d. word_of_int (n + d)) (filter (\<lambda>d. - n \<le> d) [- drift_behind p..drift_ahead p]))"
  proof -
    have "filter (\<lambda>d. \<not> (d < 0 \<and> current_step p < word_of_int (- d))) [- drift_behind p..drift_ahead p]
        = filter (\<lambda>d. - n \<le> d) [- drift_behind p..drift_ahead p]"
      using elig by (intro filter_cong refl)
    then show ?thesis unfolding window_scan_find by (simp only: w of_int_add)
  qed
  also have "\<dots> = find ok (map word_of_int (map ((+) n) [max (- n) (- drift_behind p)..drift_ahead p]))"
    by (simp add: filter_upto_ge comp_def)
  also have "\<dots> = find ok (map word_of_int (window p))"
    by (simp add: map_add_upto window_def n_def max_def)
  finally show ?thesis .
qed

lemma find_map_Some:
  "find ok (map f xs) = Some c \<Longrightarrow> \<exists>x \<in> set xs. c = f x \<and> ok c"
  by (auto simp: find_Some_iff)

lemma find_map: "find P (map f xs) = map_option f (find (\<lambda>x. P (f x)) xs)"
  by (induction xs) auto

text \<open>The number of digits the code works with, and a token as a number of the standard.\<close>

definition token_digits :: "int \<Rightarrow> nat" where
  "token_digits d = (if d = 7 then 7 else if d = 8 then 8 else 6)"

lemma hotp_eq_iff: "hotp secret c d = token \<longleftrightarrow> unat token = rfc4226_hotp secret c (token_digits d)"
proof -
  have "unat (hotp secret c d) = rfc4226_hotp secret c (token_digits d)"
    unfolding token_digits_def by (rule hotp_rfc4226)
  then show ?thesis by (simp only: word_unat_eq_iff eq_commute)
qed

lemma totp_validate_find:
  assumes "params_ok p"
  shows "totp_validate secret token p =
    (case find (\<lambda>c. unat token = rfc4226_hotp secret (word_of_int c) (token_digits (p_digits p))) (window p) of
       Some c \<Rightarrow> (0, if out_counter p then Some (word_of_int c) else None)
     | None \<Rightarrow> (-1, None))"
  unfolding totp_validate_def window_scan_window [OF assms] hotp_eq_iff find_map
  by (cases "find (\<lambda>c. unat token = rfc4226_hotp secret (word_of_int c) (token_digits (p_digits p))) (window p)")
    simp_all

end
