(* ===== verification/Probe.thy ===== *)
theory Probe
  imports Prelude
begin

text \<open>
  Open addressing with linear probing, the search that \<^verbatim>\<open>src/auth.c\<close> and
  \<^verbatim>\<open>src/ratelimit.c\<close> both write out by hand over a table of fixed size. \<open>slot_of\<close> is
  the outcome of that search: the slot that holds the key, the first unused slot on the way,
  or no slot at all.

  The locale \<open>keyed_table\<close> is the contract the two modules rely on (a partial map with a
  store that may run out of room); \<open>linear_probing\<close> proves it for any table searched this way,
  as long as slots are only written and never emptied. \<open>drop_entries_lookup\<close> says when
  emptying slots is harmless.
\<close>

section \<open>The search\<close>

datatype slot = Hit nat | Free nat | Full

fun probe :: "('e \<Rightarrow> bool) \<Rightarrow> ('e \<Rightarrow> 'k) \<Rightarrow> 'e list \<Rightarrow> 'k \<Rightarrow> nat list \<Rightarrow> slot" where
  "probe used key t k [] = Full"
| "probe used key t k (p # ps) =
     (if \<not> used (t ! p) then Free p
      else if key (t ! p) = k then Hit p
      else probe used key t k ps)"

definition probe_path :: "nat \<Rightarrow> nat \<Rightarrow> nat list" where
  "probe_path n h = map (\<lambda>i. (h + i) mod n) [0..<n]"

definition slot_of ::
    "('e \<Rightarrow> bool) \<Rightarrow> ('e \<Rightarrow> 'k) \<Rightarrow> ('k \<Rightarrow> nat) \<Rightarrow> nat \<Rightarrow> 'e list \<Rightarrow> 'k \<Rightarrow> slot" where
  "slot_of used key home n t k = probe used key t k (probe_path n (home k))"

text \<open>Every used entry is found by the search for its own key.\<close>

definition table_ok ::
    "('e \<Rightarrow> bool) \<Rightarrow> ('e \<Rightarrow> 'k) \<Rightarrow> ('k \<Rightarrow> nat) \<Rightarrow> nat \<Rightarrow> 'e list \<Rightarrow> bool" where
  "table_ok used key home n t \<longleftrightarrow>
     length t = n \<and> (\<forall>p < n. used (t ! p) \<longrightarrow> slot_of used key home n t (key (t ! p)) = Hit p)"

definition table_lookup ::
    "('e \<Rightarrow> bool) \<Rightarrow> ('e \<Rightarrow> 'k) \<Rightarrow> ('k \<Rightarrow> nat) \<Rightarrow> nat \<Rightarrow> 'e list \<Rightarrow> 'k \<Rightarrow> 'e option" where
  "table_lookup used key home n t k =
     (case slot_of used key home n t k of Hit p \<Rightarrow> Some (t ! p) | _ \<Rightarrow> None)"

definition table_store ::
    "('e \<Rightarrow> bool) \<Rightarrow> ('e \<Rightarrow> 'k) \<Rightarrow> ('k \<Rightarrow> nat) \<Rightarrow> nat \<Rightarrow> 'e list \<Rightarrow> 'e \<Rightarrow> 'e list option" where
  "table_store used key home n t e =
     (case slot_of used key home n t (key e) of
        Hit p \<Rightarrow> Some (t[p := e])
      | Free p \<Rightarrow> Some (t[p := e])
      | Full \<Rightarrow> None)"

lemma probe_Hit: "probe used key t k ps = Hit p \<Longrightarrow> p \<in> set ps \<and> used (t ! p) \<and> key (t ! p) = k"
  by (induction ps) (auto split: if_splits)

lemma probe_Free: "probe used key t k ps = Free p \<Longrightarrow> p \<in> set ps \<and> \<not> used (t ! p)"
  by (induction ps) (auto split: if_splits)

lemma probe_Full:
  "probe used key t k ps = Full \<Longrightarrow> p \<in> set ps \<Longrightarrow> used (t ! p) \<and> key (t ! p) \<noteq> k"
  by (induction ps) (auto split: if_splits)

lemma probe_stops:
  assumes "probe used key t k ps = Hit p" and "i < length ps" and "\<not> used (t ! (ps ! i))"
  shows "p \<in> set (take i ps)"
  using assms
proof (induction ps arbitrary: i)
  case (Cons q ps)
  then show ?case by (cases i) (auto split: if_splits)
qed simp

text \<open>Writing the slot the search for \<open>k\<close> ended in, seen from \<open>k\<close> and from another key.\<close>

lemma probe_write_same:
  assumes "probe used key t (key e) ps = Hit p \<or> probe used key t (key e) ps = Free p"
    and "used e" and "p < length t"
  shows "probe used key (t[p := e]) (key e) ps = Hit p"
  using assms by (induction ps) (auto simp: nth_list_update split: if_splits)

lemma probe_write_other:
  assumes "used e" and "key e \<noteq> k" and "p < length t" and "used (t ! p) \<Longrightarrow> key (t ! p) \<noteq> k"
  shows "probe used key (t[p := e]) k ps = probe used key t k ps
    \<or> probe used key t k ps = Free p"
  using assms by (induction ps) (auto simp: nth_list_update)

lemma probe_write_Free:
  assumes "used e" and "key e \<noteq> k" and "p < length t" and "probe used key t k ps = Free p"
    and "probe used key (t[p := e]) k ps = Hit q"
  shows "q \<in> set ps \<and> used (t ! q) \<and> key (t ! q) = k"
  using assms probe_Hit [of used key "t[p := e]" k ps q] by (auto simp: nth_list_update split: if_splits)

lemma set_probe_path: "h < n \<Longrightarrow> set (probe_path n h) = {0..<n}"
proof
  assume h: "h < n"
  show "set (probe_path n h) \<subseteq> {0..<n}"
    using h by (auto simp: probe_path_def)
  show "{0..<n} \<subseteq> set (probe_path n h)"
  proof
    fix p assume p: "p \<in> {0..<n}"
    have "p = (h + (p + n - h) mod n) mod n"
      using h p by (simp add: mod_add_right_eq)
    moreover have "(p + n - h) mod n \<in> {0..<n}" using h by simp
    ultimately show "p \<in> set (probe_path n h)"
      unfolding probe_path_def by auto
  qed
qed

section \<open>The contract\<close>

text \<open>
  A table of values \<open>'v\<close> under keys \<open>'k\<close>: \<open>store\<close> may be refused, but only for a key the
  table does not hold; it never disturbs another key.
\<close>

locale keyed_table =
  fixes lookup :: "'t \<Rightarrow> 'k \<Rightarrow> 'v option"
    and store :: "'t \<Rightarrow> 'k \<Rightarrow> 'v \<Rightarrow> 't option"
    and invar :: "'t \<Rightarrow> bool"
  assumes lookup_store: "invar t \<Longrightarrow> store t k v = Some t' \<Longrightarrow> lookup t' = (lookup t)(k \<mapsto> v)"
    and invar_store: "invar t \<Longrightarrow> store t k v = Some t' \<Longrightarrow> invar t'"
    and store_refused: "invar t \<Longrightarrow> store t k v = None \<Longrightarrow> lookup t k = None"
begin

lemma lookup_store_other:
  "invar t \<Longrightarrow> store t k v = Some t' \<Longrightarrow> k' \<noteq> k \<Longrightarrow> lookup t' k' = lookup t k'"
  by (simp add: lookup_store)

lemma store_known: "invar t \<Longrightarrow> lookup t k = Some w \<Longrightarrow> \<exists>t'. store t k v = Some t'"
  using store_refused [of t k v] by (cases "store t k v") auto

end

section \<open>Linear probing implements it\<close>

locale linear_probing =
  fixes used :: "'e \<Rightarrow> bool" and key :: "'e \<Rightarrow> 'k" and home :: "'k \<Rightarrow> nat" and n :: nat
  assumes home_less: "home k < n"
begin

lemma slot_less: "slot_of used key home n t k = Hit p \<or> slot_of used key home n t k = Free p \<Longrightarrow> p < n"
  using probe_Hit [of used key t k _ p] probe_Free [of used key t k _ p] set_probe_path [OF home_less]
  unfolding slot_of_def by fastforce

lemma slot_Hit: "slot_of used key home n t k = Hit p \<Longrightarrow> used (t ! p) \<and> key (t ! p) = k"
  using probe_Hit unfolding slot_of_def by fastforce

lemma slot_Free: "slot_of used key home n t k = Free p \<Longrightarrow> \<not> used (t ! p)"
  using probe_Free unfolding slot_of_def by fastforce

lemma slot_Full: "slot_of used key home n t k = Full \<Longrightarrow> p < n \<Longrightarrow> used (t ! p) \<and> key (t ! p) \<noteq> k"
  using probe_Full set_probe_path [OF home_less, of k] unfolding slot_of_def by fastforce

lemma ok_lookup_iff:
  assumes "table_ok used key home n t"
  shows "table_lookup used key home n t k = Some e \<longleftrightarrow> (\<exists>p < n. t ! p = e \<and> used e \<and> key e = k)"
proof
  assume "table_lookup used key home n t k = Some e"
  then show "\<exists>p < n. t ! p = e \<and> used e \<and> key e = k"
    unfolding table_lookup_def using slot_Hit slot_less by (fastforce split: slot.splits)
next
  assume "\<exists>p < n. t ! p = e \<and> used e \<and> key e = k"
  then show "table_lookup used key home n t k = Some e"
    using assms by (auto simp: table_lookup_def table_ok_def)
qed

lemma store_Some:
  assumes "table_store used key home n t e = Some t'"
  obtains p where "t' = t[p := e]" and "p < n"
    and "slot_of used key home n t (key e) = Hit p \<or> slot_of used key home n t (key e) = Free p"
  using assms slot_less [of t "key e"] unfolding table_store_def
  by (auto split: slot.splits)

lemma store_ok:
  assumes ok: "table_ok used key home n t" and "used e"
    and st: "table_store used key home n t e = Some t'"
  shows "table_ok used key home n t'"
proof -
  obtain p where t': "t' = t[p := e]" and p: "p < n"
    and sl: "slot_of used key home n t (key e) = Hit p \<or> slot_of used key home n t (key e) = Free p"
    using store_Some [OF st] by blast
  have len: "length t = n" using ok by (simp add: table_ok_def)
  have "slot_of used key home n t' (key (t' ! q)) = Hit q" if q: "q < n" "used (t' ! q)" for q
  proof (cases "q = p")
    case True
    then show ?thesis
      using sl probe_write_same [of used key t e _ p] assms(2) p len
      by (auto simp: slot_of_def t')
  next
    case False
    then have eq: "t' ! q = t ! q" by (simp add: t')
    then have h: "slot_of used key home n t (key (t ! q)) = Hit q"
      using ok q by (simp add: table_ok_def)
    have ne: "key e \<noteq> key (t ! q)"
      using sl h False by auto
    have "used (t ! p) \<Longrightarrow> key (t ! p) \<noteq> key (t ! q)"
      using sl slot_Hit slot_Free ne by metis
    then have "slot_of used key home n t' (key (t ! q)) = slot_of used key home n t (key (t ! q))"
      using probe_write_other [of used e key "key (t ! q)" p t "probe_path n (home (key (t ! q)))"] \<open>used e\<close> ne p len h
      by (auto simp: slot_of_def t')
    then show ?thesis using h eq by simp
  qed
  then show ?thesis using len by (simp add: table_ok_def t')
qed

lemma store_lookup:
  assumes ok: "table_ok used key home n t" and "used e"
    and st: "table_store used key home n t e = Some t'"
  shows "table_lookup used key home n t' = (table_lookup used key home n t)(key e \<mapsto> e)"
proof
  fix k
  obtain p where t': "t' = t[p := e]" and p: "p < n"
    and sl: "slot_of used key home n t (key e) = Hit p \<or> slot_of used key home n t (key e) = Free p"
    using store_Some [OF st] by blast
  have len: "length t = n" using ok by (simp add: table_ok_def)
  have ok': "table_ok used key home n t'" using store_ok [OF assms] .
  have old: "key (t ! p) = key e" if "used (t ! p)"
    using sl slot_Hit slot_Free that by metis
  have "table_lookup used key home n t' k = Some v \<longleftrightarrow>
      ((table_lookup used key home n t)(key e \<mapsto> e)) k = Some v" for v
  proof (cases "k = key e")
    case True
    have "table_lookup used key home n t' (key e) = Some e"
      using ok_lookup_iff [OF ok', of "key e" e] p len \<open>used e\<close> by (auto simp: t')
    then show ?thesis using True by simp
  next
    case False
    have "(\<exists>q < n. t' ! q = v \<and> used v \<and> key v = k) \<longleftrightarrow> (\<exists>q < n. t ! q = v \<and> used v \<and> key v = k)"
      using False old len by (metis nth_list_update_eq nth_list_update_neq t')
    then show ?thesis using False ok_lookup_iff [OF ok', of k v] ok_lookup_iff [OF ok, of k v] by simp
  qed
  then show "table_lookup used key home n t' k = ((table_lookup used key home n t)(key e \<mapsto> e)) k"
    by (metis option.exhaust)
qed

lemma store_None:
  assumes "table_store used key home n t e = None"
  shows "table_lookup used key home n t (key e) = None" and "p < n \<Longrightarrow> used (t ! p)"
  using assms slot_Full [of t "key e" p]
  by (auto simp: table_store_def table_lookup_def split: slot.splits)

end

context linear_probing
begin

text \<open>
  Emptying slots. A table in which every entry sits in its home slot stays searchable when any
  of its entries are dropped; the map loses exactly those. Without that condition it does not:
  an emptied slot ends the search for entries that were displaced past it.
\<close>

lemma path_Cons: "probe_path n (home k) = home k # tl (probe_path n (home k))"
  using home_less [of k] by (simp add: probe_path_def upt_conv_Cons)

lemma home_placed_ok:
  assumes "length t = n" and "\<And>p. p < n \<Longrightarrow> used (t ! p) \<Longrightarrow> home (key (t ! p)) = p"
  shows "table_ok used key home n t"
proof -
  have "slot_of used key home n t (key (t ! p)) = Hit p" if "p < n" "used (t ! p)" for p
    unfolding slot_of_def using that assms(2) [OF that] by (subst path_Cons) simp
  then show ?thesis using assms(1) by (simp add: table_ok_def)
qed

lemma drop_entries_lookup:
  assumes len: "length t = n" and home: "\<And>p. p < n \<Longrightarrow> used (t ! p) \<Longrightarrow> home (key (t ! p)) = p"
    and keep: "\<And>e. used (f e) \<Longrightarrow> f e = e"
  shows "table_ok used key home n (map f t)"
    and "table_lookup used key home n (map f t) k =
      (case table_lookup used key home n t k of None \<Rightarrow> None | Some e \<Rightarrow> if used (f e) then Some e else None)"
proof -
  show ok': "table_ok used key home n (map f t)"
  proof (rule home_placed_ok)
    fix p assume p: "p < n" and "used (map f t ! p)"
    then have "used (f (t ! p))" using len by simp
    then show "home (key (map f t ! p)) = p" using p len home [OF p] keep [of "t ! p"] by simp
  qed (simp add: len)
  have ok: "table_ok used key home n t" using home_placed_ok [OF len home] .
  have "table_lookup used key home n (map f t) k = Some e \<longleftrightarrow>
      table_lookup used key home n t k = Some e \<and> used (f e)" for e
    unfolding ok_lookup_iff [OF ok'] ok_lookup_iff [OF ok] using len keep by fastforce
  then show "table_lookup used key home n (map f t) k =
      (case table_lookup used key home n t k of None \<Rightarrow> None | Some e \<Rightarrow> if used (f e) then Some e else None)"
    by (rule option_filter_eqI)
qed

text \<open>
  A search that passed an emptied slot before now ends there: the entry behind it is lost, and the
  map loses a key that was not dropped.
\<close>

lemma search_stopped:
  assumes "table_ok used key home n t" and "i < j" and "j < n" and "used (t ! ((home k + j) mod n))" and "key (t ! ((home k + j) mod n)) = k"
    and "\<not> used (t' ! ((home k + i) mod n))" and "\<And>p. p < n \<Longrightarrow> used (t' ! p) \<Longrightarrow> used (t ! p) \<and> key (t ! p) = key (t' ! p)"
  shows "table_lookup used key home n t' k = None"
proof -
  let ?path = "probe_path n (home k)"
  have path: "length ?path = n" "?path ! m = (home k + m) mod n" if "m < n" for m using that by (simp_all add: probe_path_def)
  have at: "slot_of used key home n t k = Hit ((home k + j) mod n)"
  proof -
    have "(home k + j) mod n < n" using assms(3) by simp
    then have "slot_of used key home n t (key (t ! ((home k + j) mod n))) = Hit ((home k + j) mod n)" using assms(1,4) unfolding table_ok_def by blast
    then show ?thesis unfolding assms(5) .
  qed
  have False if "slot_of used key home n t' k = Hit p" for p
  proof -
    have p: "p < n" "used (t ! p)" "key (t ! p) = k" using slot_less slot_Hit that assms(7) by metis+
    then have "slot_of used key home n t k = Hit p" using assms(1) by (auto simp: table_ok_def)
    then have "p = (home k + j) mod n" using at by simp
    moreover have "p \<in> set (take i ?path)"
      using probe_stops [of used key t' k ?path p i] that assms(2,3,6) path [of i] by (simp add: slot_of_def)
    then obtain m where "m < i" "p = (home k + m) mod n" using path assms(2,3) by (auto simp: in_set_conv_nth)
    ultimately have "n dvd (home k + j) - (home k + m)" using assms(2) by (metis mod_eq_dvd_iff_nat add_left_mono less_imp_le order.strict_trans)
    then show False using \<open>m < i\<close> assms(2,3) by (auto dest: dvd_imp_le)
  qed
  then show ?thesis by (auto simp: table_lookup_def split: slot.split)
qed

text \<open>Keys whose home slots are distinct are never displaced.\<close>

lemma home_store:
  assumes "\<And>p. p < n \<Longrightarrow> used (t ! p) \<Longrightarrow> home (key (t ! p)) = p \<and> key (t ! p) \<in> K"
    and "inj_on home K" and "key e \<in> K"
  shows "table_store used key home n t e = Some (t[home (key e) := e])"
proof -
  have "slot_of used key home n t (key e) = Free (home (key e))
      \<or> slot_of used key home n t (key e) = Hit (home (key e))"
    unfolding slot_of_def using assms home_less [of "key e"]
    by (subst (1 2) path_Cons) (auto dest: inj_onD)
  then show ?thesis by (auto simp: table_store_def)
qed

end

text \<open>
  With entries built from a key and a payload, linear probing is a keyed table of payloads.
\<close>

locale probing_map = linear_probing used key home n
  for used :: "'e \<Rightarrow> bool" and key :: "'e \<Rightarrow> 'k" and home :: "'k \<Rightarrow> nat" and n :: nat +
  fixes mk :: "'k \<Rightarrow> 'v \<Rightarrow> 'e" and payload :: "'e \<Rightarrow> 'v"
  assumes mk_used: "used (mk k v)" and mk_key: "key (mk k v) = k"
    and mk_payload: "payload (mk k v) = v"

sublocale probing_map \<subseteq> keyed_table
  "\<lambda>t k. map_option payload (table_lookup used key home n t k)"
  "\<lambda>t k v. table_store used key home n t (mk k v)"
  "table_ok used key home n"
proof
  fix t t' k v
  assume ok: "table_ok used key home n t"
  show "(\<lambda>k'. map_option payload (table_lookup used key home n t' k')) =
      (\<lambda>k'. map_option payload (table_lookup used key home n t k'))(k \<mapsto> v)"
    if "table_store used key home n t (mk k v) = Some t'"
    using store_lookup [OF ok mk_used that] by (auto simp: mk_key mk_payload)
  show "table_ok used key home n t'" if "table_store used key home n t (mk k v) = Some t'"
    using store_ok [OF ok mk_used that] .
  show "map_option payload (table_lookup used key home n t k) = None"
    if "table_store used key home n t (mk k v) = None"
    using store_None(1) [OF that] by (simp add: mk_key)
qed

section \<open>A client of the contract: per-key monotone acceptance\<close>

text \<open>
  Accepting \<open>v\<close> under \<open>k\<close> is allowed only when its sequence number is above the stored one.
  However such acceptances are interleaved over keys, the sequence numbers accepted for one
  key are strictly increasing: nothing is ever accepted twice.
\<close>

locale monotone_acceptance = keyed_table lookup store invar
  for lookup :: "'t \<Rightarrow> 'k \<Rightarrow> 'v option" and store :: "'t \<Rightarrow> 'k \<Rightarrow> 'v \<Rightarrow> 't option"
    and invar :: "'t \<Rightarrow> bool" +
  fixes seq_of :: "'v \<Rightarrow> 's::linorder"
begin

fun accept_all :: "'t \<Rightarrow> ('k \<times> 'v) list \<Rightarrow> 't option" where
  "accept_all t [] = Some t"
| "accept_all t ((k, v) # as) =
     (if (case lookup t k of None \<Rightarrow> False | Some w \<Rightarrow> seq_of v \<le> seq_of w) then None
      else case store t k v of None \<Rightarrow> None | Some t' \<Rightarrow> accept_all t' as)"

lemma accept_all_monotone:
  assumes "invar t" and "accept_all t as = Some t'"
  shows "invar t'
    \<and> sorted_wrt (<) (map (seq_of \<circ> snd) (filter (\<lambda>a. fst a = k) as))
    \<and> (\<forall>w s. lookup t k = Some w \<longrightarrow> s \<in> set (map (seq_of \<circ> snd) (filter (\<lambda>a. fst a = k) as))
         \<longrightarrow> seq_of w < s)"
  using assms
proof (induction as arbitrary: t)
  case Nil
  then show ?case by simp
next
  case (Cons a as)
  obtain j v where a: "a = (j, v)" by (cases a)
  from Cons.prems(2) obtain t1 where st: "store t j v = Some t1"
    and rest: "accept_all t1 as = Some t'"
    and fresh: "\<And>w. lookup t j = Some w \<Longrightarrow> seq_of w < seq_of v"
    by (auto simp: a split: if_splits option.splits)
  note up = lookup_store [OF Cons.prems(1) st]
  from Cons.IH [OF invar_store [OF Cons.prems(1) st] rest] show ?case
    using fresh by (auto simp: a up split: if_splits)
qed

end

end
