(* ===== verification/Auth.thy ===== *)
theory Auth
  imports Totp Probe
begin

text \<open>
  Authentication packets (\<^verbatim>\<open>src/auth.c\<close>): the replay table, the token parser and the
  validation that ties them to the one-time password.

  The table is a list of 64 entries threaded through the operations. \<open>time(NULL)\<close>, which
  \<open>auth_record_seq\<close> calls, is the argument \<open>clock\<close>. The interpretations \<open>replay\<close> and
  \<open>replay_seq\<close> discharge the contract of theory \<open>Probe\<close> for this table, and the
  anti-replay lemmas rest on their facts.
\<close>

definition REPLAY_TABLE_SIZE :: nat where "REPLAY_TABLE_SIZE = 64"
definition REPLAY_TABLE_MASK :: nat where "REPLAY_TABLE_MASK = 63"
definition MAX_PACKET_LEN :: nat where "MAX_PACKET_LEN = 256"
definition MAX_TOKEN_DIGITS :: nat where "MAX_TOKEN_DIGITS = 8"
definition MIN_TOKEN_DIGITS :: nat where "MIN_TOKEN_DIGITS = 6"

lemmas auth_consts = REPLAY_TABLE_SIZE_def REPLAY_TABLE_MASK_def MAX_PACKET_LEN_def
  MAX_TOKEN_DIGITS_def MIN_TOKEN_DIGITS_def

section \<open>The replay table\<close>

record replay_entry =
  re_ip :: ip_addr_t
  last_seq :: u64
  last_seen :: time_t
  re_used :: bool

type_synonym replay_table = "replay_entry list"

datatype auth_errno = ENOSPC

definition zero_ip :: ip_addr_t where
  "zero_ip = \<lparr>family = 0, addr = replicate 16 0\<rparr>"

definition replay_idx :: "ip_addr_t \<Rightarrow> nat" where
  "replay_idx ip = unat (ip_hash32 ip AND of_nat REPLAY_TABLE_MASK)"

fun seen_loop :: "replay_table \<Rightarrow> u64 \<Rightarrow> ip_addr_t \<Rightarrow> nat list \<Rightarrow> int" where
  "seen_loop t seq ip [] = 0"
| "seen_loop t seq ip (i # is) =
     (let pos = (replay_idx ip + i) AND REPLAY_TABLE_MASK in
      if \<not> re_used (t ! pos) then 0
      else if ip_eq (re_ip (t ! pos)) ip then (if seq \<le> last_seq (t ! pos) then -1 else 0)
      else seen_loop t seq ip is)"

definition auth_seen_before :: "replay_table \<Rightarrow> u64 \<Rightarrow> ip_addr_t \<Rightarrow> int" where
  "auth_seen_before t seq ip = seen_loop t seq ip [0..<REPLAY_TABLE_SIZE]"

text \<open>
  The loop of \<open>auth_record_seq\<close> either updates an entry and returns (\<open>Inl\<close>) or ends with a
  value of \<open>first_empty\<close> (\<open>Inr\<close>), which is the table size when no free slot was met.
\<close>

fun record_loop :: "replay_table \<Rightarrow> u64 \<Rightarrow> ip_addr_t \<Rightarrow> time_t \<Rightarrow> nat list \<Rightarrow> replay_table + nat" where
  "record_loop t seq ip clock [] = Inr REPLAY_TABLE_SIZE"
| "record_loop t seq ip clock (i # is) =
     (let pos = (replay_idx ip + i) AND REPLAY_TABLE_MASK in
      if \<not> re_used (t ! pos) then Inr pos
      else if ip_eq (re_ip (t ! pos)) ip
      then Inl (t[pos := (t ! pos)\<lparr>last_seq := seq, last_seen := clock\<rparr>])
      else record_loop t seq ip clock is)"

definition auth_record_seq ::
    "replay_table \<Rightarrow> u64 \<Rightarrow> ip_addr_t \<Rightarrow> time_t \<Rightarrow> auth_errno + replay_table" where
  "auth_record_seq t seq ip clock =
     (case record_loop t seq ip clock [0..<REPLAY_TABLE_SIZE] of
        Inl t' \<Rightarrow> Inr t'
      | Inr first_empty \<Rightarrow>
          if first_empty < REPLAY_TABLE_SIZE
          then Inr (t[first_empty := (t ! first_empty)\<lparr>re_ip := ip, last_seq := seq,
                 last_seen := clock, re_used := True\<rparr>])
          else Inl ENOSPC)"

definition auth_replay_reset :: replay_table where
  "auth_replay_reset =
     replicate REPLAY_TABLE_SIZE \<lparr>re_ip = zero_ip, last_seq = 0, last_seen = 0, re_used = False\<rparr>"

definition auth_replay_prune :: "replay_table \<Rightarrow> time_t \<Rightarrow> time_t \<Rightarrow> replay_table" where
  "auth_replay_prune t now max_age =
     fold (\<lambda>i t. if re_used (t ! i) \<and> now - last_seen (t ! i) > max_age
                 then t[i := (t ! i)\<lparr>re_used := False\<rparr>] else t) [0..<REPLAY_TABLE_SIZE] t"

section \<open>The packet parser\<close>

definition validate_token_len :: "nat \<Rightarrow> nat \<Rightarrow> nat \<Rightarrow> int" where
  "validate_token_len token_len consumed len =
     (if token_len < MIN_TOKEN_DIGITS \<or> token_len > MAX_TOKEN_DIGITS then -1
      else if consumed \<noteq> len then -1 else 0)"

text \<open>The digit loop: \<open>None\<close> is the return on a ninth digit.\<close>

fun parse_digits :: "byte list \<Rightarrow> nat \<Rightarrow> u32 \<Rightarrow> nat \<Rightarrow> (nat \<times> u32 \<times> nat) option" where
  "parse_digits [] i t n = Some (i, t, n)"
| "parse_digits (b # bs) i t n =
     (if 48 \<le> b \<and> b \<le> 57 then
        if MAX_TOKEN_DIGITS \<le> n then None
        else parse_digits bs (i + 1) (t * 10 + ucast (b - 48)) (n + 1)
      else Some (i, t, n))"

text \<open>\<open>None\<close> for \<open>data\<close> is the null pointer; the result is the token stored on return 0.\<close>

definition auth_parse :: "byte list option \<Rightarrow> u32 option" where
  "auth_parse data =
     (case data of
        None \<Rightarrow> None
      | Some d \<Rightarrow>
          if length d = 0 \<or> length d > MAX_PACKET_LEN then None
          else case parse_digits d 0 0 0 of
                 None \<Rightarrow> None
               | Some (i, t, token_len) \<Rightarrow>
                   if validate_token_len token_len i (length d) \<noteq> 0 then None else Some t)"

section \<open>Validation\<close>

text \<open>The counter at which the loop over the drift stops, if any.\<close>

definition matched_counter :: "byte list \<Rightarrow> u32 \<Rightarrow> totp_params \<Rightarrow> u64 option" where
  "matched_counter secret token p =
     window_scan (\<lambda>c. totp_generate secret c (p_digits p) = token) (current_step p)
       [- drift_behind p..drift_ahead p]"

definition auth_validate ::
    "replay_table \<Rightarrow> byte list \<Rightarrow> u32 \<Rightarrow> totp_params \<Rightarrow> time_t \<Rightarrow> int \<times> replay_table" where
  "auth_validate t secret token p clock =
     (case matched_counter secret token p of
        None \<Rightarrow> (-1, t)
      | Some counter \<Rightarrow>
          if auth_seen_before t counter (src_ip p) \<noteq> 0 then (-1, t)
          else case auth_record_seq t counter (src_ip p) clock of
                 Inl _ \<Rightarrow> (-1, t)
               | Inr t' \<Rightarrow> (0, t'))"

section \<open>The table as a map\<close>

abbreviation replay_ok :: "replay_table \<Rightarrow> bool" where
  "replay_ok \<equiv> table_ok re_used re_ip replay_idx 64"

abbreviation replay_lookup :: "replay_table \<Rightarrow> ip_addr_t \<Rightarrow> replay_entry option" where
  "replay_lookup \<equiv> table_lookup re_used re_ip replay_idx 64"

definition mk_replay :: "ip_addr_t \<Rightarrow> u64 \<times> time_t \<Rightarrow> replay_entry" where
  "mk_replay ip v = \<lparr>re_ip = ip, last_seq = fst v, last_seen = snd v, re_used = True\<rparr>"

lemma replay_write_all:
  "e\<lparr>re_ip := ip, last_seq := s, last_seen := c, re_used := True\<rparr> = mk_replay ip (s, c)"
  for e :: replay_entry
  by (cases e) (simp add: mk_replay_def)

lemma replay_idx_less: "replay_idx ip < 64"
  using hash_mask_less by (simp add: replay_idx_def auth_consts)

interpretation replay: probing_map re_used re_ip replay_idx 64 mk_replay
    "\<lambda>e. (last_seq e, last_seen e)"
  by unfold_locales (simp_all add: replay_idx_less mk_replay_def)

interpretation replay_seq: monotone_acceptance
    "\<lambda>t k. map_option (\<lambda>e. (last_seq e, last_seen e)) (replay_lookup t k)"
    "\<lambda>t k v. table_store re_used re_ip replay_idx 64 t (mk_replay k v)"
    replay_ok fst
  ..

text \<open>The hand-written loops are the search of theory \<open>Probe\<close>.\<close>

lemma seen_loop_probe:
  "seen_loop t seq ip is =
     (case probe re_used re_ip t ip (map (\<lambda>i. (replay_idx ip + i) mod 64) is) of
        Hit p \<Rightarrow> if seq \<le> last_seq (t ! p) then -1 else 0 | _ \<Rightarrow> 0)"
  by (induction "is") (auto simp: Let_def auth_consts and_63_mod)

lemma record_loop_probe:
  "record_loop t seq ip clock is =
     (case probe re_used re_ip t ip (map (\<lambda>i. (replay_idx ip + i) mod 64) is) of
        Hit p \<Rightarrow> Inl (t[p := (t ! p)\<lparr>last_seq := seq, last_seen := clock\<rparr>])
      | Free p \<Rightarrow> Inr p | Full \<Rightarrow> Inr 64)"
  by (induction "is") (auto simp: Let_def auth_consts and_63_mod)

lemma auth_seen_before_lookup:
  "auth_seen_before t seq ip =
     (case replay_lookup t ip of Some e \<Rightarrow> if seq \<le> last_seq e then -1 else 0 | None \<Rightarrow> 0)"
  by (simp add: auth_seen_before_def seen_loop_probe table_lookup_def slot_of_def probe_path_def
      auth_consts del: upt_conv_Cons split: slot.splits)

lemma auth_record_seq_store:
  "auth_record_seq t seq ip clock =
     (case table_store re_used re_ip replay_idx 64 t (mk_replay ip (seq, clock)) of
        None \<Rightarrow> Inl ENOSPC | Some t' \<Rightarrow> Inr t')"
proof -
  define s where "s = slot_of re_used re_ip replay_idx 64 t ip"
  have loop: "record_loop t seq ip clock [0..<REPLAY_TABLE_SIZE] =
      (case s of Hit p \<Rightarrow> Inl (t[p := (t ! p)\<lparr>last_seq := seq, last_seen := clock\<rparr>])
       | Free p \<Rightarrow> Inr p | Full \<Rightarrow> Inr 64)"
    unfolding record_loop_probe s_def slot_of_def probe_path_def REPLAY_TABLE_SIZE_def ..
  have "table_store re_used re_ip replay_idx 64 t (mk_replay ip (seq, clock)) =
      (case s of Hit p \<Rightarrow> Some (t[p := mk_replay ip (seq, clock)])
       | Free p \<Rightarrow> Some (t[p := mk_replay ip (seq, clock)]) | Full \<Rightarrow> None)"
    by (simp add: table_store_def s_def replay.mk_key)
  moreover have "(t ! p)\<lparr>last_seq := seq, last_seen := clock\<rparr> = mk_replay ip (seq, clock)" if "s = Hit p" for p
    using replay.slot_Hit [of t ip p] that by (simp add: s_def mk_replay_def)
  moreover have "p < 64" if "s = Free p" for p
    using replay.slot_less [of t ip p] that by (simp add: s_def)
  ultimately show ?thesis
    unfolding auth_record_seq_def loop
    by (auto simp: REPLAY_TABLE_SIZE_def replay_write_all split: slot.split)
qed

section \<open>Anti-replay\<close>

text \<open>A sequence of packets against one table: the accepted counters, in order, and the table.\<close>

fun auth_run :: "byte list \<Rightarrow> replay_table \<Rightarrow> (u32 \<times> totp_params \<times> time_t) list
    \<Rightarrow> (ip_addr_t \<times> u64) list \<times> replay_table" where
  "auth_run secret t [] = ([], t)"
| "auth_run secret t ((token, p, clock) # rs) =
     (let (r, t') = auth_validate t secret token p clock; (acc, t'') = auth_run secret t' rs
      in (if r = 0 then (src_ip p, the (matched_counter secret token p)) # acc else acc, t''))"

lemma auth_validate_accepts:
  assumes "auth_validate t secret token p clock = (0, t')"
  obtains c where "matched_counter secret token p = Some c" and "auth_seen_before t c (src_ip p) = 0"
    and "table_store re_used re_ip replay_idx 64 t (mk_replay (src_ip p) (c, clock)) = Some t'"
  using assms by (auto simp: auth_validate_def auth_record_seq_store split: option.splits if_splits)

lemma auth_validate_rejects:
  "auth_validate t secret token p clock = (r, t') \<Longrightarrow> r \<noteq> 0 \<Longrightarrow> t' = t \<and> r = -1"
  by (auto simp: auth_validate_def split: option.splits sum.splits if_splits)

lemma auth_validate_ok:
  assumes "replay_ok t" and "auth_validate t secret token p clock = (r, t')"
  shows "replay_ok t'"
proof (cases "r = 0")
  case True
  with assms(2) show ?thesis
    using auth_validate_accepts [of t secret token p clock t'] replay.invar_store [OF assms(1)] by blast
next
  case False
  then show ?thesis using auth_validate_rejects [OF assms(2)] assms(1) by simp
qed

lemma auth_validate_counter:
  assumes "replay_ok t" and "matched_counter secret token p = Some c"
  shows "if (case replay_lookup t (src_ip p) of
              Some e \<Rightarrow> last_seq e < c | None \<Rightarrow> \<exists>q < 64. \<not> re_used (t ! q))
     then \<exists>t'. auth_validate t secret token p clock = (0, t') \<and> replay_ok t'
       \<and> replay_lookup t' = (replay_lookup t)(src_ip p \<mapsto> mk_replay (src_ip p) (c, clock))
     else auth_validate t secret token p clock = (-1, t)"
proof (cases "table_store re_used re_ip replay_idx 64 t (mk_replay (src_ip p) (c, clock))")
  case None
  then show ?thesis
    using replay.store_None [OF None] assms(2)
    by (auto simp: auth_validate_def auth_record_seq_store replay.mk_key)
next
  case (Some t')
  have "replay_lookup t (src_ip p) = None \<Longrightarrow> \<exists>q < 64. \<not> re_used (t ! q)"
    using Some replay.slot_less [of t "src_ip p"] replay.slot_Free [of t "src_ip p"]
    by (auto simp: table_store_def table_lookup_def replay.mk_key split: slot.splits)
  then show ?thesis
    using Some assms(2) replay.store_lookup [OF assms(1) replay.mk_used Some] replay.store_ok [OF assms(1) replay.mk_used Some]
    by (auto simp: auth_validate_def auth_record_seq_store auth_seen_before_lookup replay.mk_key split: option.split)
qed

lemma auth_run_accept_all:
  assumes "replay_ok t" and "auth_run secret t rs = (acc, t')"
  shows "\<exists>as. replay_seq.accept_all t as = Some t' \<and> acc = map (\<lambda>(k, v). (k, fst v)) as"
  using assms
proof (induction rs arbitrary: t acc)
  case Nil
  then show ?case by (intro exI [of _ "[]"]) simp
next
  case (Cons q rs)
  obtain token p clock where q: "q = (token, p, clock)" by (cases q)
  obtain r t1 where v: "auth_validate t secret token p clock = (r, t1)" by fastforce
  obtain acc1 where r1: "auth_run secret t1 rs = (acc1, t')"
    and acc: "acc = (if r = 0 then (src_ip p, the (matched_counter secret token p)) # acc1 else acc1)"
    using Cons.prems(2) by (auto simp: q v split: prod.splits)
  obtain as where as: "replay_seq.accept_all t1 as = Some t'" "acc1 = map (\<lambda>(k, v). (k, fst v)) as"
    using Cons.IH [OF auth_validate_ok [OF Cons.prems(1) v] r1] by blast
  show ?case
  proof (cases "r = 0")
    case True
    then obtain c where "matched_counter secret token p = Some c" "auth_seen_before t c (src_ip p) = 0"
      "table_store re_used re_ip replay_idx 64 t (mk_replay (src_ip p) (c, clock)) = Some t1"
      using auth_validate_accepts v by metis
    then have "replay_seq.accept_all t ((src_ip p, c, clock) # as) = Some t'"
      using as(1) by (auto simp: auth_seen_before_lookup split: option.splits if_splits)
    then show ?thesis
      using True acc as(2) \<open>matched_counter secret token p = Some c\<close>
      by (intro exI [of _ "(src_ip p, c, clock) # as"]) simp
  next
    case False
    then show ?thesis using as acc auth_validate_rejects [OF v] by auto
  qed
qed

lemma auth_run_monotone:
  assumes "replay_ok t" and "auth_run secret t rs = (acc, t')"
  shows "sorted_wrt (<) (map snd (filter (\<lambda>a. fst a = ip) acc))"
proof -
  obtain as where "replay_seq.accept_all t as = Some t'" and acc: "acc = map (\<lambda>(k, v). (k, fst v)) as"
    using auth_run_accept_all [OF assms] by blast
  then have "sorted_wrt (<) (map (fst \<circ> snd) (filter (\<lambda>a. fst a = ip) as))"
    using replay_seq.accept_all_monotone [OF assms(1)] by blast
  moreover have "map snd (filter (\<lambda>a. fst a = ip) acc) = map (fst \<circ> snd) (filter (\<lambda>a. fst a = ip) as)"
    unfolding acc by (induction as) auto
  ultimately show ?thesis by simp
qed

lemma replay_reset_ok: "replay_ok auth_replay_reset"
  by (simp add: table_ok_def auth_replay_reset_def auth_consts)

section \<open>Pruning\<close>

definition prune_entry :: "time_t \<Rightarrow> time_t \<Rightarrow> replay_entry \<Rightarrow> replay_entry" where
  "prune_entry now max_age e =
     (if re_used e \<and> now - last_seen e > max_age then e\<lparr>re_used := False\<rparr> else e)"

lemma fold_prune:
  "n \<le> length t \<Longrightarrow>
     fold (\<lambda>i t. if re_used (t ! i) \<and> now - last_seen (t ! i) > max_age
                 then t[i := (t ! i)\<lparr>re_used := False\<rparr>] else t) [0..<n] t
     = map (prune_entry now max_age) (take n t) @ drop n t"
proof (induction n)
  case 0
  then show ?case by simp
next
  case (Suc n)
  then show ?case
    by (auto simp: take_Suc_conv_app_nth nth_append list_update_append prune_entry_def
        simp flip: Cons_nth_drop_Suc)
qed

lemma auth_replay_prune_map:
  "length t = 64 \<Longrightarrow> auth_replay_prune t now max_age = map (prune_entry now max_age) t"
  using fold_prune [of 64 t max_age now] by (simp add: auth_replay_prune_def auth_consts del: upt_conv_Cons)

lemma auth_replay_prune_young:
  assumes "length t = 64" and "\<And>e. e \<in> set t \<Longrightarrow> re_used e \<Longrightarrow> now - last_seen e \<le> max_age"
  shows "auth_replay_prune t now max_age = t"
  using assms(2) unfolding auth_replay_prune_map [OF assms(1)]
  by (intro map_idI) (force simp: prune_entry_def)

text \<open>An entry that expires hides those behind it.\<close>

lemma pruned_away:
  assumes "replay_ok t" and "i < j" and "j < 64" and "e = t ! ((replay_idx ip + j) mod 64)" and "re_used e" and "re_ip e = ip"
    and "max_age < now - last_seen (t ! ((replay_idx ip + i) mod 64))"
  shows "auth_seen_before t (last_seq e) ip = -1" and "auth_seen_before (auth_replay_prune t now max_age) c ip = 0"
    and "now - last_seen e \<le> max_age \<Longrightarrow> e \<in> set (auth_replay_prune t now max_age)"
proof -
  have len: "length t = 64" using assms(1) by (simp add: table_ok_def)
  have q: "(replay_idx ip + m) mod 64 < 64" for m by simp
  have "replay_lookup t ip = Some e"
    unfolding replay.ok_lookup_iff [OF assms(1)] using assms(4-6) q by blast
  then show "auth_seen_before t (last_seq e) ip = -1" by (simp add: auth_seen_before_lookup)
  have pr: "auth_replay_prune t now max_age ! p = prune_entry now max_age (t ! p)" if "p < 64" for p
    using that len by (simp add: auth_replay_prune_map)
  have "replay_lookup (auth_replay_prune t now max_age) ip = None"
  proof (rule replay.search_stopped [OF assms(1-3)])
    show "\<not> re_used (auth_replay_prune t now max_age ! ((replay_idx ip + i) mod 64))"
      unfolding pr [OF q] using assms(7) by (simp add: prune_entry_def)
    show "re_used (t ! p) \<and> re_ip (t ! p) = re_ip (auth_replay_prune t now max_age ! p)" if "p < 64" "re_used (auth_replay_prune t now max_age ! p)" for p
      using that(2) unfolding pr [OF that(1)] by (auto simp: prune_entry_def split: if_splits)
  qed (use assms(4-6) in auto)
  then show "auth_seen_before (auth_replay_prune t now max_age) c ip = 0" by (simp add: auth_seen_before_lookup)
  assume "now - last_seen e \<le> max_age"
  then have "auth_replay_prune t now max_age ! ((replay_idx ip + j) mod 64) = e" unfolding pr [OF q] using assms(4) by (simp add: prune_entry_def)
  then show "e \<in> set (auth_replay_prune t now max_age)" using nth_mem [of "(replay_idx ip + j) mod 64" "auth_replay_prune t now max_age"] len
    by (simp add: auth_replay_prune_map)
qed

section \<open>The token on the wire\<close>

text \<open>The number a string of decimal digits stands for.\<close>

definition decimal :: "byte list \<Rightarrow> nat" where
  "decimal ds = foldl (\<lambda>v b. v * 10 + (unat b - 48)) 0 ds"

definition is_digit :: "byte \<Rightarrow> bool" where
  "is_digit b \<longleftrightarrow> 48 \<le> b \<and> b \<le> 57"

lemma decimal_foldl:
  "foldl (\<lambda>v b. v * 10 + (unat b - 48)) v ds = v * 10 ^ length ds + decimal ds"
proof (induction ds arbitrary: v)
  case Nil
  then show ?case by (simp add: decimal_def)
next
  case (Cons b ds)
  show ?case using Cons [of "v * 10 + (unat b - 48)"] Cons [of "unat b - 48"]
    by (simp add: decimal_def algebra_simps)
qed

lemma decimal_Nil [simp]: "decimal [] = 0"
  by (simp add: decimal_def)

lemma decimal_Cons: "decimal (b # ds) = (unat b - 48) * 10 ^ length ds + decimal ds"
  using decimal_foldl [of "unat b - 48" ds] by (simp add: decimal_def)

lemma decimal_append: "decimal (xs @ ys) = decimal xs * 10 ^ length ys + decimal ys"
  using decimal_foldl [of "decimal xs" ys] by (simp add: decimal_def)

lemma is_digit_unat: "is_digit b \<longleftrightarrow> 48 \<le> unat b \<and> unat b \<le> 57"
  by (simp add: is_digit_def word_le_nat_alt)

lemma decimal_less: "\<forall>b \<in> set ds. is_digit b \<Longrightarrow> decimal ds < 10 ^ length ds"
proof (induction ds)
  case Nil
  then show ?case by simp
next
  case (Cons b ds)
  then have "unat b - 48 \<le> 9" by (auto simp: is_digit_unat)
  then have "(unat b - 48) * 10 ^ length ds \<le> 9 * 10 ^ length ds" by (intro mult_right_mono) auto
  moreover have "decimal ds < 10 ^ length ds" using Cons by simp
  ultimately have "decimal (b # ds) < 10 * 10 ^ length ds" unfolding decimal_Cons by linarith
  then show ?case by simp
qed

text \<open>What the digit loop computes, when it runs to the end of the packet.\<close>

lemma parse_digits_eq:
  "parse_digits ds i t n =
     (let pre = takeWhile is_digit ds in
      if n + length pre \<le> 8 \<or> pre = []
      then Some (i + length pre, t * 10 ^ length pre + of_nat (decimal pre), n + length pre)
      else None)"
proof (induction ds arbitrary: i t n)
  case Nil
  then show ?case by (simp add: Let_def)
next
  case (Cons b ds)
  have "of_nat (decimal (b # xs)) = (ucast (b - 48) * 10 ^ length xs + of_nat (decimal xs) :: u32)"
    if "is_digit b" for xs
  proof -
    have "unat (b - 48) = unat b - 48"
      using that by (simp add: is_digit_def unat_sub)
    moreover have "ucast (b - 48) = (of_nat (unat (b - 48)) :: u32)" by simp
    ultimately show ?thesis
      by (simp add: decimal_Cons)
  qed
  then show ?case
    using Cons [of "i + 1" "t * 10 + ucast (b - 48)" "n + 1"]
    by (auto simp: Let_def is_digit_def MAX_TOKEN_DIGITS_def algebra_simps)
qed

lemma takeWhile_all_iff: "length (takeWhile P xs) = length xs \<longleftrightarrow> (\<forall>x \<in> set xs. P x)"
  by (induction xs) auto

lemma of_nat_decimal:
  assumes "\<forall>b \<in> set ds. is_digit b" and "length ds \<le> 8"
  shows "unat (of_nat (decimal ds) :: u32) = decimal ds"
proof -
  have "decimal ds < 10 ^ length ds" using assms(1) by (rule decimal_less)
  also have "\<dots> \<le> 10 ^ 8" using assms(2) by (intro power_increasing) auto
  finally show ?thesis by (simp add: unat_of_nat)
qed

lemma auth_parse_iff:
  "auth_parse (Some d) = Some t \<longleftrightarrow>
     6 \<le> length d \<and> length d \<le> 8 \<and> (\<forall>b \<in> set d. is_digit b) \<and> unat t = decimal d"
proof (cases "\<forall>b \<in> set d. is_digit b")
  case True
  have tw: "takeWhile is_digit d = d" using True by simp
  have "of_nat (decimal d) = t \<longleftrightarrow> unat t = decimal d" if "length d \<le> 8"
    using of_nat_decimal [OF True that] by (metis word_unat_eq_iff)
  then show ?thesis
    using True by (auto simp: tw auth_parse_def parse_digits_eq validate_token_len_def auth_consts Let_def)
next
  case False
  then have "length (takeWhile is_digit d) \<noteq> length d" by (simp add: takeWhile_all_iff)
  with False show ?thesis
    by (auto simp: auth_parse_def parse_digits_eq validate_token_len_def Let_def split: if_splits)
qed

end
