(* ===== verification/Replay.thy ===== *)
theory Replay
  imports Auth
begin

text \<open>
  The replay table over the life of the daemon: packets are validated, and now and then old
  entries are pruned (\<open>auth_replay_prune(now, 3600)\<close> in \<open>daemon_process\<close>, \<^verbatim>\<open>src/main.c\<close>).

  \<open>replay_step\<close> is that life as a step relation; theory \<open>Replay_Loop\<close> shows that the loop of the
  daemon follows it. Every step reads the wall clock, which may be set back, but by at most
  \<open>max_set_back\<close> below the latest time it has shown. A state logs what was accepted. \<open>replay_inv\<close> is
  the invariant that makes pruning safe when the clients do not share a home slot: whatever is no
  longer in the table is too old to be in a window again.
\<close>

record replay_sys =
  rs_table :: replay_table
  rs_time :: time_t  \<comment> \<open>the latest time shown so far\<close>
  rs_log :: "(ip_addr_t \<times> u64) list"  \<comment> \<open>newest first\<close>

text \<open>The parameters \<open>handle_one_packet\<close> fills in: six digits, steps of 30 seconds, one step of drift.\<close>

definition daemon_params :: "ip_addr_t \<Rightarrow> time_t \<Rightarrow> totp_params" where
  "daemon_params ip clock = \<lparr>src_ip = ip, p_now = clock, p_digits = 6, p_step = 30,
     drift_behind = 1, drift_ahead = 1, out_counter = False\<rparr>"

definition clock_ok :: "time_t \<Rightarrow> bool" where
  "clock_ok s \<longleftrightarrow> 0 \<le> s \<and> s < 2 ^ 63"

text \<open>
  29 minutes: an entry is kept for an hour after it was seen, and the clock may be wrong by this
  much both then and when it is pruned.
\<close>

definition max_set_back :: time_t where
  "max_set_back = 1740"

inductive replay_step :: "byte list \<Rightarrow> ip_addr_t set \<Rightarrow> replay_sys \<Rightarrow> replay_sys \<Rightarrow> bool"
  for secret clients where
  tick: "replay_step secret clients s (s\<lparr>rs_time := max (rs_time s) clock\<rparr>)"
| accept: "replay_step secret clients s
      \<lparr>rs_table = t', rs_time = max (max (rs_time s) arrived) seen, rs_log = (ip, c) # rs_log s\<rparr>"
    if "ip \<in> clients" "rs_time s - max_set_back \<le> arrived" "max (rs_time s) arrived - max_set_back \<le> seen" "clock_ok arrived"
      "auth_validate (rs_table s) secret token (daemon_params ip arrived) seen = (0, t')"
      "matched_counter secret token (daemon_params ip arrived) = Some c"
| prune: "replay_step secret clients s
      (s\<lparr>rs_table := auth_replay_prune (rs_table s) clock 3600, rs_time := max (rs_time s) clock\<rparr>)"

definition replay_start :: replay_sys where
  "replay_start = \<lparr>rs_table = auth_replay_reset, rs_time = 0, rs_log = []\<rparr>"

definition replay_reachable :: "byte list \<Rightarrow> ip_addr_t set \<Rightarrow> replay_sys \<Rightarrow> bool" where
  "replay_reachable secret clients s \<longleftrightarrow> (replay_step secret clients)\<^sup>*\<^sup>* replay_start s"

section \<open>The invariant\<close>

text \<open>Every entry sits in the home slot of a client and was recorded inside the window of its time.\<close>

definition entries_ok :: "ip_addr_t set \<Rightarrow> replay_table \<Rightarrow> bool" where
  "entries_ok clients t \<longleftrightarrow> length t = 64 \<and>
     (\<forall>p < 64. re_used (t ! p) \<longrightarrow>
        replay_idx (re_ip (t ! p)) = p \<and> re_ip (t ! p) \<in> clients
        \<and> uint (last_seq (t ! p)) \<le> (last_seen (t ! p) + max_set_back) div 30 + 1)"

text \<open>A logged counter is in the table, under an entry at least as new, or is past every window.\<close>

definition spent :: "replay_table \<Rightarrow> time_t \<Rightarrow> ip_addr_t \<times> u64 \<Rightarrow> bool" where
  "spent t clock = (\<lambda>(ip, c).
     uint c < (clock - max_set_back) div 30 - 1 \<or> (\<exists>e. replay_lookup t ip = Some e \<and> c \<le> last_seq e))"

definition replay_inv :: "ip_addr_t set \<Rightarrow> replay_sys \<Rightarrow> bool" where
  "replay_inv clients s \<longleftrightarrow> entries_ok clients (rs_table s)
     \<and> (\<forall>a \<in> set (rs_log s). spent (rs_table s) (rs_time s) a)
     \<and> (\<forall>ip. sorted_wrt (>) (map snd (filter (\<lambda>a. fst a = ip) (rs_log s))))"

lemma entries_okD:
  assumes "entries_ok clients t"
  shows "length t = 64" "p < 64 \<Longrightarrow> re_used (t ! p) \<Longrightarrow> replay_idx (re_ip (t ! p)) = p"
    "replay_ok t"
  using assms replay.home_placed_ok [of t] by (auto simp: entries_ok_def)

lemma spent_mono: "spent t clock a \<Longrightarrow> clock \<le> clock' \<Longrightarrow> spent t clock' a"
  using zdiv_mono1 [of "clock - max_set_back" "clock' - max_set_back" 30] by (auto simp: spent_def)

lemma entries_ok_lookup:
  assumes "entries_ok clients t" and "replay_lookup t ip = Some e"
  shows "uint (last_seq e) \<le> (last_seen e + max_set_back) div 30 + 1" "re_used e" "re_ip e = ip"
  using assms replay.ok_lookup_iff [OF entries_okD(3) [OF assms(1)], of ip e]
  by (auto simp: entries_ok_def)

lemma daemon_params_ok: "clock_ok clock \<Longrightarrow> params_ok (daemon_params ip clock)"
  by (simp add: params_ok_def daemon_params_def clock_ok_def)

lemma matched_in_window:
  assumes "matched_counter secret token (daemon_params ip clock) = Some c" and "clock_ok clock"
  shows "clock div 30 - 1 \<le> uint c" "uint c \<le> clock div 30 + 1"
proof -
  define p where "p = daemon_params ip clock"
  have "find (\<lambda>c. totp_generate secret c (p_digits p) = token) (map word_of_int (window p)) = Some c"
    using assms(1) unfolding matched_counter_def window_scan_window [OF daemon_params_ok [OF assms(2)]] p_def .
  from find_map_Some [OF this] obtain x where x: "x \<in> set (window p)" "c = word_of_int x"
    by auto
  then have "0 \<le> x" "x \<le> clock div 30 + 1" "clock div 30 - 1 \<le> x"
    by (auto simp: window_def p_def daemon_params_def)
  moreover have "uint c = x"
    unfolding x(2) uint_word_of_int_eq using calculation assms(2)
    by (intro take_bit_int_eq_self) (auto simp: clock_ok_def)
  ultimately show "clock div 30 - 1 \<le> uint c" "uint c \<le> clock div 30 + 1" by simp_all
qed

lemma accept_write:
  assumes "entries_ok clients t" and "inj_on replay_idx clients" and "ip \<in> clients"
    and "auth_validate t secret token (daemon_params ip arrived) seen = (0, t')"
    and "matched_counter secret token (daemon_params ip arrived) = Some c"
  shows "t' = t[replay_idx ip := mk_replay ip (c, seen)]"
    and "replay_lookup t' = (replay_lookup t)(ip \<mapsto> mk_replay ip (c, seen))"
    and "\<And>e. replay_lookup t ip = Some e \<Longrightarrow> last_seq e < c"
proof -
  have st: "table_store re_used re_ip replay_idx 64 t (mk_replay ip (c, seen)) = Some t'"
    and fresh: "auth_seen_before t c ip = 0"
    using auth_validate_accepts [OF assms(4)] assms(5) by (auto simp: daemon_params_def)
  moreover have "table_store re_used re_ip replay_idx 64 t (mk_replay ip (c, seen))
      = Some (t[replay_idx ip := mk_replay ip (c, seen)])"
    using replay.home_store [of t clients "mk_replay ip (c, seen)"] assms(1-3)
    by (simp add: entries_ok_def replay.mk_key)
  ultimately show "t' = t[replay_idx ip := mk_replay ip (c, seen)]" by simp
  show "replay_lookup t' = (replay_lookup t)(ip \<mapsto> mk_replay ip (c, seen))"
    using replay.store_lookup [OF entries_okD(3) [OF assms(1)] _ st]
    by (simp add: replay.mk_key replay.mk_used)
  show "last_seq e < c" if "replay_lookup t ip = Some e" for e
    using fresh that by (auto simp: auth_seen_before_lookup split: if_splits)
qed

text \<open>An entry old enough to be pruned is past every window of the present.\<close>

lemma prune_spent:
  assumes "entries_ok clients t" and "spent t clock a"
  shows "spent (auth_replay_prune t now 3600) (max clock now) a"
proof -
  obtain ip c where a: "a = (ip, c)" by (cases a)
  have lookup: "replay_lookup (auth_replay_prune t now 3600) ip =
      (case replay_lookup t ip of None \<Rightarrow> None
       | Some e \<Rightarrow> if re_used (prune_entry now 3600 e) then Some e else None)"
    unfolding auth_replay_prune_map [OF entries_okD(1) [OF assms(1)]]
    by (rule replay.drop_entries_lookup) (use entries_okD [OF assms(1)] in \<open>auto simp: prune_entry_def\<close>)
  consider "uint c < (clock - max_set_back) div 30 - 1" | e where "replay_lookup t ip = Some e" "c \<le> last_seq e"
    using assms(2) by (auto simp: spent_def a)
  then show ?thesis
  proof cases
    case 1
    then show ?thesis using zdiv_mono1 [of "clock - max_set_back" "max clock now - max_set_back" 30] by (simp add: spent_def a)
  next
    case (2 e)
    show ?thesis
    proof (cases "now - last_seen e > 3600")
      case True
      then have later: "last_seen e + 3600 \<le> max clock now" by linarith
      have "uint c \<le> (last_seen e + max_set_back) div 30 + 1"
        using entries_ok_lookup(1) [OF assms(1) 2(1)] 2(2) by (simp add: word_le_def)
      also have "\<dots> < (max clock now - max_set_back) div 30 - 1" using later unfolding max_set_back_def by linarith
      finally show ?thesis by (simp add: spent_def a)
    next
      case False
      then show ?thesis
        using 2 entries_ok_lookup(2) [OF assms(1) 2(1)] by (simp add: spent_def a lookup prune_entry_def)
    qed
  qed
qed

lemma prune_entries_ok:
  assumes "entries_ok clients t"
  shows "entries_ok clients (auth_replay_prune t now 3600)"
  using assms unfolding auth_replay_prune_map [OF entries_okD(1) [OF assms(1)]]
  by (fastforce simp: entries_ok_def prune_entry_def)

lemma accept_entries_ok:
  assumes "entries_ok clients t" and "ip \<in> clients" and "uint c \<le> (seen + max_set_back) div 30 + 1"
  shows "entries_ok clients (t[replay_idx ip := mk_replay ip (c, seen)])"
proof -
  have "replay_idx ip < length t" using replay_idx_less entries_okD(1) [OF assms(1)] by simp
  then show ?thesis
    using assms by (simp add: entries_ok_def mk_replay_def nth_list_update)
qed

lemma replay_step_inv:
  assumes "replay_step secret clients s s'" and "inj_on replay_idx clients" and "replay_inv clients s"
  shows "replay_inv clients s'"
  using assms
proof (cases rule: replay_step.cases)
  case (accept ip arrived seen token t' c)
  have ok: "entries_ok clients (rs_table s)"
    and log: "\<And>a. a \<in> set (rs_log s) \<Longrightarrow> spent (rs_table s) (rs_time s) a"
    and desc: "\<And>k. sorted_wrt (>) (map snd (filter (\<lambda>a. fst a = k) (rs_log s)))"
    using assms(3) by (simp_all add: replay_inv_def)
  note w = accept_write [OF ok assms(2) accept(2) accept(6,7)]
  note c = matched_in_window [OF accept(7) accept(5)]
  have le: "(rs_time s - max_set_back) div 30 \<le> arrived div 30" "arrived div 30 \<le> (seen + max_set_back) div 30"
    by (rule zdiv_mono1; use accept(3,4) in linarith)+
  have newer: "c' < c" if "(ip, c') \<in> set (rs_log s)" for c'
    using log [OF that] w(3) c le by (fastforce simp: spent_def word_less_def word_le_def)
  have "entries_ok clients t'"
    unfolding w(1) by (rule accept_entries_ok [OF ok accept(2)]) (use c le in linarith)
  moreover have "spent t' (max (max (rs_time s) arrived) seen) a" if "a \<in> set ((ip, c) # rs_log s)" for a
  proof (cases "fst a = ip")
    case True
    then have "snd a \<le> c" using that newer [of "snd a"] by (cases a) (auto intro: less_imp_le)
    then show ?thesis using True by (cases a) (simp add: spent_def w(2) mk_replay_def)
  next
    case False
    then have "a \<in> set (rs_log s)" using that by auto
    then have "spent (rs_table s) (max (max (rs_time s) arrived) seen) a" using spent_mono [OF log] by simp
    then show ?thesis using False by (cases a) (simp add: spent_def w(2))
  qed
  moreover have "sorted_wrt (>) (map snd (filter (\<lambda>a. fst a = k) ((ip, c) # rs_log s)))" for k
    using desc [of k] newer by auto
  ultimately show ?thesis by (simp add: accept(1) replay_inv_def)
next
  case (tick clock)
  then show ?thesis using assms(3) by (auto simp: replay_inv_def intro: spent_mono)
next
  case (prune clock)
  then show ?thesis using assms(3) by (auto simp: replay_inv_def intro: prune_entries_ok prune_spent)
qed

lemma replay_start_inv: "replay_inv clients replay_start"
  by (simp add: replay_inv_def replay_start_def entries_ok_def auth_replay_reset_def REPLAY_TABLE_SIZE_def)

lemma replay_reachable_inv:
  assumes "inj_on replay_idx clients" and "replay_reachable secret clients s"
  shows "replay_inv clients s"
  using assms(2) unfolding replay_reachable_def
  by (induction rule: rtranclp_induct) (auto intro: replay_start_inv replay_step_inv [OF _ assms(1)])

end
