(* ===== verification/Clib.thy ===== *)
theory Clib
  imports Prelude
begin

text \<open>
  The functions of the C library that the command-line parsers use on strings: searching for a
  character, and reading decimal numbers (\<open>strtol\<close> with base 10, \<open>atol\<close>, the \<open>%d\<close> conversion
  of \<open>sscanf\<close> and the \<open>%06u\<close> conversion of \<open>snprintf\<close>). A \<open>long\<close> has 64 bits.
\<close>

section \<open>Searching\<close>

fun strchr :: "char \<Rightarrow> string \<Rightarrow> nat option" where
  "strchr c [] = None"
| "strchr c (x # xs) = (if x = c then Some 0 else map_option Suc (strchr c xs))"

fun strrchr :: "char \<Rightarrow> string \<Rightarrow> nat option" where
  "strrchr c [] = None"
| "strrchr c (x # xs) =
     (case strrchr c xs of Some i \<Rightarrow> Some (Suc i) | None \<Rightarrow> if x = c then Some 0 else None)"

text \<open>The character at a position, NUL at the end of the string.\<close>

definition char_at :: "string \<Rightarrow> nat \<Rightarrow> char" where
  "char_at s i = (if i < length s then s ! i else CHR 0x00)"

lemma strchr_None: "strchr c s = None \<longleftrightarrow> c \<notin> set s"
  by (induction s) auto

lemma strchr_Some: "strchr c s = Some i \<Longrightarrow> i < length s \<and> s ! i = c \<and> c \<notin> set (take i s)"
  by (induction s arbitrary: i) (auto split: if_splits)

lemma strrchr_None: "strrchr c s = None \<longleftrightarrow> c \<notin> set s"
  by (induction s) (auto split: option.splits)

lemma strrchr_Some: "strrchr c s = Some i \<Longrightarrow> i < length s \<and> s ! i = c \<and> c \<notin> set (drop (Suc i) s)"
  by (induction s arbitrary: i) (auto split: if_splits option.splits simp: strrchr_None)

lemma strchr_append: "c \<notin> set xs \<Longrightarrow> strchr c (xs @ c # ys) = Some (length xs)"
  by (induction xs) auto

lemma strrchr_append: "c \<notin> set ys \<Longrightarrow> strrchr c (xs @ c # ys) = Some (length xs)"
proof (induction xs)
  case Nil
  then have "strrchr c ys = None" by (simp add: strrchr_None)
  then show ?case by simp
qed simp

section \<open>Reading numbers\<close>

definition is_space :: "char \<Rightarrow> bool" where
  "is_space c \<longleftrightarrow> c \<in> {CHR '' '', CHR 0x09, CHR 0x0A, CHR 0x0B, CHR 0x0C, CHR 0x0D}"

definition is_dec :: "char \<Rightarrow> bool" where
  "is_dec c \<longleftrightarrow> 48 \<le> (of_char c :: nat) \<and> (of_char c :: nat) \<le> 57"

definition dec_number :: "string \<Rightarrow> nat" where
  "dec_number ds = foldl (\<lambda>v c. v * 10 + (of_char c - 48)) 0 ds"

definition LONG_MAX :: int where "LONG_MAX = 2 ^ 63 - 1"
definition LONG_MIN :: int where "LONG_MIN = - (2 ^ 63)"

definition clamp_long :: "int \<Rightarrow> int" where
  "clamp_long v = (if v > LONG_MAX then LONG_MAX else if v < LONG_MIN then LONG_MIN else v)"

definition sign_of :: "string \<Rightarrow> int \<times> string" where
  "sign_of s = (if s \<noteq> [] \<and> hd s = CHR ''-'' then (-1, tl s)
     else if s \<noteq> [] \<and> hd s = CHR ''+'' then (1, tl s) else (1, s))"

text \<open>The value, and the rest of the string that \<open>endptr\<close> points to.\<close>

definition strtol :: "string \<Rightarrow> int \<times> string" where
  "strtol s =
     (let (sg, u) = sign_of (dropWhile is_space s); ds = takeWhile is_dec u
      in if ds = [] then (0, s) else (clamp_long (sg * int (dec_number ds)), drop (length ds) u))"

definition atol :: "string \<Rightarrow> int" where
  "atol s = fst (strtol s)"

text \<open>
  \<open>%d\<close>: \<open>None\<close> is a matching failure. A number that does not fit an \<open>int\<close> is reduced to 32 bits, as
  the common implementations do; the standard leaves it undefined.
\<close>

definition scan_d :: "string \<Rightarrow> (int \<times> string) option" where
  "scan_d s =
     (let (sg, u) = sign_of (dropWhile is_space s); ds = takeWhile is_dec u
      in if ds = [] then None
         else Some (sint (word_of_int (clamp_long (sg * int (dec_number ds))) :: u32), drop (length ds) u))"

text \<open>\<open>sscanf(s, "%d/%d", &n, &w)\<close> when both conversions succeed.\<close>

definition sscanf_d_slash_d :: "string \<Rightarrow> (int \<times> int) option" where
  "sscanf_d_slash_d s =
     (case scan_d s of
        None \<Rightarrow> None
      | Some (n, r) \<Rightarrow>
          if r \<noteq> [] \<and> hd r = CHR ''/''
          then (case scan_d (tl r) of None \<Rightarrow> None | Some (w, _) \<Rightarrow> Some (n, w))
          else None)"

section \<open>Printing numbers\<close>

fun dec_string :: "nat \<Rightarrow> string" where
  "dec_string n = (if n < 10 then [char_of (48 + n)] else dec_string (n div 10) @ [char_of (48 + n mod 10)])"

declare dec_string.simps [simp del]

definition fmt_06u :: "u32 \<Rightarrow> string" where
  "fmt_06u v = (let s = dec_string (unat v) in replicate (6 - length s) CHR ''0'' @ s)"

lemma unat_byte_of_char: "unat (byte_of_char c) = of_char c"
proof -
  have "byte_of_char c = of_nat (of_char c)" by (simp only: byte_of_char_def of_nat_of_char)
  then have "unat (byte_of_char c) = of_char c mod 256" by (simp only: unat_of_nat) simp
  then show ?thesis using nat_of_char_less_256 [of c] by simp
qed

lemma of_char_char_of: "n < 256 \<Longrightarrow> of_char (char_of n) = (n :: nat)"
  by (simp add: of_char_of)

lemma dec_string_digits: "c \<in> set (dec_string n) \<Longrightarrow> is_dec c"
proof (induction n rule: dec_string.induct)
  case (1 n)
  then show ?case
    by (subst (asm) dec_string.simps) (auto simp: is_dec_def of_char_of split: if_splits)
qed

lemma dec_number_append: "dec_number (xs @ [c]) = dec_number xs * 10 + (of_char c - 48)"
  by (simp add: dec_number_def)

lemma dec_number_string: "dec_number (dec_string n) = n"
proof (induction n rule: dec_string.induct)
  case (1 n)
  show ?case
  proof (cases "n < 10")
    case True
    then show ?thesis by (subst dec_string.simps) (simp add: dec_number_def of_char_of)
  next
    case False
    then show ?thesis using 1 by (subst dec_string.simps) (simp add: dec_number_append of_char_of)
  qed
qed

lemma length_dec_string: "0 < k \<Longrightarrow> n < 10 ^ k \<Longrightarrow> length (dec_string n) \<le> k"
proof (induction k arbitrary: n)
  case (Suc k)
  show ?case
  proof (cases "n < 10")
    case True
    then show ?thesis by (subst dec_string.simps) simp
  next
    case False
    then have "k \<noteq> 0" using Suc.prems by (cases k) auto
    moreover have "n div 10 < 10 ^ k" using Suc.prems by (simp add: div_less_iff_less_mult mult.commute)
    ultimately show ?thesis using False Suc.IH [of "n div 10"] by (subst dec_string.simps) simp
  qed
qed simp

lemma dec_string_nonempty [simp]: "dec_string n \<noteq> []"
  by (subst dec_string.simps) simp

lemma dec_string_head: "is_dec (hd (dec_string n))"
  using dec_string_digits [of "hd (dec_string n)" n] by simp

text \<open>Reading back a printed number.\<close>

lemma strtol_dec_string:
  assumes "int n \<le> LONG_MAX"
  shows "strtol (dec_string n) = (int n, [])"
proof -
  have d: "\<And>c. is_dec c \<Longrightarrow> \<not> is_space c \<and> c \<noteq> CHR ''-'' \<and> c \<noteq> CHR ''+''"
    by (auto simp: is_dec_def is_space_def)
  obtain c cs where cs: "dec_string n = c # cs" by (cases "dec_string n") auto
  then have c: "is_dec c" using dec_string_head [of n] by simp
  have "dropWhile is_space (dec_string n) = dec_string n" using d [OF c] by (simp add: cs)
  moreover have "sign_of (dec_string n) = (1, dec_string n)" using d [OF c] by (simp add: cs sign_of_def)
  moreover have tw: "takeWhile is_dec (dec_string n) = dec_string n"
    by (simp add: takeWhile_eq_all_conv dec_string_digits)
  ultimately show ?thesis
    using assms by (simp add: strtol_def Let_def tw dec_number_string clamp_long_def LONG_MIN_def)
qed

end
