(* ===== verification/Encode.thy ===== *)
theory Encode
  imports Prelude
begin

text \<open>
  Decoding of the shared secret (\<^verbatim>\<open>src/encode.c\<close>): hexadecimal, base32 and base64, chosen
  by a prefix. The input pointer and its position are the suffix of the string that is still to
  be read; a decoder returns the bytes it has written on return 0 and \<open>None\<close> on return -1, and
  \<open>cap\<close> is the capacity the caller passes in \<open>*out_len\<close>.

  The encoders at the end are those of RFC 4648; the round trips show that the decoders invert
  them.
\<close>

datatype secret_encoding = SECRET_BASE32 | SECRET_HEX | SECRET_BASE64

section \<open>Character lookup\<close>

definition hex_val :: "char \<Rightarrow> int" where
  "hex_val ch =
     (let c = c_char ch in
      if 48 \<le> c \<and> c \<le> 57 then c - 48
      else if 97 \<le> c \<and> c \<le> 102 then c - 97 + 10
      else if 65 \<le> c \<and> c \<le> 70 then c - 65 + 10
      else -1)"

definition b32_val :: "char \<Rightarrow> int" where
  "b32_val ch =
     (let c = c_char ch;
          c = (if 97 \<le> c \<and> c \<le> 122 then c - 32 else c)
      in if 65 \<le> c \<and> c \<le> 90 then c - 65
         else if 50 \<le> c \<and> c \<le> 55 then c - 50 + 26
         else if c = 61 then -2
         else -1)"

definition b64_val :: "char \<Rightarrow> int" where
  "b64_val ch =
     (let c = c_char ch in
      if 65 \<le> c \<and> c \<le> 90 then c - 65
      else if 97 \<le> c \<and> c \<le> 122 then c - 97 + 26
      else if 48 \<le> c \<and> c \<le> 57 then c - 48 + 52
      else if c = 43 then 62
      else if c = 47 then 63
      else if c = 61 then -2
      else -1)"

section \<open>Hexadecimal\<close>

fun hex_loop :: "nat \<Rightarrow> string \<Rightarrow> byte list \<Rightarrow> byte list option" where
  "hex_loop cap (a # b # rest) out =
     (let hi = hex_val a; lo = hex_val b in
      if hi < 0 \<or> lo < 0 then None
      else if cap \<le> length out then None
      else hex_loop cap rest (out @ [word_of_int (push_bit 4 hi OR lo)]))"
| "hex_loop cap [a] out =
     (let hi = hex_val a in
      if hi < 0 then None
      else if cap \<le> length out then None
      else Some (out @ [word_of_int (push_bit 4 hi)]))"
| "hex_loop cap [] out = Some out"

definition hex_decode :: "nat \<Rightarrow> string \<Rightarrow> byte list option" where
  "hex_decode cap inp = (if length inp = 0 then Some [] else hex_loop cap inp [])"

section \<open>Base32\<close>

definition b32_tab :: "nat list" where
  "b32_tab = [0, 0, 1, 0, 2, 3, 0, 4, 5]"

record b32_group =
  g32_vals :: "int list"
  g32_m :: nat
  g32_n :: nat

definition b32_fill_rest :: "int list \<Rightarrow> nat \<Rightarrow> int list" where
  "b32_fill_rest vals start = fold (\<lambda>j v. v[j := 0]) [start..<8] vals"

fun pad_loop :: "string \<Rightarrow> int list \<Rightarrow> nat list \<Rightarrow> (string \<times> int list) option" where
  "pad_loop rest vals [] = Some (rest, vals)"
| "pad_loop rest vals (j # js) =
     (if rest \<noteq> [] \<and> hd rest \<noteq> CHR ''='' then None
      else pad_loop (tl rest) (vals[j := 0]) js)"

definition b32_skip_padding :: "string \<Rightarrow> int list \<Rightarrow> nat \<Rightarrow> (string \<times> int list) option" where
  "b32_skip_padding rest vals start = pad_loop rest vals [start..<8]"

fun b32_group_loop :: "string \<Rightarrow> int list \<Rightarrow> nat list \<Rightarrow> (string \<times> b32_group) option" where
  "b32_group_loop rest vals [] = Some (rest, \<lparr>g32_vals = vals, g32_m = 8, g32_n = 5\<rparr>)"
| "b32_group_loop [] vals (j # js) =
     (let n = b32_tab ! j in
      if n = 0 then None
      else Some ([], \<lparr>g32_vals = b32_fill_rest vals j, g32_m = j, g32_n = n\<rparr>))"
| "b32_group_loop (c # rest) vals (j # js) =
     (let v = b32_val c in
      if v = -2 then
        let n = b32_tab ! j in
        if n = 0 then None
        else case b32_skip_padding (c # rest) vals j of
               None \<Rightarrow> None
             | Some (rest', vals') \<Rightarrow> Some (rest', \<lparr>g32_vals = vals', g32_m = j, g32_n = n\<rparr>)
      else if v < 0 then None
      else b32_group_loop rest (vals[j := v]) js)"

text \<open>The group on the stack is not initialised; every slot is written before it is read.\<close>

definition b32_read_group :: "string \<Rightarrow> (string \<times> b32_group) option" where
  "b32_read_group rest = b32_group_loop rest (replicate 8 0) [0..<8]"

text \<open>The block that turns one group into bytes; \<open>None\<close> when its unused low bits are not zero.\<close>

definition b32_emit :: "b32_group \<Rightarrow> byte list option" where
  "b32_emit g =
     (let bits = fold (\<lambda>j bits. push_bit 5 bits OR word_of_int (g32_vals g ! j AND 0x1f)) [0..<8] (0 :: u64) in
      if g32_m g < 8 \<and>
         (let leftover = g32_m g * 5 - g32_n g * 8
          in g32_vals g ! (g32_m g - 1) AND (push_bit leftover 1 - 1) \<noteq> 0)
      then None
      else Some (map (\<lambda>j. ucast (drop_bit (32 - j * 8) bits)) [0..<g32_n g]))"

lemma length_pad_loop: "pad_loop rest vals js = Some (rest', vals') \<Longrightarrow> length rest' \<le> length rest"
  by (induction js arbitrary: rest vals) (fastforce split: if_splits)+

lemma length_b32_group_loop:
  "b32_group_loop rest vals js = Some (rest', g) \<Longrightarrow> length rest' \<le> length rest"
  by (induction rest vals js rule: b32_group_loop.induct)
    (auto simp: Let_def b32_skip_padding_def split: if_splits option.splits dest: length_pad_loop)

lemma b32_read_group_consumes:
  assumes "b32_read_group rest = Some (rest', g)" and "rest \<noteq> []"
  shows "length rest' < length rest"
proof -
  obtain c cs where rest: "rest = c # cs" using assms(2) by (cases rest) auto
  have "[0..<8] = 0 # [Suc 0..<8]" by (simp add: upt_conv_Cons)
  then have "b32_group_loop cs ((replicate 8 0)[0 := b32_val c]) [Suc 0..<8] = Some (rest', g)"
    using assms(1) by (simp add: b32_read_group_def rest b32_tab_def Let_def split: if_splits)
  then show ?thesis using length_b32_group_loop by (fastforce simp: rest)
qed

function base32_loop :: "nat \<Rightarrow> string \<Rightarrow> byte list \<Rightarrow> byte list option" where
  "base32_loop cap rest out =
     (if rest = [] then Some out
      else case b32_read_group rest of
             None \<Rightarrow> None
           | Some (rest', g) \<Rightarrow>
               if length out + g32_n g > cap then None
               else case b32_emit g of
                      None \<Rightarrow> None
                    | Some bs \<Rightarrow> base32_loop cap rest' (out @ bs))"
  by pat_completeness auto
termination
  by (relation "measure (\<lambda>(cap, rest, out). length rest)") (auto dest: b32_read_group_consumes)

declare base32_loop.simps [simp del]

definition base32_decode :: "nat \<Rightarrow> string \<Rightarrow> byte list option" where
  "base32_decode cap inp = (if length inp = 0 then Some [] else base32_loop cap inp [])"

section \<open>Base64\<close>

definition B64_GROUP :: "nat \<Rightarrow> nat" where
  "B64_GROUP n = n * 3 div 4"

record b64_group =
  g64_vals :: "int list"
  g64_n :: nat

definition b64_fill_rest :: "int list \<Rightarrow> nat \<Rightarrow> int list" where
  "b64_fill_rest vals start = fold (\<lambda>j v. v[j := 0]) [start..<4] vals"

definition b64_skip_padding :: "string \<Rightarrow> int list \<Rightarrow> nat \<Rightarrow> (string \<times> int list) option" where
  "b64_skip_padding rest vals start = pad_loop rest vals [start..<4]"

fun b64_group_loop :: "string \<Rightarrow> int list \<Rightarrow> nat list \<Rightarrow> (string \<times> b64_group) option" where
  "b64_group_loop rest vals [] = Some (rest, \<lparr>g64_vals = vals, g64_n = 3\<rparr>)"
| "b64_group_loop [] vals (j # js) =
     (let n = B64_GROUP j in
      if n = 0 then None
      else Some ([], \<lparr>g64_vals = b64_fill_rest vals j, g64_n = n\<rparr>))"
| "b64_group_loop (c # rest) vals (j # js) =
     (let v = b64_val c in
      if v = -2 then
        let n = B64_GROUP j in
        if n = 0 then None
        else case b64_skip_padding (c # rest) vals j of
               None \<Rightarrow> None
             | Some (rest', vals') \<Rightarrow> Some (rest', \<lparr>g64_vals = vals', g64_n = n\<rparr>)
      else if v < 0 then None
      else b64_group_loop rest (vals[j := v]) js)"

definition b64_read_group :: "string \<Rightarrow> (string \<times> b64_group) option" where
  "b64_read_group rest = b64_group_loop rest (replicate 4 0) [0..<4]"

definition b64_emit :: "b64_group \<Rightarrow> byte list" where
  "b64_emit g =
     (let bits = fold (\<lambda>j bits. push_bit 6 bits OR word_of_int (g64_vals g ! j AND 0x3f)) [0..<4] (0 :: u64)
      in map (\<lambda>j. ucast (drop_bit (16 - j * 8) bits)) [0..<g64_n g])"

lemma length_b64_group_loop:
  "b64_group_loop rest vals js = Some (rest', g) \<Longrightarrow> length rest' \<le> length rest"
  by (induction rest vals js rule: b64_group_loop.induct)
    (auto simp: Let_def b64_skip_padding_def split: if_splits option.splits dest: length_pad_loop)

lemma b64_read_group_consumes:
  assumes "b64_read_group rest = Some (rest', g)" and "rest \<noteq> []"
  shows "length rest' < length rest"
proof -
  obtain c cs where rest: "rest = c # cs" using assms(2) by (cases rest) auto
  have "[0..<4] = 0 # [Suc 0..<4]" by (simp add: upt_conv_Cons)
  then have "b64_group_loop cs ((replicate 4 0)[0 := b64_val c]) [Suc 0..<4] = Some (rest', g)"
    using assms(1) by (simp add: b64_read_group_def rest B64_GROUP_def Let_def split: if_splits)
  then show ?thesis using length_b64_group_loop by (fastforce simp: rest)
qed

function base64_loop :: "nat \<Rightarrow> string \<Rightarrow> byte list \<Rightarrow> byte list option" where
  "base64_loop cap rest out =
     (if rest = [] then Some out
      else case b64_read_group rest of
             None \<Rightarrow> None
           | Some (rest', g) \<Rightarrow>
               if length out + g64_n g > cap then None
               else base64_loop cap rest' (out @ b64_emit g))"
  by pat_completeness auto
termination
  by (relation "measure (\<lambda>(cap, rest, out). length rest)") (auto dest: b64_read_group_consumes)

declare base64_loop.simps [simp del]

definition base64_decode :: "nat \<Rightarrow> string \<Rightarrow> byte list option" where
  "base64_decode cap inp = (if length inp = 0 then Some [] else base64_loop cap inp [])"

section \<open>Prefix dispatch\<close>

definition try_hex :: "nat \<Rightarrow> string \<Rightarrow> byte list option" where
  "try_hex cap inp =
     (if length inp < 4 \<or> inp ! 0 \<noteq> CHR ''h'' \<or> inp ! 1 \<noteq> CHR ''e'' \<or> inp ! 2 \<noteq> CHR ''x''
         \<or> inp ! 3 \<noteq> CHR '':'' then None
      else hex_decode cap (drop 4 inp))"

definition try_base64 :: "nat \<Rightarrow> string \<Rightarrow> byte list option" where
  "try_base64 cap inp =
     (if length inp < 4 \<or> inp ! 0 \<noteq> CHR ''b'' \<or> inp ! 1 \<noteq> CHR ''6'' \<or> inp ! 2 \<noteq> CHR ''4''
         \<or> inp ! 3 \<noteq> CHR '':'' then None
      else base64_decode cap (drop 4 inp))"

definition try_base32 :: "nat \<Rightarrow> string \<Rightarrow> byte list option" where
  "try_base32 cap inp = base32_decode cap inp"

text \<open>\<open>None\<close> for \<open>inp\<close> is the null pointer.\<close>

definition secret_decode :: "string option \<Rightarrow> nat \<Rightarrow> (byte list \<times> secret_encoding) option" where
  "secret_decode inp cap =
     (case inp of
        None \<Rightarrow> None
      | Some s \<Rightarrow>
          if length s = 0 then Some ([], SECRET_BASE32)
          else case try_hex cap s of
                 Some out \<Rightarrow> Some (out, SECRET_HEX)
               | None \<Rightarrow>
                   (case try_base64 cap s of
                      Some out \<Rightarrow> Some (out, SECRET_BASE64)
                    | None \<Rightarrow> map_option (\<lambda>out. (out, SECRET_BASE32)) (try_base32 cap s)))"

section \<open>Capacity\<close>

lemma hex_loop_cap: "hex_loop cap inp out = Some r \<Longrightarrow> length out \<le> cap \<Longrightarrow> length r \<le> cap"
  by (induction cap inp out rule: hex_loop.induct) (auto simp: Let_def split: if_splits)

lemma b32_emit_length: "b32_emit g = Some bs \<Longrightarrow> length bs = g32_n g"
  by (auto simp: b32_emit_def Let_def split: if_splits)

lemma base32_loop_cap: "base32_loop cap rest out = Some r \<Longrightarrow> length out \<le> cap \<Longrightarrow> length r \<le> cap"
proof (induction cap rest out rule: base32_loop.induct)
  case (1 cap rest out)
  then show ?case
    by (auto simp: base32_loop.simps [of cap rest out] split: if_splits option.splits)
      (use b32_emit_length in fastforce)
qed

lemma base64_loop_cap: "base64_loop cap rest out = Some r \<Longrightarrow> length out \<le> cap \<Longrightarrow> length r \<le> cap"
proof (induction cap rest out rule: base64_loop.induct)
  case (1 cap rest out)
  then show ?case
    by (auto simp: base64_loop.simps [of cap rest out] b64_emit_def Let_def split: if_splits option.splits)
qed

lemma secret_decode_cap:
  assumes "secret_decode inp cap = Some (out, enc)"
  shows "length out \<le> cap"
  using assms
  by (auto simp: secret_decode_def try_hex_def try_base64_def try_base32_def hex_decode_def
      base64_decode_def base32_decode_def split: option.splits if_splits
      dest: hex_loop_cap base64_loop_cap base32_loop_cap)

section \<open>The encoders of RFC 4648\<close>

definition hex_digit :: "nat \<Rightarrow> char" where
  "hex_digit v = ''0123456789abcdef'' ! v"

definition hex_encode :: "byte list \<Rightarrow> string" where
  "hex_encode bs = concat (map (\<lambda>b. [hex_digit (unat b div 16), hex_digit (unat b mod 16)]) bs)"

definition b32_char :: "nat \<Rightarrow> char" where
  "b32_char v = ''ABCDEFGHIJKLMNOPQRSTUVWXYZ234567'' ! v"

definition b64_char :: "nat \<Rightarrow> char" where
  "b64_char v = ''ABCDEFGHIJKLMNOPQRSTUVWXYZabcdefghijklmnopqrstuvwxyz0123456789+/'' ! v"

text \<open>The bytes of a group as one number, most significant first, filled up with zero bytes.\<close>

definition group_bits :: "nat \<Rightarrow> byte list \<Rightarrow> u64" where
  "group_bits n g = foldl (\<lambda>a b. push_bit 8 a OR ucast b) 0 (g @ replicate (n - length g) 0)"

definition quantum :: "nat \<Rightarrow> nat \<Rightarrow> u64 \<Rightarrow> nat \<Rightarrow> nat" where
  "quantum w n N i = unat (take_bit w (drop_bit (w * (n - 1 - i)) N))"

definition b32_encode_group :: "byte list \<Rightarrow> string" where
  "b32_encode_group g = (let m = (8 * length g + 4) div 5 in
     map (\<lambda>i. b32_char (quantum 5 8 (group_bits 5 g) i)) [0..<m] @ replicate (8 - m) CHR ''='')"

definition b64_encode_group :: "byte list \<Rightarrow> string" where
  "b64_encode_group g = (let m = (8 * length g + 5) div 6 in
     map (\<lambda>i. b64_char (quantum 6 4 (group_bits 3 g) i)) [0..<m] @ replicate (4 - m) CHR ''='')"

fun base32_encode :: "byte list \<Rightarrow> string" where
  "base32_encode bs = (if bs = [] then [] else b32_encode_group (take 5 bs) @ base32_encode (drop 5 bs))"

fun base64_encode :: "byte list \<Rightarrow> string" where
  "base64_encode bs = (if bs = [] then [] else b64_encode_group (take 3 bs) @ base64_encode (drop 3 bs))"

declare base32_encode.simps [simp del] base64_encode.simps [simp del]

section \<open>Round trips\<close>

lemma less_numeral_cases:
  "n < (16::nat) \<Longrightarrow> n \<in> set [0..<16]" "n < (32::nat) \<Longrightarrow> n \<in> set [0..<32]" "n < (64::nat) \<Longrightarrow> n \<in> set [0..<64]"
  by simp_all

lemma hex_val_digit: "v < 16 \<Longrightarrow> hex_val (hex_digit v) = int v"
proof -
  have "\<forall>v \<in> set [0..<16]. hex_val (hex_digit v) = int v"
    by code_simp
  then show "v < 16 \<Longrightarrow> hex_val (hex_digit v) = int v" by simp
qed

lemma b32_val_char: "v < 32 \<Longrightarrow> b32_val (b32_char v) = int v"
proof -
  have "\<forall>v \<in> set [0..<32]. b32_val (b32_char v) = int v"
    by code_simp
  then show "v < 32 \<Longrightarrow> b32_val (b32_char v) = int v" by (simp del: upt_conv_Cons)
qed

lemma b64_val_char: "v < 64 \<Longrightarrow> b64_val (b64_char v) = int v"
proof -
  have "\<forall>v \<in> set [0..<64]. b64_val (b64_char v) = int v"
    by code_simp
  then show "v < 64 \<Longrightarrow> b64_val (b64_char v) = int v" by (simp del: upt_conv_Cons)
qed

lemma hex_loop_encode:
  "length out + length bs \<le> cap \<Longrightarrow> hex_loop cap (hex_encode bs) out = Some (out @ bs)"
proof (induction bs arbitrary: out)
  case Nil
  then show ?case by (simp add: hex_encode_def)
next
  case (Cons b bs)
  have b: "unat b < 256" using unsigned_less [of b, where 'a = nat] by simp
  have "push_bit 4 (int (unat b div 16)) OR int (unat b mod 16) = int (unat b)"
  proof -
    have "push_bit 4 (int (unat b div 16)) OR int (unat b mod 16)
        = push_bit 4 (drop_bit 4 (uint b)) OR take_bit 4 (uint b)"
      by (simp add: drop_bit_eq_div take_bit_eq_mod zdiv_int zmod_int)
    also have "\<dots> = uint b" by (rule bit_eqI) (auto simp: bit_simps)
    finally show ?thesis by simp
  qed
  then have v: "word_of_int (push_bit 4 (int (unat b div 16)) OR int (unat b mod 16)) = b"
    by simp
  have "unat b div 16 < 16" using b by auto
  then show ?case
    using Cons.IH [of "out @ [b]"] Cons.prems
    by (simp add: hex_encode_def hex_val_digit Let_def v)
qed

lemma hex_decode_encode: "length bs \<le> cap \<Longrightarrow> hex_decode cap (hex_encode bs) = Some bs"
  using hex_loop_encode [of "[]" bs cap] by (cases bs) (auto simp: hex_decode_def hex_encode_def)

text \<open>Shifting in the quanta of a number one after the other rebuilds it.\<close>

lemma quanta_fold:
  assumes "k \<le> n" and "w * n \<le> 64"
  shows "fold (\<lambda>j bits. push_bit w bits OR take_bit w (drop_bit (w * (n - 1 - j)) N)) [0..<k] (0 :: u64)
    = take_bit (w * k) (drop_bit (w * (n - k)) N)"
  using assms(1)
proof (induction k)
  case 0
  then show ?case by simp
next
  case (Suc k)
  then have e: "w * (n - k) = w * (n - 1 - k) + w"
    by (metis Suc_diff_Suc Suc_le_lessD add.commute diff_Suc_eq_diff_pred mult_Suc_right)
  have "push_bit w (take_bit (w * k) (drop_bit (w * (n - k)) N)) OR take_bit w (drop_bit (w * (n - 1 - k)) N)
      = take_bit (w * Suc k) (drop_bit (w * (n - 1 - k)) N)"
    unfolding e by (rule bit_word_eqI) (auto simp: bit_simps add.assoc)
  with Suc show ?case by simp
qed

lemma quantum_less: "quantum w n N i < 2 ^ w"
  by (simp add: quantum_def unsigned_take_bit_eq take_bit_nat_less_exp)

lemma quantum_word: "w \<le> 64 \<Longrightarrow> word_of_int (int (quantum w n N i) AND mask w) = take_bit w (drop_bit (w * (n - 1 - i)) N)"
  unfolding take_bit_eq_mask [symmetric] quantum_def
  by (rule bit_word_eqI) (auto simp: bit_simps)

lemma quantum_zero:
  assumes "\<And>k. k < t \<Longrightarrow> \<not> bit N k" and "w * (n - 1 - i) + w \<le> t"
  shows "quantum w n N i = 0"
proof -
  have "take_bit w (drop_bit (w * (n - 1 - i)) N) = 0"
    by (rule bit_word_eqI) (use assms in \<open>auto simp: bit_simps\<close>)
  then show ?thesis by (simp add: quantum_def)
qed

lemma pad_loop_padding:
  "m + k \<le> length vals \<Longrightarrow>
     pad_loop (replicate k CHR ''='' @ rest) vals [m..<m + k] = Some (rest, poke m (replicate k 0) vals)"
proof (induction k arbitrary: m vals)
  case 0
  then show ?case by (simp add: poke_simps)
next
  case (Suc k)
  have "[m..<m + Suc k] = m # [Suc m..<Suc m + k]" by (simp add: upt_conv_Cons)
  then show ?case
    using Suc.IH [of "Suc m" "vals[m := 0]"] Suc.prems by (simp add: poke_Cons)
qed

lemma b32_group_loop_chars:
  assumes "\<forall>q \<in> set qs. q < 32" and "j + length qs \<le> 8" and "length vals = 8"
  shows "b32_group_loop (map b32_char qs @ rest) vals [j..<8]
    = b32_group_loop rest (poke j (map int qs) vals) [j + length qs..<8]"
  using assms
proof (induction qs arbitrary: j vals)
  case Nil
  then show ?case by (simp add: poke_simps)
next
  case (Cons q qs)
  then have "[j..<8] = j # [Suc j..<8]" by (simp add: upt_conv_Cons)
  then show ?case
    using Cons.IH [of "Suc j" "vals[j := int q]"] Cons.prems
    by (simp add: b32_val_char Let_def poke_Cons)
qed

lemma poke_tail: "length xs + length ys = length a \<Longrightarrow> poke (length xs) ys (poke 0 xs a) = xs @ ys"
  by (simp add: poke_def)

lemma b32_read_encode:
  assumes "g \<noteq> []" and "length g \<le> 5"
  defines "m \<equiv> (8 * length g + 4) div 5"
  shows "b32_read_group (b32_encode_group g @ rest) = Some (rest,
    \<lparr>g32_vals = map (\<lambda>i. int (quantum 5 8 (group_bits 5 g) i)) [0..<m] @ replicate (8 - m) 0,
     g32_m = m, g32_n = length g\<rparr>)"
proof -
  define qs where "qs = map (quantum 5 8 (group_bits 5 g)) [0..<m]"
  define vals where "vals = poke 0 (map int qs) (replicate 8 0)"
  have m: "m \<le> 8" and qs: "length qs = m" using assms(2) by (simp_all add: m_def qs_def)
  have "b32_read_group (b32_encode_group g @ rest)
      = b32_group_loop (replicate (8 - m) CHR ''='' @ rest) vals [m..<8]"
    using b32_group_loop_chars [of qs 0 "replicate 8 0" "replicate (8 - m) CHR ''='' @ rest"] m
      quantum_less [of 5 8]
    by (simp add: b32_read_group_def b32_encode_group_def qs_def vals_def comp_def Let_def flip: m_def)
  also have "\<dots> = Some (rest, \<lparr>g32_vals = map int qs @ replicate (8 - m) 0, g32_m = m, g32_n = length g\<rparr>)"
  proof (cases "m = 8")
    case True
    moreover have "length g = 5" using True assms(2) by (simp add: m_def)
    ultimately show ?thesis using qs by (simp add: vals_def poke_simps)
  next
    case False
    have tab: "b32_tab ! m = length g" "length g \<noteq> 0"
    proof -
      have "length g \<noteq> 5" "length g \<noteq> 0" using False assms(1) by (auto simp: m_def)
      then have "length g = 1 \<or> length g = 2 \<or> length g = 3 \<or> length g = 4" using assms(2) by arith
      then show "b32_tab ! m = length g" "length g \<noteq> 0" by (auto simp: m_def b32_tab_def)
    qed
    obtain k where k: "8 - m = Suc k" using False m by (metis Suc_diff_Suc le_neq_implies_less)
    have "[m..<8] = m # [Suc m..<8]" using False m by (simp add: upt_conv_Cons)
    moreover have "b32_skip_padding (replicate (8 - m) CHR ''='' @ rest) vals m
        = Some (rest, map int qs @ replicate (8 - m) 0)"
      using pad_loop_padding [of m "8 - m" vals rest] m qs poke_tail [of "map int qs" "replicate (8 - m) 0" "replicate 8 0"]
      by (simp add: b32_skip_padding_def vals_def)
    moreover have "b32_val CHR ''='' = -2" by code_simp
    ultimately show ?thesis using tab k by (simp add: Let_def)
  qed
  finally show ?thesis by (simp add: qs_def comp_def)
qed

lemma foldl_byte:
  "j < length bs \<Longrightarrow> 8 * length bs \<le> 64 \<Longrightarrow>
     ucast (drop_bit (8 * (length bs - 1 - j)) (foldl (\<lambda>a b. push_bit 8 a OR ucast b) (0 :: u64) bs)) = bs ! j"
  for bs :: "byte list"
proof (induction bs rule: rev_induct)
  case Nil
  then show ?case by simp
next
  case (snoc b bs)
  define N where "N = foldl (\<lambda>a b. push_bit 8 a OR ucast b) (0 :: u64) bs"
  show ?case
  proof (cases "j < length bs")
    case True
    then have e: "8 * (length bs - j) = 8 * (length bs - 1 - j) + 8" by arith
    have "ucast (drop_bit (8 * (length bs - j)) (push_bit 8 N OR ucast b))
        = (ucast (drop_bit (8 * (length bs - 1 - j)) N) :: byte)"
    proof -
      have "\<not> bit b (x + 8 + y)" for x y
        using bit_imp_le_length [of b "x + 8 + y"] by auto
      then show ?thesis
        unfolding e by (intro bit_word_eqI) (use snoc.prems True in \<open>auto simp: bit_simps\<close>)
    qed
    then show ?thesis using snoc True by (simp add: N_def nth_append)
  next
    case False
    then have "j = length bs" using snoc.prems by simp
    moreover have "ucast (push_bit 8 N OR ucast b) = b"
      by (rule bit_word_eqI) (auto simp: bit_simps)
    ultimately show ?thesis by (simp add: N_def)
  qed
qed

lemma group_bits_byte:
  assumes "length g \<le> n" and "8 * n \<le> 64" and "j < length g"
  shows "ucast (drop_bit (8 * (n - 1 - j)) (take_bit (8 * n) (group_bits n g))) = g ! j"
proof -
  have "ucast (drop_bit (8 * (n - 1 - j)) (take_bit (8 * n) N)) = (ucast (drop_bit (8 * (n - 1 - j)) N) :: byte)"
    for N :: u64 by (rule bit_word_eqI) (use assms in \<open>auto simp: bit_simps\<close>)
  then show ?thesis
    using foldl_byte [of j "g @ replicate (n - length g) 0"] assms by (simp add: group_bits_def nth_append)
qed

lemma group_bits_zero:
  assumes "k < 8 * (n - length g)"
  shows "\<not> bit (group_bits n g) k"
proof -
  have "foldl (\<lambda>a b. push_bit 8 a OR ucast b) N (replicate z (0::byte)) = push_bit (8 * z) (N :: u64)" for N z
    by (induction z arbitrary: N) (simp_all add: ac_simps)
  then show ?thesis using assms by (simp add: group_bits_def bit_simps)
qed

lemma b32_emit_encode:
  assumes "g \<noteq> []" and "length g \<le> 5"
  defines "m \<equiv> (8 * length g + 4) div 5"
  shows "b32_emit \<lparr>g32_vals = map (\<lambda>i. int (quantum 5 8 (group_bits 5 g) i)) [0..<m] @ replicate (8 - m) 0,
     g32_m = m, g32_n = length g\<rparr> = Some g"
proof -
  define N where "N = group_bits 5 g"
  have len: "length g = 1 \<or> length g = 2 \<or> length g = 3 \<or> length g = 4 \<or> length g = 5"
  proof -
    have "length g \<noteq> 0" using assms(1) by simp
    then show ?thesis using assms(2) by arith
  qed
  then have m: "m \<le> 8" "8 * length g \<le> 5 * m" "5 * m \<le> 8 * length g + 4" "0 < m" by (auto simp: m_def)
  have low: "\<not> bit N k" if "k < 8 * (5 - length g)" for k
    unfolding N_def using that by (rule group_bits_zero)
  have z: "quantum 5 8 N i = 0" if "m \<le> i" "i < 8" for i
  proof (rule quantum_zero [OF low])
    have "5 * (8 - 1 - i) + 5 = 40 - 5 * i" using that by simp
    also have "\<dots> \<le> 40 - 8 * length g" using m that by linarith
    finally show "5 * (8 - 1 - i) + 5 \<le> 8 * (5 - length g)" by simp
  qed
  have vals: "map (\<lambda>i. int (quantum 5 8 N i)) [0..<m] @ replicate (8 - m) 0 = map (\<lambda>i. int (quantum 5 8 N i)) [0..<8]"
    by (rule nth_equalityI) (use m z in \<open>auto simp: nth_append\<close>)
  have mask: "(0x1f :: int) = mask 5" by (simp add: mask_eq_exp_minus_1)
  have bits: "fold (\<lambda>j bits. push_bit 5 bits OR word_of_int (map (\<lambda>i. int (quantum 5 8 N i)) [0..<8] ! j AND 0x1f))
      [0..<8] (0 :: u64) = take_bit 40 N"
  proof -
    have "fold (\<lambda>j bits. push_bit 5 bits OR word_of_int (map (\<lambda>i. int (quantum 5 8 N i)) [0..<8] ! j AND 0x1f))
        [0..<8] (0 :: u64)
      = fold (\<lambda>j bits. push_bit 5 bits OR take_bit 5 (drop_bit (5 * (8 - 1 - j)) N)) [0..<8] 0"
      by (rule fold_cong) (simp_all del: upt_conv_Cons add: mask quantum_word)
    then show ?thesis using quanta_fold [of 8 8 5 N] by (simp del: upt_conv_Cons)
  qed
  have left: "int (quantum 5 8 N (m - 1)) AND (push_bit (m * 5 - length g * 8) 1 - 1) = 0"
  proof -
    have "int (quantum 5 8 N (m - 1)) AND (push_bit (m * 5 - length g * 8) 1 - 1)
        = take_bit (m * 5 - length g * 8) (int (quantum 5 8 N (m - 1)))"
      by (simp add: take_bit_eq_mask mask_eq_exp_minus_1 push_bit_eq_mult)
    also have "\<dots> = 0"
    proof (rule bit_eqI)
      fix k
      have "\<not> bit N (5 * (8 - 1 - (m - 1)) + k)" if "k < m * 5 - length g * 8"
      proof (rule low)
        have "5 * (8 - 1 - (m - 1)) = 40 - 5 * m" using m by simp
        then show "5 * (8 - 1 - (m - 1)) + k < 8 * (5 - length g)" using that m by linarith
      qed
      then show "bit (take_bit (m * 5 - length g * 8) (int (quantum 5 8 N (m - 1)))) k = bit (0::int) k"
        by (auto simp: quantum_def bit_simps)
    qed
    finally show ?thesis .
  qed
  have "map (\<lambda>j. ucast (drop_bit (32 - j * 8) (take_bit 40 N))) [0..<length g] = g"
  proof (rule nth_equalityI)
    fix j assume "j < length (map (\<lambda>j. ucast (drop_bit (32 - j * 8) (take_bit 40 N)) :: byte) [0..<length g])"
    then have j: "j < length g" by simp
    then have "32 - j * 8 = 8 * (5 - 1 - j)" by simp
    then show "map (\<lambda>j. ucast (drop_bit (32 - j * 8) (take_bit 40 N))) [0..<length g] ! j = g ! j"
      using group_bits_byte [of g 5 j] assms(2) j by (simp add: N_def)
  qed simp
  then show ?thesis
    using left m unfolding b32_emit_def N_def [symmetric]
    by (simp add: vals bits del: upt_conv_Cons)
qed

lemma base32_loop_encode:
  "length out + length bs \<le> cap \<Longrightarrow> base32_loop cap (base32_encode bs) out = Some (out @ bs)"
proof (induction bs arbitrary: out rule: base32_encode.induct)
  case (1 bs)
  show ?case
  proof (cases "bs = []")
    case True
    then show ?thesis by (simp add: base32_encode.simps base32_loop.simps)
  next
    case False
    let ?g = "take 5 bs"
    have g: "?g \<noteq> []" "length ?g \<le> 5" using False by simp_all
    have "base32_encode bs = b32_encode_group ?g @ base32_encode (drop 5 bs)"
      using False by (simp add: base32_encode.simps [of bs])
    moreover have "b32_encode_group ?g \<noteq> []"
    proof -
      have "0 < (8 * length ?g + 4) div 5" using g(1) by (cases bs) (simp_all add: min_def)
      then show ?thesis by (simp add: b32_encode_group_def Let_def del: length_take)
    qed
    ultimately show ?thesis
      using 1 False b32_read_encode [OF g, of "base32_encode (drop 5 bs)"] b32_emit_encode [OF g]
      by (simp add: base32_loop.simps [of cap "b32_encode_group (take 5 bs) @ base32_encode (drop 5 bs)"])
  qed
qed

lemma base32_decode_encode: "length bs \<le> cap \<Longrightarrow> base32_decode cap (base32_encode bs) = Some bs"
  using base32_loop_encode [of "[]" bs cap] base32_loop.simps [of cap "[]" "[]"]
  by (auto simp: base32_decode_def)

lemma b64_group_loop_chars:
  assumes "\<forall>q \<in> set qs. q < 64" and "j + length qs \<le> 4" and "length vals = 4"
  shows "b64_group_loop (map b64_char qs @ rest) vals [j..<4]
    = b64_group_loop rest (poke j (map int qs) vals) [j + length qs..<4]"
  using assms
proof (induction qs arbitrary: j vals)
  case Nil
  then show ?case by (simp add: poke_simps)
next
  case (Cons q qs)
  then have "[j..<4] = j # [Suc j..<4]" by (simp add: upt_conv_Cons)
  then show ?case
    using Cons.IH [of "Suc j" "vals[j := int q]"] Cons.prems
    by (simp add: b64_val_char Let_def poke_Cons)
qed

lemma b64_read_encode:
  assumes "g \<noteq> []" and "length g \<le> 3"
  defines "m \<equiv> (8 * length g + 5) div 6"
  shows "b64_read_group (b64_encode_group g @ rest) = Some (rest,
    \<lparr>g64_vals = map (\<lambda>i. int (quantum 6 4 (group_bits 3 g) i)) [0..<m] @ replicate (4 - m) 0,
     g64_n = length g\<rparr>)"
proof -
  define qs where "qs = map (quantum 6 4 (group_bits 3 g)) [0..<m]"
  define vals where "vals = poke 0 (map int qs) (replicate 4 0)"
  have "length g \<noteq> 0" using assms(1) by simp
  then have lens: "length g = 1 \<and> m = 2 \<or> length g = 2 \<and> m = 3 \<or> length g = 3 \<and> m = 4"
    using assms(2) unfolding m_def by arith
  then have m: "m \<le> 4" and qs: "length qs = m" by (auto simp: qs_def)
  have "b64_read_group (b64_encode_group g @ rest)
      = b64_group_loop (replicate (4 - m) CHR ''='' @ rest) vals [m..<4]"
    using b64_group_loop_chars [of qs 0 "replicate 4 0" "replicate (4 - m) CHR ''='' @ rest"] m
      quantum_less [of 6 4]
    by (simp add: b64_read_group_def b64_encode_group_def qs_def vals_def comp_def Let_def flip: m_def)
  also have "\<dots> = Some (rest, \<lparr>g64_vals = map int qs @ replicate (4 - m) 0, g64_n = length g\<rparr>)"
  proof (cases "m = 4")
    case True
    then show ?thesis using qs lens by (simp add: vals_def poke_simps)
  next
    case False
    then have tab: "B64_GROUP m = length g" "length g \<noteq> 0" using lens by (auto simp: B64_GROUP_def)
    obtain k where k: "4 - m = Suc k" using False m by (metis Suc_diff_Suc le_neq_implies_less)
    have "[m..<4] = m # [Suc m..<4]" using False m by (simp add: upt_conv_Cons)
    moreover have "b64_skip_padding (replicate (4 - m) CHR ''='' @ rest) vals m
        = Some (rest, map int qs @ replicate (4 - m) 0)"
      using pad_loop_padding [of m "4 - m" vals rest] m qs poke_tail [of "map int qs" "replicate (4 - m) 0" "replicate 4 0"]
      by (simp add: b64_skip_padding_def vals_def)
    moreover have "b64_val CHR ''='' = -2" by code_simp
    ultimately show ?thesis using tab k by (simp add: Let_def)
  qed
  finally show ?thesis by (simp add: qs_def comp_def)
qed

lemma b64_emit_encode:
  assumes "g \<noteq> []" and "length g \<le> 3"
  defines "m \<equiv> (8 * length g + 5) div 6"
  shows "b64_emit \<lparr>g64_vals = map (\<lambda>i. int (quantum 6 4 (group_bits 3 g) i)) [0..<m] @ replicate (4 - m) 0,
     g64_n = length g\<rparr> = g"
proof -
  define N where "N = group_bits 3 g"
  have "length g \<noteq> 0" using assms(1) by simp
  then have m: "m \<le> 4" "8 * length g \<le> 6 * m" using assms(2) unfolding m_def by arith+
  have z: "quantum 6 4 N i = 0" if "m \<le> i" "i < 4" for i
  proof (rule quantum_zero)
    show "\<not> bit N k" if "k < 8 * (3 - length g)" for k unfolding N_def using that by (rule group_bits_zero)
    have "6 * (4 - 1 - i) + 6 = 24 - 6 * i" using that by simp
    also have "\<dots> \<le> 24 - 8 * length g" using m that by linarith
    finally show "6 * (4 - 1 - i) + 6 \<le> 8 * (3 - length g)" by simp
  qed
  have vals: "map (\<lambda>i. int (quantum 6 4 N i)) [0..<m] @ replicate (4 - m) 0 = map (\<lambda>i. int (quantum 6 4 N i)) [0..<4]"
    by (rule nth_equalityI) (use m z in \<open>auto simp: nth_append\<close>)
  have mask: "(0x3f :: int) = mask 6" by (simp add: mask_eq_exp_minus_1)
  have bits: "fold (\<lambda>j bits. push_bit 6 bits OR word_of_int (map (\<lambda>i. int (quantum 6 4 N i)) [0..<4] ! j AND 0x3f))
      [0..<4] (0 :: u64) = take_bit 24 N"
  proof -
    have "fold (\<lambda>j bits. push_bit 6 bits OR word_of_int (map (\<lambda>i. int (quantum 6 4 N i)) [0..<4] ! j AND 0x3f))
        [0..<4] (0 :: u64)
      = fold (\<lambda>j bits. push_bit 6 bits OR take_bit 6 (drop_bit (6 * (4 - 1 - j)) N)) [0..<4] 0"
      by (rule fold_cong) (simp_all del: upt_conv_Cons add: mask quantum_word)
    then show ?thesis using quanta_fold [of 4 4 6 N] by (simp del: upt_conv_Cons)
  qed
  have "map (\<lambda>j. ucast (drop_bit (16 - j * 8) (take_bit 24 N))) [0..<length g] = g"
  proof (rule nth_equalityI)
    fix j assume "j < length (map (\<lambda>j. ucast (drop_bit (16 - j * 8) (take_bit 24 N)) :: byte) [0..<length g])"
    then have j: "j < length g" by simp
    then have "16 - j * 8 = 8 * (3 - 1 - j)" by simp
    then show "map (\<lambda>j. ucast (drop_bit (16 - j * 8) (take_bit 24 N))) [0..<length g] ! j = g ! j"
      using group_bits_byte [of g 3 j] assms(2) j by (simp add: N_def)
  qed simp
  then show ?thesis
    unfolding b64_emit_def N_def [symmetric] by (simp add: vals bits del: upt_conv_Cons)
qed

lemma base64_loop_encode:
  "length out + length bs \<le> cap \<Longrightarrow> base64_loop cap (base64_encode bs) out = Some (out @ bs)"
proof (induction bs arbitrary: out rule: base64_encode.induct)
  case (1 bs)
  show ?case
  proof (cases "bs = []")
    case True
    then show ?thesis by (simp add: base64_encode.simps base64_loop.simps)
  next
    case False
    let ?g = "take 3 bs"
    have g: "?g \<noteq> []" "length ?g \<le> 3" using False by simp_all
    have "base64_encode bs = b64_encode_group ?g @ base64_encode (drop 3 bs)"
      using False by (simp add: base64_encode.simps [of bs])
    moreover have "b64_encode_group ?g \<noteq> []"
    proof -
      have "0 < (8 * length ?g + 5) div 6" using g(1) by (cases bs) (simp_all add: min_def)
      then show ?thesis by (simp add: b64_encode_group_def Let_def del: length_take)
    qed
    ultimately show ?thesis
      using 1 False b64_read_encode [OF g, of "base64_encode (drop 3 bs)"] b64_emit_encode [OF g]
      by (simp add: base64_loop.simps [of cap "b64_encode_group (take 3 bs) @ base64_encode (drop 3 bs)"])
  qed
qed

lemma base64_decode_encode: "length bs \<le> cap \<Longrightarrow> base64_decode cap (base64_encode bs) = Some bs"
  using base64_loop_encode [of "[]" bs cap] base64_loop.simps [of cap "[]" "[]"]
  by (auto simp: base64_decode_def)

section \<open>What base32 accepts\<close>

lemma pad_loop_split:
  "pad_loop rest vals js = Some (rest', vals') \<Longrightarrow> \<exists>pre. rest = pre @ rest' \<and> set pre \<subseteq> {CHR ''=''}"
proof (induction js arbitrary: rest vals)
  case Nil
  then show ?case by simp
next
  case (Cons j js)
  then have "pad_loop (tl rest) (vals[j := 0]) js = Some (rest', vals')" by (simp split: if_splits)
  then obtain pre where pre: "tl rest = pre @ rest'" "set pre \<subseteq> {CHR ''=''}"
    using Cons.IH by blast
  show ?case
  proof (cases rest)
    case Nil
    then show ?thesis using pre by simp
  next
    case (Cons c cs)
    then show ?thesis
      using pre Cons.prems by (intro exI [of _ "c # pre"]) (auto split: if_splits)
  qed
qed

lemma b32_val_pad: "b32_val CHR ''='' = -2"
  by code_simp

lemma b32_group_loop_split:
  "b32_group_loop rest vals js = Some (rest', g) \<Longrightarrow> \<exists>pre. rest = pre @ rest' \<and> (\<forall>c \<in> set pre. b32_val c \<noteq> -1)"
proof (induction rest vals js rule: b32_group_loop.induct)
  case (3 c rest vals j js)
  show ?case
  proof (cases "b32_val c = -2")
    case True
    with "3.prems" obtain vals' where "pad_loop (c # rest) vals [j..<8] = Some (rest', vals')"
      by (auto simp: Let_def b32_skip_padding_def split: if_splits option.splits)
    then show ?thesis using pad_loop_split b32_val_pad by fastforce
  next
    case False
    with "3.prems" have v: "\<not> b32_val c < 0" and "b32_group_loop rest (vals[j := b32_val c]) js = Some (rest', g)"
      by (auto simp: Let_def split: if_splits)
    with "3.IH" False obtain pre where "rest = pre @ rest'" "\<forall>c \<in> set pre. b32_val c \<noteq> -1" by blast
    then show ?thesis using v by (intro exI [of _ "c # pre"]) auto
  qed
qed (auto simp: Let_def split: if_splits)

lemma base32_loop_alphabet:
  "base32_loop cap rest out = Some r \<Longrightarrow> \<forall>c \<in> set rest. b32_val c \<noteq> -1"
proof (induction cap rest out rule: base32_loop.induct)
  case (1 cap rest out)
  show ?case
  proof (cases "rest = []")
    case False
    with "1.prems" obtain rest' g bs where rd: "b32_read_group rest = Some (rest', g)"
      and "\<not> cap < length out + g32_n g" "b32_emit g = Some bs" "base32_loop cap rest' (out @ bs) = Some r"
      by (auto simp: base32_loop.simps [of cap rest out] split: if_splits option.splits)
    with "1.IH" False have "\<forall>c \<in> set rest'. b32_val c \<noteq> -1" by blast
    moreover obtain pre where "rest = pre @ rest'" "\<forall>c \<in> set pre. b32_val c \<noteq> -1"
      using rd b32_group_loop_split unfolding b32_read_group_def by blast
    ultimately show ?thesis by auto
  qed simp
qed

lemma base32_alphabet_only: "\<exists>c \<in> set s. b32_val c = -1 \<Longrightarrow> base32_decode cap s = None"
  using base32_loop_alphabet [of cap s "[]"] by (cases "base32_loop cap s []") (auto simp: base32_decode_def)

section \<open>Prefixes\<close>

text \<open>The colon of a prefix is outside the base32 alphabet, so a prefixed secret is never re-read as base32.\<close>

lemma colon_not_base32: "CHR '':'' \<in> set s \<Longrightarrow> base32_decode cap s = None"
proof -
  have "b32_val CHR '':'' = -1" by code_simp
  then show "CHR '':'' \<in> set s \<Longrightarrow> base32_decode cap s = None"
    using base32_alphabet_only by blast
qed

lemma try_hex_prefix [simp]: "try_hex cap (''hex:'' @ s) = hex_decode cap s"
  by (simp add: try_hex_def)

lemma try_base64_prefix [simp]: "try_base64 cap (''b64:'' @ s) = base64_decode cap s"
  by (simp add: try_base64_def)

lemma try_other_prefix [simp]:
  "try_base64 cap (''hex:'' @ s) = None" "try_hex cap (''b64:'' @ s) = None"
  by (simp_all add: try_base64_def try_hex_def)

lemma secret_decode_hex: "secret_decode (Some (''hex:'' @ s)) cap = map_option (\<lambda>b. (b, SECRET_HEX)) (hex_decode cap s)"
  using colon_not_base32 [of "''hex:'' @ s" cap] try_hex_prefix [of cap s] try_other_prefix(1) [of cap s]
  by (auto simp: secret_decode_def try_base32_def split: option.split)

lemma secret_decode_b64: "secret_decode (Some (''b64:'' @ s)) cap = map_option (\<lambda>b. (b, SECRET_BASE64)) (base64_decode cap s)"
  using colon_not_base32 [of "''b64:'' @ s" cap] try_base64_prefix [of cap s] try_other_prefix(2) [of cap s]
  by (auto simp: secret_decode_def try_base32_def split: option.split)

lemma secret_decode_plain:
  assumes "CHR '':'' \<notin> set s"
  shows "secret_decode (Some s) cap = map_option (\<lambda>b. (b, SECRET_BASE32)) (base32_decode cap s)"
proof -
  have no_colon: "length s \<le> 3 \<or> s ! 3 \<noteq> CHR '':''"
    using assms nth_mem [of 3 s] by (metis not_less)
  have "try_hex cap s = None" "try_base64 cap s = None"
    using no_colon by (auto simp: try_hex_def try_base64_def)
  then show ?thesis by (simp add: secret_decode_def try_base32_def base32_decode_def)
qed

lemma b32_char_alphabet: "v < 32 \<Longrightarrow> b32_char v \<noteq> CHR '':''"
proof -
  have "b32_val CHR '':'' = -1" by code_simp
  then show "v < 32 \<Longrightarrow> b32_char v \<noteq> CHR '':''" using b32_val_char [of v] by auto
qed

lemma colon_not_in_base32_encode: "CHR '':'' \<notin> set (base32_encode bs)"
proof (induction bs rule: base32_encode.induct)
  case (1 bs)
  have "CHR '':'' \<notin> set (b32_encode_group g)" for g
    using b32_char_alphabet [OF quantum_less [of 5, simplified]]
    by (fastforce simp: b32_encode_group_def Let_def)
  with 1 show ?case by (simp add: base32_encode.simps [of bs])
qed

lemma secret_decode_round_trips:
  assumes "length bs \<le> cap"
  shows "secret_decode (Some (''hex:'' @ hex_encode bs)) cap = Some (bs, SECRET_HEX)"
    and "secret_decode (Some (''b64:'' @ base64_encode bs)) cap = Some (bs, SECRET_BASE64)"
    and "secret_decode (Some (base32_encode bs)) cap = Some (bs, SECRET_BASE32)"
  unfolding secret_decode_hex secret_decode_b64 secret_decode_plain [OF colon_not_in_base32_encode]
  by (simp_all add: hex_decode_encode base64_decode_encode base32_decode_encode assms)

end
