(* ===== verification/Ratelimit.thy ===== *)
theory Ratelimit
  imports Addr Probe
begin

text \<open>
  Per-address rate limiting with exponential backoff (\<^verbatim>\<open>src/ratelimit.c\<close>).

  \<open>fail_step\<close> is the abstract rule for one address (business rule BR-8 of the project):
  what a failure does to its record. \<open>rate_limit_fail_map\<close> shows that the table of 64 slots
  implements it for the failing address and leaves every other address alone; the bounds on
  the block duration and the number of failures that lead to a block are proved for
  \<open>fail_step\<close> and carried over.
\<close>

definition RATE_TABLE_SIZE :: nat where "RATE_TABLE_SIZE = 64"
definition RATE_TABLE_MASK :: nat where "RATE_TABLE_MASK = 63"

lemmas rate_consts = RATE_TABLE_SIZE_def RATE_TABLE_MASK_def

record rate_limit_cfg =
  min_block :: u32
  max_block :: u32
  max_fails :: u32
  fail_window :: u32

record rate_entry =
  rt_ip :: ip_addr_t
  fail_count :: u32
  first_fail :: time_t
  block_until :: time_t
  block_duration :: u32
  rt_used :: bool

type_synonym rate_table = "rate_entry list"

definition rate_idx :: "ip_addr_t \<Rightarrow> nat" where
  "rate_idx ip = unat (ip_hash32 ip AND of_nat RATE_TABLE_MASK)"

fun check_loop :: "rate_table \<Rightarrow> ip_addr_t \<Rightarrow> time_t \<Rightarrow> nat list \<Rightarrow> int" where
  "check_loop t ip now [] = 0"
| "check_loop t ip now (i # is) =
     (let pos = (rate_idx ip + i) AND RATE_TABLE_MASK in
      if \<not> rt_used (t ! pos) then 0
      else if ip_eq (rt_ip (t ! pos)) ip then (if now < block_until (t ! pos) then -1 else 0)
      else check_loop t ip now is)"

definition rate_limit_check :: "rate_table \<Rightarrow> ip_addr_t \<Rightarrow> time_t \<Rightarrow> int" where
  "rate_limit_check t ip now = check_loop t ip now [0..<RATE_TABLE_SIZE]"

definition calc_block_duration :: "u32 \<Rightarrow> rate_limit_cfg \<Rightarrow> u32" where
  "calc_block_duration current cfg =
     (if current = 0 then min_block cfg
      else let next = current * 2 in
           if next > max_block cfg then max_block cfg else next)"

text \<open>What the loop of \<open>rate_limit_fail\<close> does to the entry it finds.\<close>

definition fail_entry :: "rate_limit_cfg \<Rightarrow> time_t \<Rightarrow> rate_entry \<Rightarrow> rate_entry" where
  "fail_entry cfg now e =
     (if now - first_fail e > uint (fail_window cfg) then e\<lparr>fail_count := 1, first_fail := now\<rparr>
      else let e = e\<lparr>fail_count := fail_count e + 1\<rparr> in
           if fail_count e \<ge> max_fails cfg \<and> now \<ge> block_until e
           then let e = e\<lparr>block_duration := calc_block_duration (block_duration e) cfg\<rparr>
                in e\<lparr>block_until := now + uint (block_duration e)\<rparr>
           else e)"

fun fail_loop :: "rate_table \<Rightarrow> ip_addr_t \<Rightarrow> time_t \<Rightarrow> rate_limit_cfg \<Rightarrow> nat list \<Rightarrow> rate_table + nat" where
  "fail_loop t ip now cfg [] = Inr RATE_TABLE_SIZE"
| "fail_loop t ip now cfg (i # is) =
     (let pos = (rate_idx ip + i) AND RATE_TABLE_MASK in
      if \<not> rt_used (t ! pos) then Inr pos
      else if ip_eq (rt_ip (t ! pos)) ip then Inl (t[pos := fail_entry cfg now (t ! pos)])
      else fail_loop t ip now cfg is)"

definition rate_limit_fail :: "rate_table \<Rightarrow> ip_addr_t \<Rightarrow> time_t \<Rightarrow> rate_limit_cfg \<Rightarrow> rate_table" where
  "rate_limit_fail t ip now cfg =
     (case fail_loop t ip now cfg [0..<RATE_TABLE_SIZE] of
        Inl t' \<Rightarrow> t'
      | Inr first_empty \<Rightarrow>
          if first_empty < RATE_TABLE_SIZE
          then t[first_empty := (t ! first_empty)\<lparr>rt_ip := ip, fail_count := 1, first_fail := now,
                 block_until := 0, block_duration := 0, rt_used := True\<rparr>]
          else t)"

fun success_loop :: "rate_table \<Rightarrow> ip_addr_t \<Rightarrow> nat list \<Rightarrow> rate_table" where
  "success_loop t ip [] = t"
| "success_loop t ip (i # is) =
     (let pos = (rate_idx ip + i) AND RATE_TABLE_MASK in
      if \<not> rt_used (t ! pos) then t
      else if ip_eq (rt_ip (t ! pos)) ip then t[pos := (t ! pos)\<lparr>rt_used := False\<rparr>]
      else success_loop t ip is)"

definition rate_limit_success :: "rate_table \<Rightarrow> ip_addr_t \<Rightarrow> rate_table" where
  "rate_limit_success t ip = success_loop t ip [0..<RATE_TABLE_SIZE]"

definition rate_limit_reset :: rate_table where
  "rate_limit_reset =
     replicate RATE_TABLE_SIZE \<lparr>rt_ip = \<lparr>family = 0, addr = replicate 16 0\<rparr>, fail_count = 0,
       first_fail = 0, block_until = 0, block_duration = 0, rt_used = False\<rparr>"

section \<open>The abstract rule\<close>

text \<open>The record of one address: failures in the window, its start, the block and its length.\<close>

type_synonym rate_state = "u32 \<times> time_t \<times> time_t \<times> u32"

fun fail_step :: "rate_limit_cfg \<Rightarrow> time_t \<Rightarrow> rate_state option \<Rightarrow> rate_state" where
  "fail_step cfg now None = (1, now, 0, 0)"
| "fail_step cfg now (Some (n, start, until, dur)) =
     (if now - start > uint (fail_window cfg) then (1, now, until, dur)
      else if n + 1 \<ge> max_fails cfg \<and> now \<ge> until
      then (n + 1, start, now + uint (calc_block_duration dur cfg), calc_block_duration dur cfg)
      else (n + 1, start, until, dur))"

fun blocked_at :: "time_t \<Rightarrow> rate_state option \<Rightarrow> bool" where
  "blocked_at now None = False"
| "blocked_at now (Some (n, start, until, dur)) = (now < until)"

section \<open>The table implements it\<close>

abbreviation rate_ok :: "rate_table \<Rightarrow> bool" where
  "rate_ok \<equiv> table_ok rt_used rt_ip rate_idx 64"

definition rate_state_of :: "rate_entry \<Rightarrow> rate_state" where
  "rate_state_of e = (fail_count e, first_fail e, block_until e, block_duration e)"

definition rate_map :: "rate_table \<Rightarrow> ip_addr_t \<Rightarrow> rate_state option" where
  "rate_map t ip = map_option rate_state_of (table_lookup rt_used rt_ip rate_idx 64 t ip)"

definition mk_rate :: "ip_addr_t \<Rightarrow> rate_state \<Rightarrow> rate_entry" where
  "mk_rate ip = (\<lambda>(n, start, until, dur).
     \<lparr>rt_ip = ip, fail_count = n, first_fail = start, block_until = until,
      block_duration = dur, rt_used = True\<rparr>)"

lemma rate_idx_less: "rate_idx ip < 64"
  using hash_mask_less by (simp add: rate_idx_def rate_consts)

interpretation rate: probing_map rt_used rt_ip rate_idx 64 mk_rate rate_state_of
  by unfold_locales (auto simp: rate_idx_less mk_rate_def rate_state_of_def split: prod.splits)

lemma mk_rate_state: "rt_used e \<Longrightarrow> mk_rate (rt_ip e) (rate_state_of e) = e"
  by (simp add: mk_rate_def rate_state_of_def)

lemma rate_write_all:
  "e\<lparr>rt_ip := ip, fail_count := n, first_fail := s, block_until := u, block_duration := d,
     rt_used := True\<rparr> = mk_rate ip (n, s, u, d)" for e :: rate_entry
  by (cases e) (simp add: mk_rate_def)

lemma fail_entry_step:
  assumes "rt_used e"
  shows "fail_entry cfg now e = mk_rate (rt_ip e) (fail_step cfg now (Some (rate_state_of e)))"
  using assms by (cases e) (simp add: fail_entry_def mk_rate_def rate_state_of_def Let_def)

abbreviation (input) rate_probe :: "rate_table \<Rightarrow> ip_addr_t \<Rightarrow> nat list \<Rightarrow> slot" where
  "rate_probe t ip is \<equiv> probe rt_used rt_ip t ip (map (\<lambda>i. (rate_idx ip + i) mod 64) is)"

lemma check_loop_probe:
  "check_loop t ip now is =
     (case rate_probe t ip is of Hit p \<Rightarrow> if now < block_until (t ! p) then -1 else 0 | _ \<Rightarrow> 0)"
  by (induction "is") (auto simp: Let_def rate_consts and_63_mod)

lemma fail_loop_probe:
  "fail_loop t ip now cfg is =
     (case rate_probe t ip is of
        Hit p \<Rightarrow> Inl (t[p := fail_entry cfg now (t ! p)]) | Free p \<Rightarrow> Inr p | Full \<Rightarrow> Inr 64)"
  by (induction "is") (auto simp: Let_def rate_consts and_63_mod)

lemma success_loop_probe:
  "success_loop t ip is =
     (case rate_probe t ip is of Hit p \<Rightarrow> t[p := (t ! p)\<lparr>rt_used := False\<rparr>] | _ \<Rightarrow> t)"
  by (induction "is") (auto simp: Let_def rate_consts and_63_mod)

lemmas rate_path = slot_of_def probe_path_def RATE_TABLE_SIZE_def

lemma rate_limit_check_map: "rate_limit_check t ip now = (if blocked_at now (rate_map t ip) then -1 else 0)"
  unfolding rate_limit_check_def check_loop_probe rate_map_def table_lookup_def rate_path
  by (auto simp: rate_state_of_def split: slot.split)

lemma rate_limit_fail_store:
  "rate_limit_fail t ip now cfg =
     (case table_store rt_used rt_ip rate_idx 64 t (mk_rate ip (fail_step cfg now (rate_map t ip))) of
        None \<Rightarrow> t | Some t' \<Rightarrow> t')"
proof -
  define s where "s = slot_of rt_used rt_ip rate_idx 64 t ip"
  have loop: "fail_loop t ip now cfg [0..<RATE_TABLE_SIZE] =
      (case s of Hit p \<Rightarrow> Inl (t[p := fail_entry cfg now (t ! p)]) | Free p \<Rightarrow> Inr p | Full \<Rightarrow> Inr 64)"
    unfolding fail_loop_probe s_def rate_path ..
  have st: "table_store rt_used rt_ip rate_idx 64 t (mk_rate ip v) =
      (case s of Hit p \<Rightarrow> Some (t[p := mk_rate ip v]) | Free p \<Rightarrow> Some (t[p := mk_rate ip v]) | Full \<Rightarrow> None)" for v
    by (simp add: table_store_def s_def rate.mk_key)
  have map: "rate_map t ip = (case s of Hit p \<Rightarrow> Some (rate_state_of (t ! p)) | _ \<Rightarrow> None)"
    by (simp add: rate_map_def table_lookup_def s_def split: slot.split)
  have "fail_entry cfg now (t ! p) = mk_rate ip (fail_step cfg now (Some (rate_state_of (t ! p))))" if "s = Hit p" for p
    using rate.slot_Hit [of t ip p] that fail_entry_step [of "t ! p" cfg now] by (simp add: s_def)
  moreover have "p < 64" if "s = Free p" for p
    using rate.slot_less [of t ip p] that by (simp add: s_def)
  ultimately show ?thesis
    unfolding rate_limit_fail_def loop st map
    by (auto simp: RATE_TABLE_SIZE_def rate_write_all split: slot.split)
qed

lemma rate_map_payload: "(\<lambda>ip. map_option rate_state_of (table_lookup rt_used rt_ip rate_idx 64 t ip)) = rate_map t"
  by (simp add: fun_eq_iff rate_map_def)

lemma rate_limit_fail_map:
  assumes "rate_ok t"
  shows "rate_ok (rate_limit_fail t ip now cfg)"
    and "rate_map (rate_limit_fail t ip now cfg) = (rate_map t)(ip \<mapsto> fail_step cfg now (rate_map t ip))
      \<or> rate_limit_fail t ip now cfg = t \<and> rate_map t ip = None \<and> (\<forall>p < 64. rt_used (t ! p))"
proof -
  let ?v = "fail_step cfg now (rate_map t ip)"
  show "rate_ok (rate_limit_fail t ip now cfg)"
    using rate.invar_store [OF assms, of ip ?v] assms
    by (auto simp: rate_limit_fail_store split: option.split)
  show "rate_map (rate_limit_fail t ip now cfg) = (rate_map t)(ip \<mapsto> ?v)
      \<or> rate_limit_fail t ip now cfg = t \<and> rate_map t ip = None \<and> (\<forall>p < 64. rt_used (t ! p))"
  proof (cases "table_store rt_used rt_ip rate_idx 64 t (mk_rate ip ?v)")
    case None
    then show ?thesis
      using rate.store_None [OF None] by (simp add: rate_limit_fail_store rate_map_def rate.mk_key)
  next
    case (Some t')
    then show ?thesis
      using rate.lookup_store [OF assms Some] unfolding rate_map_payload by (simp add: rate_limit_fail_store)
  qed
qed

lemma rate_reset_ok: "rate_ok rate_limit_reset"
  by (simp add: table_ok_def rate_limit_reset_def rate_consts)

lemma rate_reset_map: "rate_map rate_limit_reset ip = None"
  using rate.ok_lookup_iff [OF rate_reset_ok, of ip]
  by (cases "table_lookup rt_used rt_ip rate_idx 64 rate_limit_reset ip")
    (auto simp: rate_map_def rate_limit_reset_def rate_consts)

section \<open>Success\<close>

lemma probe_clear:
  assumes "probe used key t k ps = Hit p" and "\<not> used e" and "p < length t"
  shows "probe used key (t[p := e]) k ps = Free p"
  using assms by (induction ps) (auto simp: nth_list_update split: if_splits)

lemma rate_limit_success_slot:
  "rate_limit_success t ip =
     (case slot_of rt_used rt_ip rate_idx 64 t ip of
        Hit p \<Rightarrow> t[p := (t ! p)\<lparr>rt_used := False\<rparr>] | _ \<Rightarrow> t)"
  unfolding rate_limit_success_def success_loop_probe rate_path ..

lemma rate_limit_success_forgets:
  assumes "length t = 64"
  shows "rate_map (rate_limit_success t ip) ip = None"
proof (cases "slot_of rt_used rt_ip rate_idx 64 t ip")
  case (Hit p)
  then have "p < 64" using rate.slot_less by blast
  with Hit assms probe_clear [of rt_used rt_ip t ip _ p "(t ! p)\<lparr>rt_used := False\<rparr>"] show ?thesis
    by (simp add: rate_map_def table_lookup_def rate_limit_success_slot slot_of_def)
qed (simp_all add: rate_map_def table_lookup_def rate_limit_success_slot)

lemma length_rate_ops [simp]:
  "length (rate_limit_fail t ip now cfg) = length t" "length (rate_limit_success t ip) = length t"
  "length rate_limit_reset = 64"
  by (auto simp: rate_limit_fail_store table_store_def rate_limit_success_slot rate_limit_reset_def
      rate_consts split: option.splits slot.splits)

text \<open>A success of one address hides the record of another behind its slot.\<close>

lemma success_unblocks:
  assumes "rate_ok t" and "i < j" and "j < 64" and "e = t ! ((rate_idx ip + j) mod 64)" and "rt_used e" and "rt_ip e = ip"
    and "f = t ! ((rate_idx ip + i) mod 64)" and "rt_used f"
  shows "rate_limit_check t ip clock = (if clock < block_until e then -1 else 0)"
    and "rate_limit_check (rate_limit_success t (rt_ip f)) ip clock = 0"
proof -
  have len: "length t = 64" using assms(1) by (simp add: table_ok_def)
  have q: "(rate_idx ip + m) mod 64 < 64" for m by simp
  have "table_lookup rt_used rt_ip rate_idx 64 t ip = Some e"
    unfolding rate.ok_lookup_iff [OF assms(1)] using assms(4-6) q by blast
  then show "rate_limit_check t ip clock = (if clock < block_until e then -1 else 0)"
    by (simp add: rate_limit_check_map rate_map_def rate_state_of_def)
  define p where "p = (rate_idx ip + i) mod 64"
  have p: "p < 64" "f = t ! p" using assms(7) by (simp_all add: p_def)
  have "slot_of rt_used rt_ip rate_idx 64 t (rt_ip f) = Hit p" using assms(1,8) p by (simp add: table_ok_def)
  then have s: "rate_limit_success t (rt_ip f) = t[p := f\<lparr>rt_used := False\<rparr>]" by (simp add: rate_limit_success_slot p(2))
  have "table_lookup rt_used rt_ip rate_idx 64 (rate_limit_success t (rt_ip f)) ip = None"
  proof (rule rate.search_stopped [OF assms(1-3)])
    show "\<not> rt_used (rate_limit_success t (rt_ip f) ! ((rate_idx ip + i) mod 64))"
      unfolding s p_def [symmetric] using p(1) len by simp
    show "rt_used (t ! r) \<and> rt_ip (t ! r) = rt_ip (rate_limit_success t (rt_ip f) ! r)" if "r < 64" "rt_used (rate_limit_success t (rt_ip f) ! r)" for r
      using that len p(1) unfolding s by (cases "r = p") auto
  qed (use assms(4-6) in auto)
  then show "rate_limit_check (rate_limit_success t (rt_ip f)) ip clock = 0" by (simp add: rate_limit_check_map rate_map_def)
qed

section \<open>Backoff\<close>

lemma calc_block_duration_le:
  "min_block cfg \<le> max_block cfg \<Longrightarrow> calc_block_duration cur cfg \<le> max_block cfg"
  by (auto simp: calc_block_duration_def Let_def)

text \<open>
  The rule of the documentation, on numbers: the larger of the minimum and twice the last
  block, capped at the maximum. It is what the code computes while nothing wraps around.
\<close>

lemma calc_block_duration_rule:
  assumes "min_block cfg \<le> max_block cfg" and "unat (max_block cfg) < 2 ^ 31"
    and "cur = 0 \<or> min_block cfg \<le> cur \<and> cur \<le> max_block cfg"
  shows "unat (calc_block_duration cur cfg)
    = min (unat (max_block cfg)) (max (unat (min_block cfg)) (2 * unat cur))"
proof -
  have "unat cur < 2 ^ 31" using assms by (auto simp: word_le_nat_alt)
  then have "unat (cur * 2) = 2 * unat cur" by (simp add: unat_word_ariths)
  then show ?thesis
    using assms by (auto simp: calc_block_duration_def Let_def word_le_nat_alt word_less_nat_alt)
qed

lemma backoff_iterate:
  assumes "0 < min_block cfg" and "min_block cfg \<le> max_block cfg" and "unat (max_block cfg) < 2 ^ 31"
  shows "unat (((\<lambda>d. calc_block_duration d cfg) ^^ Suc k) 0)
    = min (unat (max_block cfg)) (unat (min_block cfg) * 2 ^ k)"
proof (induction k)
  case 0
  then show ?case using assms by (simp add: calc_block_duration_def word_le_nat_alt)
next
  case (Suc k)
  define d where "d = ((\<lambda>d. calc_block_duration d cfg) ^^ Suc k) 0"
  have d: "unat d = min (unat (max_block cfg)) (unat (min_block cfg) * 2 ^ k)"
    using Suc by (simp add: d_def)
  have "unat (min_block cfg) \<le> unat (min_block cfg) * 2 ^ k" by simp
  then have "min_block cfg \<le> d \<and> d \<le> max_block cfg"
    using assms(2) d by (auto simp: word_le_nat_alt)
  then have "unat (calc_block_duration d cfg)
      = min (unat (max_block cfg)) (max (unat (min_block cfg)) (2 * unat d))"
    using calc_block_duration_rule [OF assms(2,3)] by blast
  then show ?case
    using d assms(2) by (simp add: d_def min_def max_def word_le_nat_alt split: if_splits)
qed

section \<open>When a block starts\<close>

text \<open>Consecutive failures of one address at the times \<open>ts\<close>.\<close>

definition fail_many :: "rate_limit_cfg \<Rightarrow> time_t list \<Rightarrow> rate_state option \<Rightarrow> rate_state option" where
  "fail_many cfg ts st = fold (\<lambda>t st. Some (fail_step cfg t st)) ts st"

lemma fail_many_count:
  assumes "ts \<noteq> []" and "\<forall>t \<in> set ts. t - hd ts \<le> uint (fail_window cfg)"
    and "length ts < unat (max_fails cfg)"
  shows "fail_many cfg ts None = Some (of_nat (length ts), hd ts, 0, 0)"
  using assms
proof (induction ts rule: rev_induct)
  case Nil
  then show ?case by simp
next
  case (snoc t ts)
  show ?case
  proof (cases "ts = []")
    case True
    then show ?thesis by (simp add: fail_many_def)
  next
    case False
    then have "fail_many cfg ts None = Some (of_nat (length ts), hd ts, 0, 0)"
      using snoc by auto
    moreover have "unat (of_nat (length ts) + 1 :: u32) = length ts + 1"
      using snoc.prems(3) unsigned_less [of "max_fails cfg", where 'a = nat]
      by (simp add: unat_of_nat unat_word_ariths)
    ultimately show ?thesis
      using False snoc.prems by (simp add: fail_many_def word_le_nat_alt add.commute)
  qed
qed

lemma fail_many_blocks:
  assumes "length ts = unat (max_fails cfg)" and "2 \<le> max_fails cfg"
    and "\<forall>t \<in> set ts. 0 \<le> t \<and> t - hd ts \<le> uint (fail_window cfg)"
  shows "fail_many cfg ts None
    = Some (max_fails cfg, hd ts, last ts + uint (min_block cfg), min_block cfg)"
proof -
  have len: "2 \<le> length ts" using assms(1,2) by (simp add: word_le_nat_alt)
  then have "butlast ts \<noteq> []" by (cases ts rule: rev_cases) auto
  then have "hd (butlast ts) = hd ts" by (cases ts) auto
  have "fail_many cfg (butlast ts) None = Some (of_nat (length ts - 1), hd ts, 0, 0)"
    using fail_many_count [of "butlast ts" cfg] assms len \<open>butlast ts \<noteq> []\<close> \<open>hd (butlast ts) = hd ts\<close>
    by (auto dest: in_set_butlastD)
  moreover have "fail_many cfg ts None = Some (fail_step cfg (last ts) (fail_many cfg (butlast ts) None))"
    using len by (cases ts rule: rev_cases) (auto simp: fail_many_def)
  moreover have "of_nat (length ts - 1) + 1 = max_fails cfg"
  proof -
    have "of_nat (length ts - 1) + 1 = (of_nat (Suc (length ts - 1)) :: u32)" by simp
    also have "Suc (length ts - 1) = unat (max_fails cfg)" using assms(1) len by simp
    finally show ?thesis by simp
  qed
  moreover have "ts \<noteq> []" using len by auto
  then have "0 \<le> last ts \<and> last ts - hd ts \<le> uint (fail_window cfg)"
    using assms(3) last_in_set by blast
  ultimately show ?thesis by (simp add: calc_block_duration_def)
qed

text \<open>The same on the table: as soon as the address has or gets a slot, its record follows the rule.\<close>

lemma rate_limit_fail_known:
  assumes "rate_ok t" and "rate_map t ip \<noteq> None \<or> (\<exists>p < 64. \<not> rt_used (t ! p))"
  shows "rate_map (rate_limit_fail t ip s cfg) = (rate_map t)(ip \<mapsto> fail_step cfg s (rate_map t ip))"
  using rate_limit_fail_map(2) [OF assms(1), of ip s cfg] assms(2) by blast

lemma rate_limit_fail_many:
  assumes "rate_ok t" and "rate_map t ip \<noteq> None \<or> (\<exists>p < 64. \<not> rt_used (t ! p))"
  shows "rate_map (fold (\<lambda>s t. rate_limit_fail t ip s cfg) ts t) ip = fail_many cfg ts (rate_map t ip)"
  using assms
proof (induction ts arbitrary: t)
  case Nil
  then show ?case by (simp add: fail_many_def)
next
  case (Cons s ts)
  have "rate_map (rate_limit_fail t ip s cfg) ip = Some (fail_step cfg s (rate_map t ip))"
    using rate_limit_fail_known [OF Cons.prems] by simp
  then show ?case
    using Cons.IH [OF rate_limit_fail_map(1) [OF Cons.prems(1)], of ip s cfg]
    by (simp add: fail_many_def)
qed

lemma rate_limit_fail_blocks:
  assumes "rate_ok t" and "rate_map t ip = None" and "\<exists>p < 64. \<not> rt_used (t ! p)"
    and "length ts = unat (max_fails cfg)" and "2 \<le> max_fails cfg"
    and "\<forall>s \<in> set ts. 0 \<le> s \<and> s - hd ts \<le> uint (fail_window cfg)"
  shows "rate_limit_check (fold (\<lambda>s t. rate_limit_fail t ip s cfg) ts t) ip s
    = (if s < last ts + uint (min_block cfg) then -1 else 0)"
  using rate_limit_fail_many [OF assms(1), of ip cfg ts] fail_many_blocks [OF assms(4-6)] assms(2,3)
  by (simp add: rate_limit_check_map)

lemma rate_limit_fail_full:
  assumes "rate_ok t" and "rate_map t ip = None" and "\<forall>p < 64. rt_used (t ! p)"
  shows "rate_limit_fail t ip s cfg = t"
proof (cases "table_store rt_used rt_ip rate_idx 64 t (mk_rate ip (fail_step cfg s (rate_map t ip)))")
  case None
  then show ?thesis by (simp add: rate_limit_fail_store)
next
  case (Some t')
  then show ?thesis
    using assms(2,3) rate.slot_less [of t ip] rate.slot_Free [of t ip]
    by (auto simp: table_store_def rate_map_def table_lookup_def rate.mk_key split: slot.splits)
qed

end
