(* ===== verification/Parse_Opts.thy ===== *)
theory Parse_Opts
  imports Clib Addr Encode Ratelimit
begin

text \<open>
  The daemon's command line (\<^verbatim>\<open>src/parse_opts.c\<close>, \<^verbatim>\<open>src/parse_opts.h\<close>). \<open>getopt_long\<close> is
  represented by the list of its results, option character and argument, in the order it
  returns them; \<open>getaddrinfo\<close> is the parameter \<open>gai\<close>, which maps a node (or the null pointer), a
  service and the hints to the address of the first result.

  A handler returns the configuration, or \<open>None\<close> for -1, after which the program exits and the
  configuration is not read again. A character array that holds a string is that string; the
  sizes of the arrays are in the invariant \<open>options_ok\<close>, which every handler keeps.
\<close>

definition MAX_PORTS :: nat where "MAX_PORTS = 8"
definition SECRET_FILE_MAX :: nat where "SECRET_FILE_MAX = 4096"
definition SECRET_SIZE :: nat where "SECRET_SIZE = 256"
definition USER_SIZE :: nat where "USER_SIZE = 32"
definition IFNAMSIZ :: nat where "IFNAMSIZ = 16"

lemmas opt_consts = MAX_PORTS_def SECRET_FILE_MAX_def SECRET_SIZE_def USER_SIZE_def IFNAMSIZ_def

record listen_addr =
  la_addr :: sockaddr_storage
  la_addrlen :: nat

record config =
  ports :: "listen_addr list"
  num_ports :: nat
  target_port :: u16
  cfg_secret :: "byte list"
  secret_len :: nat
  cfg_timeout :: u32
  cfg_user :: string
  cfg_group :: string
  cfg_iface :: string
  secret_file :: string
  foreground :: bool
  test_mode :: bool
  rate_limit :: rate_limit_cfg

section \<open>Addresses\<close>

record gai_hints =
  ai_passive :: bool
  ai_numerichost :: bool
  ai_family :: u16

type_synonym gai = "string option \<Rightarrow> string \<Rightarrow> gai_hints \<Rightarrow> byte list option"

text \<open>The node and the port string.\<close>

definition parse_addr_str :: "string \<Rightarrow> nat \<Rightarrow> (string \<times> string) option" where
  "parse_addr_str s node_sz =
     (if char_at s 0 = CHR ''['' then
        (case strchr CHR '']'' s of
           None \<Rightarrow> None
         | Some close \<Rightarrow>
             if char_at s (close + 1) \<noteq> CHR '':'' then None
             else let nlen = close - 1 in
                  if node_sz \<le> nlen then None
                  else Some (take nlen (drop 1 s), drop (close + 2) s))
      else
        (case strrchr CHR '':'' s of
           Some colon \<Rightarrow>
             if node_sz \<le> colon then None else Some (take colon s, drop (colon + 1) s)
         | None \<Rightarrow> Some ([], s)))"

definition parse_listen_addr :: "gai \<Rightarrow> string \<Rightarrow> listen_addr \<Rightarrow> listen_addr option" where
  "parse_listen_addr gai s la =
     (case parse_addr_str s 256 of
        None \<Rightarrow> None
      | Some (node, port_str) \<Rightarrow>
          let val = atol port_str in
          if val < 1 \<or> val > 65535 then None
          else
            let hints = (if node \<noteq> [] then \<lparr>ai_passive = True, ai_numerichost = True, ai_family = AF_UNSPEC\<rparr>
                         else \<lparr>ai_passive = True, ai_numerichost = False, ai_family = AF_INET6\<rparr>)
            in case gai (if node \<noteq> [] then Some node else None) port_str hints of
                 None \<Rightarrow> None
               | Some sa \<Rightarrow>
                   if length sa > 128 then None
                   else Some (la\<lparr>la_addr := poke 0 sa (la_addr la), la_addrlen := length sa\<rparr>))"

text \<open>A \<open>sockaddr_in\<close> for any address, a \<open>sockaddr_in6\<close> for any address.\<close>

definition any_in4 :: "u16 \<Rightarrow> byte list" where
  "any_in4 port = le16_bytes AF_INET @ htons port @ replicate 12 0"

definition any_in6 :: "u16 \<Rightarrow> byte list" where
  "any_in6 port = le16_bytes AF_INET6 @ htons port @ replicate 24 0"

definition set_port :: "nat \<Rightarrow> byte list \<Rightarrow> config \<Rightarrow> config" where
  "set_port i sa cfg = cfg\<lparr>ports := (ports cfg)[i := \<lparr>la_addr = poke 0 sa (la_addr (ports cfg ! i)), la_addrlen = length sa\<rparr>]\<rparr>"

section \<open>Handlers\<close>

definition handle_port_opt :: "gai \<Rightarrow> config \<Rightarrow> string \<Rightarrow> config option" where
  "handle_port_opt gai cfg optarg =
     (case parse_addr_str optarg 256 of
        None \<Rightarrow> None
      | Some (node, port_str) \<Rightarrow>
          if node = [] then
            let val = atol port_str in
            if val < 1 \<or> val > 65535 then None
            else if MAX_PORTS - 1 \<le> num_ports cfg then None
            else
              let cfg = set_port (num_ports cfg) (any_in4 (word_of_int val)) cfg;
                  cfg = cfg\<lparr>num_ports := num_ports cfg + 1\<rparr>;
                  cfg = set_port (num_ports cfg) (any_in6 (word_of_int val)) cfg
              in Some (cfg\<lparr>num_ports := num_ports cfg + 1\<rparr>)
          else if MAX_PORTS \<le> num_ports cfg then None
          else case parse_listen_addr gai optarg (ports cfg ! num_ports cfg) of
                 None \<Rightarrow> None
               | Some la \<Rightarrow> Some (cfg\<lparr>ports := (ports cfg)[num_ports cfg := la], num_ports := num_ports cfg + 1\<rparr>))"

definition handle_target_port_opt :: "config \<Rightarrow> string \<Rightarrow> config option" where
  "handle_target_port_opt cfg optarg =
     (let val = atol optarg in
      if val < 1 \<or> val > 65535 then None else Some (cfg\<lparr>target_port := word_of_int val\<rparr>))"

definition handle_secret_opt :: "config \<Rightarrow> string \<Rightarrow> config option" where
  "handle_secret_opt cfg optarg =
     (if secret_file cfg \<noteq> [] then None
      else case secret_decode (Some optarg) SECRET_SIZE of
             None \<Rightarrow> None
           | Some (out, enc) \<Rightarrow> Some (cfg\<lparr>cfg_secret := poke 0 out (cfg_secret cfg), secret_len := length out\<rparr>))"

definition handle_secret_file_opt :: "config \<Rightarrow> string \<Rightarrow> config option" where
  "handle_secret_file_opt cfg optarg =
     (if SECRET_FILE_MAX \<le> length optarg then None
      else if 0 < secret_len cfg then None
      else Some (cfg\<lparr>secret_file := optarg\<rparr>))"

definition handle_timeout_opt :: "config \<Rightarrow> string \<Rightarrow> config option" where
  "handle_timeout_opt cfg optarg =
     (let val = atol optarg in
      if val < 1 \<or> val > 86400 then None else Some (cfg\<lparr>cfg_timeout := word_of_int val\<rparr>))"

definition handle_min_block_opt :: "config \<Rightarrow> string \<Rightarrow> config option" where
  "handle_min_block_opt cfg optarg =
     (let val = atol optarg in
      if val < 1 \<or> val > 86400 then None
      else Some (cfg\<lparr>rate_limit := (rate_limit cfg)\<lparr>min_block := word_of_int val\<rparr>\<rparr>))"

definition handle_max_block_opt :: "config \<Rightarrow> string \<Rightarrow> config option" where
  "handle_max_block_opt cfg optarg =
     (let val = atol optarg in
      if val < 1 \<or> val > 86400 then None
      else Some (cfg\<lparr>rate_limit := (rate_limit cfg)\<lparr>max_block := word_of_int val\<rparr>\<rparr>))"

definition handle_rate_limit_opt :: "config \<Rightarrow> string \<Rightarrow> config option" where
  "handle_rate_limit_opt cfg optarg =
     (case sscanf_d_slash_d optarg of
        None \<Rightarrow> None
      | Some (n, w) \<Rightarrow>
          if n < 1 \<or> w < 1 then None
          else Some (cfg\<lparr>rate_limit := (rate_limit cfg)\<lparr>max_fails := word_of_int n, fail_window := word_of_int w\<rparr>\<rparr>))"

definition handle_interface_opt :: "config \<Rightarrow> string \<Rightarrow> config option" where
  "handle_interface_opt cfg optarg =
     (if IFNAMSIZ \<le> length optarg then None else Some (cfg\<lparr>cfg_iface := optarg\<rparr>))"

definition handle_user_opt :: "config \<Rightarrow> string \<Rightarrow> config option" where
  "handle_user_opt cfg optarg =
     (if USER_SIZE \<le> length optarg then None else Some (cfg\<lparr>cfg_user := optarg\<rparr>))"

definition handle_group_opt :: "config \<Rightarrow> string \<Rightarrow> config option" where
  "handle_group_opt cfg optarg =
     (if USER_SIZE \<le> length optarg then None else Some (cfg\<lparr>cfg_group := optarg\<rparr>))"

section \<open>Dispatch\<close>

text \<open>\<open>--help\<close> leaves the program with status 0.\<close>

datatype opt_result = Opt_ok config | Opt_error | Opt_exit

definition opt_result_of :: "config option \<Rightarrow> opt_result" where
  "opt_result_of r = (case r of None \<Rightarrow> Opt_error | Some cfg \<Rightarrow> Opt_ok cfg)"

text \<open>The table of handlers, indexed by the option character; \<open>None\<close> is an empty slot.\<close>

definition opt_tbl :: "gai \<Rightarrow> char \<Rightarrow> (config \<Rightarrow> string \<Rightarrow> config option) option" where
  "opt_tbl gai c =
     (if c = CHR ''p'' then Some (handle_port_opt gai)
      else if c = CHR ''t'' then Some handle_target_port_opt
      else if c = CHR ''T'' then Some handle_timeout_opt
      else if c = CHR ''b'' then Some handle_min_block_opt
      else if c = CHR ''B'' then Some handle_max_block_opt
      else if c = CHR ''r'' then Some handle_rate_limit_opt
      else if c = CHR ''i'' then Some handle_interface_opt
      else if c = CHR ''u'' then Some handle_user_opt
      else if c = CHR ''g'' then Some handle_group_opt
      else None)"

definition dispatch_one_opt :: "gai \<Rightarrow> config \<Rightarrow> char \<Rightarrow> string \<Rightarrow> opt_result" where
  "dispatch_one_opt gai cfg opt optarg =
     (if opt = CHR ''s'' then opt_result_of (handle_secret_opt cfg optarg)
      else if opt = CHR ''S'' then opt_result_of (handle_secret_file_opt cfg optarg)
      else if opt = CHR ''f'' then Opt_ok (cfg\<lparr>foreground := True\<rparr>)
      else if opt = CHR ''h'' then Opt_exit
      else case opt_tbl gai opt of
             Some h \<Rightarrow> opt_result_of (h cfg optarg)
           | None \<Rightarrow> Opt_error)"

fun opt_loop :: "gai \<Rightarrow> config \<Rightarrow> (char \<times> string) list \<Rightarrow> opt_result" where
  "opt_loop gai cfg [] = Opt_ok cfg"
| "opt_loop gai cfg ((opt, optarg) # os) =
     (case dispatch_one_opt gai cfg opt optarg of
        Opt_ok cfg' \<Rightarrow> opt_loop gai cfg' os
      | r \<Rightarrow> r)"

definition parse_daemon_args :: "gai \<Rightarrow> config \<Rightarrow> (char \<times> string) list \<Rightarrow> opt_result" where
  "parse_daemon_args gai cfg os =
     (case opt_loop gai cfg os of
        Opt_ok cfg \<Rightarrow>
          if secret_len cfg = 0 \<and> secret_file cfg = [] then Opt_error
          else if num_ports cfg = 0
          then Opt_ok ((set_port 1 (any_in6 2222) (set_port 0 (any_in4 2222) cfg))\<lparr>num_ports := 2\<rparr>)
          else Opt_ok cfg
      | r \<Rightarrow> r)"

section \<open>The invariant\<close>

definition rate_cfg_ok :: "rate_limit_cfg \<Rightarrow> bool" where
  "rate_cfg_ok r \<longleftrightarrow> 1 \<le> min_block r \<and> min_block r \<le> 86400 \<and> 1 \<le> max_block r \<and> max_block r \<le> 86400
     \<and> 1 \<le> max_fails r \<and> 1 \<le> fail_window r"

definition config_ok :: "config \<Rightarrow> bool" where
  "config_ok cfg \<longleftrightarrow> length (ports cfg) = 8 \<and> (\<forall>la \<in> set (ports cfg). ss_wf (la_addr la) \<and> la_addrlen la \<le> 128)
     \<and> num_ports cfg \<le> 8 \<and> target_port cfg \<noteq> 0 \<and> length (cfg_secret cfg) = 256 \<and> secret_len cfg \<le> 256
     \<and> 1 \<le> cfg_timeout cfg \<and> cfg_timeout cfg \<le> 86400 \<and> length (cfg_user cfg) < 32 \<and> length (cfg_group cfg) < 32
     \<and> length (cfg_iface cfg) < 16 \<and> length (secret_file cfg) < 4096 \<and> rate_cfg_ok (rate_limit cfg)"

text \<open>While options are read, a secret comes from the command line or from a file, not both.\<close>

definition options_ok :: "config \<Rightarrow> bool" where
  "options_ok cfg \<longleftrightarrow> config_ok cfg \<and> (secret_len cfg = 0 \<or> secret_file cfg = [])"

lemma port_value:
  assumes "1 \<le> val" "val \<le> 65535"
  shows "(word_of_int val :: u16) \<noteq> 0" "uint (word_of_int val :: u16) = val"
proof -
  show u: "uint (word_of_int val :: u16) = val"
    using assms by (simp add: uint_word_of_int_eq take_bit_int_eq_self)
  show "(word_of_int val :: u16) \<noteq> 0"
  proof
    assume "(word_of_int val :: u16) = 0"
    then have "uint (word_of_int val :: u16) = 0" by simp
    with u assms(1) show False by simp
  qed
qed

lemma seconds_value:
  assumes "1 \<le> val" "val \<le> 86400"
  shows "1 \<le> (word_of_int val :: u32)" "(word_of_int val :: u32) \<le> 86400"
  using assms by (simp_all add: word_le_def uint_word_of_int_eq take_bit_int_eq_self)

lemma count_value:
  assumes "1 \<le> val" "val < 2 ^ 31"
  shows "1 \<le> (word_of_int val :: u32)"
  using assms by (simp add: word_le_def uint_word_of_int_eq take_bit_int_eq_self)

lemma scan_d_range: "scan_d s = Some (n, r) \<Longrightarrow> n < 2 ^ 31"
  using sint_less [where ?'a = 32] by (auto simp: scan_d_def Let_def split: prod.splits if_splits)

lemma sscanf_range: "sscanf_d_slash_d s = Some (n, w) \<Longrightarrow> n < 2 ^ 31 \<and> w < 2 ^ 31"
  using scan_d_range by (auto simp: sscanf_d_slash_d_def split: option.splits if_splits)

lemma length_any [simp]: "length (any_in4 p) = 16" "length (any_in6 p) = 28"
  by (simp_all add: any_in4_def any_in6_def htons_def)

lemma set_port_ok:
  assumes "options_ok cfg" and "i < 8" and "length sa \<le> 128"
  shows "options_ok (set_port i sa cfg)"
proof -
  have "ss_wf (la_addr (ports cfg ! i))" using assms(1,2) by (auto simp: options_ok_def config_ok_def)
  then show ?thesis
    using assms by (auto simp: options_ok_def config_ok_def set_port_def ss_wf_def dest!: set_update_subset_insert [THEN subsetD])
qed

lemma num_ports_ok: "options_ok cfg \<Longrightarrow> n \<le> 8 \<Longrightarrow> options_ok (cfg\<lparr>num_ports := n\<rparr>)"
  by (simp add: options_ok_def config_ok_def)

lemma set_port_num [simp]: "num_ports (set_port i sa cfg) = num_ports cfg"
  by (simp add: set_port_def)

lemma parse_listen_addr_wf:
  assumes "parse_listen_addr gai s la = Some la'" and "ss_wf (la_addr la)"
  shows "ss_wf (la_addr la') \<and> la_addrlen la' \<le> 128"
  using assms by (auto simp: parse_listen_addr_def Let_def ss_wf_def split: option.splits if_splits)

lemma handle_port_opt_ok:
  assumes ok: "options_ok cfg" and h: "handle_port_opt gai cfg optarg = Some cfg'"
  shows "options_ok cfg'"
proof -
  obtain node port_str where p: "parse_addr_str optarg 256 = Some (node, port_str)"
    using h by (auto simp: handle_port_opt_def split: option.splits)
  show ?thesis
  proof (cases "node = []")
    case True
    define val where "val = atol port_str"
    have n: "num_ports cfg < 7" and cfg': "cfg' = (set_port (num_ports cfg + 1) (any_in6 (word_of_int val))
        ((set_port (num_ports cfg) (any_in4 (word_of_int val)) cfg)\<lparr>num_ports := num_ports cfg + 1\<rparr>))\<lparr>num_ports := num_ports cfg + 2\<rparr>"
      using h p True by (auto simp: handle_port_opt_def Let_def MAX_PORTS_def val_def split: if_splits)
    show ?thesis unfolding cfg' using n by (intro num_ports_ok set_port_ok ok) simp_all
  next
    case False
    then obtain la where n: "num_ports cfg < 8" and la: "parse_listen_addr gai optarg (ports cfg ! num_ports cfg) = Some la"
      and cfg': "cfg' = cfg\<lparr>ports := (ports cfg)[num_ports cfg := la], num_ports := num_ports cfg + 1\<rparr>"
      using h p by (auto simp: handle_port_opt_def MAX_PORTS_def split: option.splits if_splits)
    have "ss_wf (la_addr (ports cfg ! num_ports cfg))" using ok n by (auto simp: options_ok_def config_ok_def)
    with la have "ss_wf (la_addr la) \<and> la_addrlen la \<le> 128" by (rule parse_listen_addr_wf)
    then show ?thesis
      using ok n by (auto simp: cfg' options_ok_def config_ok_def dest!: set_update_subset_insert [THEN subsetD])
  qed
qed

lemma handle_secret_opt_ok:
  assumes "options_ok cfg" and "handle_secret_opt cfg optarg = Some cfg'"
  shows "options_ok cfg'"
proof -
  obtain out enc where "secret_decode (Some optarg) 256 = Some (out, enc)" "secret_file cfg = []"
    "cfg' = cfg\<lparr>cfg_secret := poke 0 out (cfg_secret cfg), secret_len := length out\<rparr>"
    using assms(2) by (auto simp: handle_secret_opt_def SECRET_SIZE_def split: option.splits if_splits)
  then show ?thesis using assms(1) secret_decode_cap [of "Some optarg" 256 out enc] by (simp add: options_ok_def config_ok_def)
qed

lemma number_opts_ok:
  assumes "options_ok cfg"
  shows "handle_target_port_opt cfg optarg = Some cfg' \<Longrightarrow> options_ok cfg'"
    and "handle_timeout_opt cfg optarg = Some cfg' \<Longrightarrow> options_ok cfg'"
  using assms port_value(1) [of "atol optarg"] seconds_value [of "atol optarg"]
  by (auto simp: options_ok_def config_ok_def handle_target_port_opt_def handle_timeout_opt_def Let_def split: if_splits)

lemma rate_update_ok: "options_ok cfg \<Longrightarrow> rate_cfg_ok r \<Longrightarrow> options_ok (cfg\<lparr>rate_limit := r\<rparr>)"
  by (simp add: options_ok_def config_ok_def)

lemma rate_opts_ok:
  assumes "options_ok cfg"
  shows "handle_min_block_opt cfg optarg = Some cfg' \<Longrightarrow> options_ok cfg'"
    and "handle_max_block_opt cfg optarg = Some cfg' \<Longrightarrow> options_ok cfg'"
    and "handle_rate_limit_opt cfg optarg = Some cfg' \<Longrightarrow> options_ok cfg'"
proof -
  have r: "rate_cfg_ok (rate_limit cfg)" using assms by (simp add: options_ok_def config_ok_def)
  show "options_ok cfg'" if "handle_min_block_opt cfg optarg = Some cfg'"
    using that r seconds_value [of "atol optarg"]
    by (auto simp: handle_min_block_opt_def Let_def rate_cfg_ok_def split: if_splits intro!: rate_update_ok [OF assms])
  show "options_ok cfg'" if "handle_max_block_opt cfg optarg = Some cfg'"
    using that r seconds_value [of "atol optarg"]
    by (auto simp: handle_max_block_opt_def Let_def rate_cfg_ok_def split: if_splits intro!: rate_update_ok [OF assms])
  show "options_ok cfg'" if h: "handle_rate_limit_opt cfg optarg = Some cfg'"
  proof -
    obtain n w where sc: "sscanf_d_slash_d optarg = Some (n, w)" and "1 \<le> n" "1 \<le> w"
      and cfg': "cfg' = cfg\<lparr>rate_limit := (rate_limit cfg)\<lparr>max_fails := word_of_int n, fail_window := word_of_int w\<rparr>\<rparr>"
      using h by (auto simp: handle_rate_limit_opt_def split: option.splits if_splits)
    then show ?thesis
      using r sscanf_range [OF sc] count_value unfolding cfg' by (intro rate_update_ok [OF assms]) (simp add: rate_cfg_ok_def)
  qed
qed

lemma string_opts_ok:
  assumes "options_ok cfg"
  shows "handle_secret_file_opt cfg optarg = Some cfg' \<Longrightarrow> options_ok cfg'"
    and "handle_interface_opt cfg optarg = Some cfg' \<Longrightarrow> options_ok cfg'"
    and "handle_user_opt cfg optarg = Some cfg' \<Longrightarrow> options_ok cfg'"
    and "handle_group_opt cfg optarg = Some cfg' \<Longrightarrow> options_ok cfg'"
  using assms
  by (auto simp: options_ok_def config_ok_def handle_secret_file_opt_def handle_interface_opt_def handle_user_opt_def
      handle_group_opt_def opt_consts split: if_splits)

lemmas other_opts_ok = number_opts_ok rate_opts_ok string_opts_ok

lemma dispatch_ok:
  assumes "options_ok cfg" and "dispatch_one_opt gai cfg opt optarg = Opt_ok cfg'"
  shows "options_ok cfg'"
proof -
  have "options_ok (cfg\<lparr>foreground := True\<rparr>)" using assms(1) by (simp add: options_ok_def config_ok_def)
  then show ?thesis
    using assms handle_port_opt_ok [OF assms(1)] handle_secret_opt_ok [OF assms(1)] other_opts_ok [OF assms(1)]
    by (auto simp: dispatch_one_opt_def opt_tbl_def opt_result_of_def split: if_splits option.splits)
qed

lemma opt_loop_ok: "options_ok cfg \<Longrightarrow> opt_loop gai cfg os = Opt_ok cfg' \<Longrightarrow> options_ok cfg'"
  by (induction gai cfg os rule: opt_loop.induct) (auto split: opt_result.splits dest: dispatch_ok)

lemma parse_daemon_args_ok:
  assumes "options_ok cfg" and "parse_daemon_args gai cfg os = Opt_ok cfg'"
  shows "options_ok cfg' \<and> 1 \<le> num_ports cfg' \<and> (0 < secret_len cfg' \<or> secret_file cfg' \<noteq> [])"
proof -
  obtain c where c: "opt_loop gai cfg os = Opt_ok c" "\<not> (secret_len c = 0 \<and> secret_file c = [])"
    and cfg': "cfg' = (if num_ports c = 0 then (set_port 1 (any_in6 2222) (set_port 0 (any_in4 2222) c))\<lparr>num_ports := 2\<rparr> else c)"
    using assms(2) by (auto simp: parse_daemon_args_def split: opt_result.splits if_splits)
  have ok: "options_ok c" using opt_loop_ok [OF assms(1) c(1)] .
  have "options_ok cfg'" unfolding cfg' using ok by (auto intro!: num_ports_ok set_port_ok)
  then show ?thesis using c(2) by (auto simp: cfg' set_port_def)
qed

end
