(* ===== verification/Os.thy ===== *)
theory Os
  imports Addr
begin

text \<open>
  The operating system as the program sees it. A call is a value of \<open>syscall\<close>; what the system
  answers is a function of the calls made before and the call itself, the parameter \<open>env\<close> of
  every operation that enters the system. Nothing is assumed of it here. The calls made so far
  and \<open>errno\<close> are the record \<open>os\<close>, which the modules with state of their own extend.

  What the program prints to standard error outside its logging functions is not modelled. A
  logged message is the call \<open>Log\<close>, with the number of an error in place of its text in
  \<open>Log_errno\<close> and the values of the formats in \<open>Log_accepted\<close> and \<open>Log_signal\<close>.
\<close>

datatype log_to = Stderr | Syslog

datatype syscall =
    Time
  | Clock_monotonic
  | Socket u16 int int
  | Set_v6only int
  | Fcntl_getfl int
  | Fcntl_setfl int int
  | Bind int "byte list"
  | Getsockname int
  | Recvfrom int nat
  | Recv int nat
  | Sendto int "byte list" "byte list"
  | Poll int int
  | Read int nat
  | Close int
  | Stat string
  | Open string
  | Epoll_create
  | Epoll_add int int u32
  | Epoll_wait int int int
  | Block_signals
  | Signalfd
  | Getrlimit_nofile
  | Openlog
  | Closelog
  | Log log_to int string
  | Log_accepted log_to ip_addr_t u16 u64
  | Log_signal log_to u32
  | Log_errno log_to int string int
  | Getuid
  | Geteuid
  | Getpwnam string
  | Getgrnam string
  | Setgroups "u32 list"
  | Setgid u32
  | Setuid u32
  | Prctl int "int list"
  | Capget
  | Capset "(u32 \<times> u32 \<times> u32) list"
  | Set_seccomp_filter "(u16 \<times> byte \<times> byte \<times> u32) list"

text \<open>
  The answer: the return value, the error a failing call leaves in \<open>errno\<close>, the bytes written
  to a caller's buffer, those written to a caller's address, and the descriptors an epoll wait
  reports. A lookup that yields an identifier returns it, and -1 for the null pointer.
\<close>

record sysret =
  ret :: int
  err :: int
  data :: "byte list"
  peer :: "byte list"
  ready :: "int list"

type_synonym env = "syscall list \<Rightarrow> syscall \<Rightarrow> sysret"

record os =
  trace :: "syscall list"
  errno :: int

definition sys :: "env \<Rightarrow> syscall \<Rightarrow> 'a os_scheme \<Rightarrow> sysret \<times> 'a os_scheme" where
  "sys env c w =
     (let r = env (trace w) c
      in (r, w\<lparr>trace := trace w @ [c], errno := if ret r < 0 then err r else errno w\<rparr>))"

definition sys_do :: "env \<Rightarrow> syscall \<Rightarrow> 'a os_scheme \<Rightarrow> 'a os_scheme" where
  "sys_do env c w = snd (sys env c w)"

definition EINTR :: int where "EINTR = 4"
definition EIO :: int where "EIO = 5"
definition EPERM :: int where "EPERM = 1"
definition EAGAIN :: int where "EAGAIN = 11"
definition EBADMSG :: int where "EBADMSG = 74"

definition LOG_ERR :: int where "LOG_ERR = 3"
definition LOG_WARNING :: int where "LOG_WARNING = 4"
definition LOG_INFO :: int where "LOG_INFO = 6"

definition SOCK_DGRAM :: int where "SOCK_DGRAM = 2"
definition O_NONBLOCK :: int where "O_NONBLOCK = 2048"

section \<open>What an operation adds to the trace\<close>

definition extends :: "'a os_scheme \<Rightarrow> 'b os_scheme \<Rightarrow> bool" where
  "extends w w' \<longleftrightarrow> (\<exists>cs. trace w' = trace w @ cs)"

definition calls_since :: "'a os_scheme \<Rightarrow> 'b os_scheme \<Rightarrow> syscall list" where
  "calls_since w w' = drop (length (trace w)) (trace w')"

lemma extends_refl [intro, simp]: "extends w w"
  by (simp add: extends_def)

lemma extends_trans [trans]: "extends u v \<Longrightarrow> extends v w \<Longrightarrow> extends u w"
  by (auto simp: extends_def)

lemma sys_trace [simp]:
  "trace (snd (sys env c w)) = trace w @ [c]" "trace (sys_do env c w) = trace w @ [c]"
  by (simp_all add: sys_def sys_do_def Let_def)

lemma sys_ret: "fst (sys env c w) = env (trace w) c"
  by (simp add: sys_def Let_def)

lemma sys_pair: "sys env c w = (r, w') \<Longrightarrow>
    r = env (trace w) c \<and> w' = sys_do env c w"
  by (auto simp: sys_def sys_do_def Let_def)

lemma sys_eq: "sys env c w = (env (trace w) c, sys_do env c w)"
  by (simp add: sys_def sys_do_def Let_def)

lemma sys_errno: "errno (sys_do env c w) = (if ret (env (trace w) c) < 0 then err (env (trace w) c) else errno w)"
  by (simp add: sys_def sys_do_def Let_def)

lemma sys_more [simp]: "os.more (sys_do env c w) = os.more w"
  by (simp add: sys_def sys_do_def Let_def)

lemma extends_sys [intro, simp]: "extends w (sys_do env c w)"
  by (simp add: extends_def)

lemma calls_since_self [simp]: "calls_since w w = []"
  by (simp add: calls_since_def)

lemma calls_since_sys [simp]: "calls_since w (sys_do env c w) = [c]"
  by (simp add: calls_since_def)

lemma calls_since_trans:
  "extends u v \<Longrightarrow> extends v w \<Longrightarrow> calls_since u w = calls_since u v @ calls_since v w"
  by (auto simp: extends_def calls_since_def)

end
