(* ===== verification/Udp.thy ===== *)
theory Udp
  imports Os
begin

text \<open>
  The UDP sockets (\<^verbatim>\<open>src/udp.c\<close>). \<open>udp_recv\<close> repeats a receive that a signal interrupted;
  the loop ends only if the system lets it, so its value is an option, and
  \<open>udp_recv_returns\<close> says when it is there.
\<close>

definition udp_open :: "env \<Rightarrow> sockaddr_storage \<Rightarrow> nat \<Rightarrow> 'a os_scheme \<Rightarrow> int \<times> 'a os_scheme" where
  "udp_open env adr addrlen w =
     (let (r, w) = sys env (Socket (ss_family adr) SOCK_DGRAM 0) w; fd = ret r in
      if fd < 0 then (-1, w)
      else
        let w = (if ss_family adr = AF_INET6 then sys_do env (Set_v6only fd) w else w);
            (r, w) = sys env (Fcntl_getfl fd) w; flags = ret r
        in if flags < 0 then (-1, sys_do env (Close fd) w)
           else
             let (r, w) = sys env (Fcntl_setfl fd (flags OR O_NONBLOCK)) w
             in if ret r < 0 then (-1, sys_do env (Close fd) w)
                else
                  let (r, w) = sys env (Bind fd (take addrlen adr)) w
                  in if ret r < 0 then (-1, sys_do env (Close fd) w) else (fd, w))"

text \<open>
  What a receive leaves behind: the return value, the buffer, the sender's address and its length
  (\<open>None\<close> for a null pointer, in which case the code offers the size of a storage).
\<close>

record recv_out =
  r_n :: int
  r_buf :: "byte list"
  r_src :: sockaddr_storage
  r_srclen :: "nat option"

partial_function (option) udp_recv ::
    "env \<Rightarrow> int \<Rightarrow> byte list \<Rightarrow> sockaddr_storage \<Rightarrow> nat option \<Rightarrow> 'a os_scheme \<Rightarrow> (recv_out \<times> 'a os_scheme) option" where
  "udp_recv env fd buf src src_len w =
     (let addrlen = (case src_len of Some n \<Rightarrow> n | None \<Rightarrow> 128);
          (r, w) = sys env (Recvfrom fd (length buf)) w
      in if 0 \<le> ret r
         then Some (\<lparr>r_n = ret r, r_buf = poke 0 (take (length buf) (data r)) buf,
                     r_src = poke 0 (take addrlen (peer r)) src,
                     r_srclen = map_option (\<lambda>_. length (peer r)) src_len\<rparr>, w)
         else if errno w \<noteq> EINTR
         then Some (\<lparr>r_n = -1, r_buf = buf, r_src = src, r_srclen = src_len\<rparr>, w)
         else udp_recv env fd buf src src_len w)"

section \<open>What they do\<close>

text \<open>A socket is handed out bound and non-blocking; on any failure after its creation it is closed.\<close>

lemma udp_open_trace:
  assumes "udp_open env adr addrlen w = (fd, w')"
  shows "fd = -1 \<or> 0 \<le> fd"
    and "0 \<le> fd \<Longrightarrow> \<exists>flags. Bind fd (take addrlen adr) \<in> set (calls_since w w')
      \<and> Fcntl_setfl fd (flags OR O_NONBLOCK) \<in> set (calls_since w w')
      \<and> Close fd \<notin> set (calls_since w w')"
    and "fd = -1 \<Longrightarrow> 0 \<le> ret (env (trace w) (Socket (ss_family adr) SOCK_DGRAM 0)) \<Longrightarrow>
      last (trace w') = Close (ret (env (trace w) (Socket (ss_family adr) SOCK_DGRAM 0)))"
  using assms
  by (auto simp: udp_open_def sys_eq Let_def calls_since_def split: if_splits)

text \<open>One attempt, and the world after a number of attempts.\<close>

definition interrupted :: "env \<Rightarrow> int \<Rightarrow> nat \<Rightarrow> 'a os_scheme \<Rightarrow> bool" where
  "interrupted env fd n w \<longleftrightarrow> (let r = env (trace w) (Recvfrom fd n) in ret r < 0 \<and> err r = EINTR)"

definition attempts :: "env \<Rightarrow> int \<Rightarrow> nat \<Rightarrow> nat \<Rightarrow> 'a os_scheme \<Rightarrow> 'a os_scheme" where
  "attempts env fd n k w = (sys_do env (Recvfrom fd n) ^^ k) w"

lemma attempts_0 [simp]: "attempts env fd n 0 w = w"
  by (simp add: attempts_def)

lemma attempts_Suc: "attempts env fd n (Suc k) w = attempts env fd n k (sys_do env (Recvfrom fd n) w)"
  by (simp add: attempts_def funpow_swap1)

lemma trace_attempts: "trace (attempts env fd n k w) = trace w @ replicate k (Recvfrom fd n)"
  by (induction k arbitrary: w) (simp_all add: attempts_def funpow_swap1 replicate_append_same)

lemma udp_recv_interrupted:
  assumes "interrupted env fd (length buf) w"
  shows "udp_recv env fd buf src src_len w = udp_recv env fd buf src src_len (sys_do env (Recvfrom fd (length buf)) w)"
  using assms by (subst udp_recv.simps) (simp add: sys_eq sys_errno interrupted_def Let_def)

text \<open>
  As soon as an attempt is not interrupted, the function returns, with the packet of that attempt
  or with -1 and nothing written.
\<close>

lemma udp_recv_returns:
  assumes "\<And>j. j < k \<Longrightarrow> interrupted env fd (length buf) (attempts env fd (length buf) j w)"
    and "\<not> interrupted env fd (length buf) (attempts env fd (length buf) k w)"
  shows "\<exists>r. udp_recv env fd buf src src_len w = Some (r, attempts env fd (length buf) (Suc k) w)
    \<and> (let a = env (trace w @ replicate k (Recvfrom fd (length buf))) (Recvfrom fd (length buf))
       in if 0 \<le> ret a
          then r_n r = ret a \<and> r_buf r = poke 0 (take (length buf) (data a)) buf
            \<and> r_src r = poke 0 (take (case src_len of Some n \<Rightarrow> n | None \<Rightarrow> 128) (peer a)) src
          else r_n r = -1 \<and> r_buf r = buf \<and> r_src r = src)"
  using assms
proof (induction k arbitrary: w)
  case 0
  then have n: "\<not> interrupted env fd (length buf) w" by (simp add: attempts_def)
  show ?case
    by (subst udp_recv.simps) (use n in \<open>auto simp: sys_eq sys_errno interrupted_def attempts_def Let_def\<close>)
next
  case (Suc k)
  let ?w = "sys_do env (Recvfrom fd (length buf)) w"
  have "interrupted env fd (length buf) w" using Suc.prems(1) [of 0] by (simp add: attempts_def)
  moreover have "interrupted env fd (length buf) (attempts env fd (length buf) j ?w)" if "j < k" for j
    using Suc.prems(1) [of "Suc j"] that by (simp add: attempts_Suc)
  moreover have "\<not> interrupted env fd (length buf) (attempts env fd (length buf) k ?w)"
    using Suc.prems(2) by (simp add: attempts_Suc)
  ultimately show ?case
    using Suc.IH [of ?w] by (simp add: udp_recv_interrupted attempts_Suc [of _ _ _ _ w])
qed

text \<open>If it returns, some attempt was the first that was not interrupted.\<close>

lemma udp_recv_stops:
  assumes "udp_recv env fd buf src src_len w = Some rw"
  shows "\<exists>k. (\<forall>j < k. interrupted env fd (length buf) (attempts env fd (length buf) j w))
    \<and> \<not> interrupted env fd (length buf) (attempts env fd (length buf) k w)"
proof (rule udp_recv.raw_induct [where P = "\<lambda>env fd buf src src_len (w :: 'a os_scheme) rw.
    \<exists>k. (\<forall>j < k. interrupted env fd (length buf) (attempts env fd (length buf) j w))
      \<and> \<not> interrupted env fd (length buf) (attempts env fd (length buf) k w)", OF _ assms])
  fix f env fd and buf :: "byte list" and src src_len and w :: "'a os_scheme" and rw
  let ?n = "length buf" and ?w = "sys_do env (Recvfrom fd (length buf)) w"
  assume IH: "\<And>env fd buf src src_len w rw. f env fd buf src src_len w = Some rw \<Longrightarrow>
      \<exists>k. (\<forall>j < k. interrupted env fd (length buf) (attempts env fd (length buf) j w))
        \<and> \<not> interrupted env fd (length buf) (attempts env fd (length buf) k w)"
    and eq: "(let addrlen = (case src_len of Some n \<Rightarrow> n | None \<Rightarrow> 128);
        (r, w) = sys env (Recvfrom fd (length buf)) w
    in if 0 \<le> ret r
       then Some (\<lparr>r_n = ret r, r_buf = poke 0 (take (length buf) (data r)) buf,
                   r_src = poke 0 (take addrlen (peer r)) src,
                   r_srclen = map_option (\<lambda>_. length (peer r)) src_len\<rparr>, w)
       else if errno w \<noteq> EINTR
       then Some (\<lparr>r_n = -1, r_buf = buf, r_src = src, r_srclen = src_len\<rparr>, w)
       else f env fd buf src src_len w) = Some rw"
  show "\<exists>k. (\<forall>j < k. interrupted env fd ?n (attempts env fd ?n j w)) \<and> \<not> interrupted env fd ?n (attempts env fd ?n k w)"
  proof (cases "interrupted env fd ?n w")
    case True
    then have "f env fd buf src src_len ?w = Some rw"
      using eq by (auto simp: sys_eq sys_errno interrupted_def Let_def)
    then obtain k where "\<forall>j < k. interrupted env fd ?n (attempts env fd ?n j ?w)" "\<not> interrupted env fd ?n (attempts env fd ?n k ?w)"
      using IH by blast
    then show ?thesis
      using True by (intro exI [of _ "Suc k"]) (auto simp: attempts_Suc less_Suc_eq_0_disj)
  next
    case False
    then show ?thesis by (intro exI [of _ 0]) (simp add: attempts_def)
  qed
qed

lemma udp_recv_result:
  assumes "udp_recv env fd buf src src_len w = Some (r, w')"
  shows "\<exists>k. w' = attempts env fd (length buf) (Suc k) w
    \<and> (let a = env (trace w @ replicate k (Recvfrom fd (length buf))) (Recvfrom fd (length buf))
       in if 0 \<le> ret a
          then r_n r = ret a \<and> r_buf r = poke 0 (take (length buf) (data a)) buf
            \<and> r_src r = poke 0 (take (case src_len of Some n \<Rightarrow> n | None \<Rightarrow> 128) (peer a)) src
          else r_n r = -1 \<and> r_buf r = buf \<and> r_src r = src)"
proof -
  obtain k where k: "\<And>j. j < k \<Longrightarrow> interrupted env fd (length buf) (attempts env fd (length buf) j w)"
    "\<not> interrupted env fd (length buf) (attempts env fd (length buf) k w)"
    using udp_recv_stops [OF assms] by blast
  show ?thesis
    using udp_recv_returns [where src = src and src_len = src_len, OF k] assms by (intro exI [of _ k]) auto
qed

end
