(* ===== verification/Nl_Message.thy ===== *)
theory Nl_Message
  imports Os
begin

text \<open>
  Building netlink messages (\<^verbatim>\<open>src/netlink.c\<close>, the message helpers and the expression
  builders). A message lives in a byte buffer at an offset, the pointer \<open>nlh\<close> of the code; its
  length is the first header field, read and written in place. Multi-byte fields have the byte
  order of the host, which is little-endian in this model.

  \<open>attr\<close> is the tree of attributes a message is meant to carry and \<open>enc_attr\<close> its encoding.
  \<open>appends op bs\<close> states that a builder, whatever the message holds so far, appends exactly
  the bytes \<open>bs\<close>, updates the length and touches nothing before the message; one rule per
  helper and two for sequencing and nesting give it for every expression of the code.

  The constants are those of the kernel's interface headers.
\<close>

section \<open>Constants of the interface\<close>

definition NLA_F_NESTED :: u16 where "NLA_F_NESTED = 0x8000"
definition NLM_F_REQUEST :: u16 where "NLM_F_REQUEST = 1"
definition NLM_F_ACK :: u16 where "NLM_F_ACK = 4"
definition NLM_F_CREATE :: u16 where "NLM_F_CREATE = 0x400"
definition NLM_F_APPEND :: u16 where "NLM_F_APPEND = 0x800"
definition NFNL_SUBSYS_NFTABLES :: u16 where "NFNL_SUBSYS_NFTABLES = 10"
definition NFNL_MSG_BATCH_BEGIN :: u16 where "NFNL_MSG_BATCH_BEGIN = 16"
definition NFNL_MSG_BATCH_END :: u16 where "NFNL_MSG_BATCH_END = 17"
definition NFT_MSG_NEWTABLE :: u16 where "NFT_MSG_NEWTABLE = 0"
definition NFT_MSG_DELTABLE :: u16 where "NFT_MSG_DELTABLE = 2"
definition NFT_MSG_NEWCHAIN :: u16 where "NFT_MSG_NEWCHAIN = 3"
definition NFT_MSG_NEWRULE :: u16 where "NFT_MSG_NEWRULE = 6"
definition NFT_MSG_DELRULE :: u16 where "NFT_MSG_DELRULE = 8"

definition NFTA_LIST_ELEM :: u16 where "NFTA_LIST_ELEM = 1"
definition NFTA_EXPR_NAME :: u16 where "NFTA_EXPR_NAME = 1"
definition NFTA_EXPR_DATA :: u16 where "NFTA_EXPR_DATA = 2"
definition NFTA_DATA_VALUE :: u16 where "NFTA_DATA_VALUE = 1"
definition NFTA_DATA_VERDICT :: u16 where "NFTA_DATA_VERDICT = 2"
definition NFTA_VERDICT_CODE :: u16 where "NFTA_VERDICT_CODE = 1"
definition NFTA_VERDICT_CHAIN :: u16 where "NFTA_VERDICT_CHAIN = 2"
definition NFTA_IMMEDIATE_DREG :: u16 where "NFTA_IMMEDIATE_DREG = 1"
definition NFTA_IMMEDIATE_DATA :: u16 where "NFTA_IMMEDIATE_DATA = 2"
definition NFTA_PAYLOAD_DREG :: u16 where "NFTA_PAYLOAD_DREG = 1"
definition NFTA_PAYLOAD_BASE :: u16 where "NFTA_PAYLOAD_BASE = 2"
definition NFTA_PAYLOAD_OFFSET :: u16 where "NFTA_PAYLOAD_OFFSET = 3"
definition NFTA_PAYLOAD_LEN :: u16 where "NFTA_PAYLOAD_LEN = 4"
definition NFTA_CMP_SREG :: u16 where "NFTA_CMP_SREG = 1"
definition NFTA_CMP_OP :: u16 where "NFTA_CMP_OP = 2"
definition NFTA_CMP_DATA :: u16 where "NFTA_CMP_DATA = 3"
definition NFTA_META_DREG :: u16 where "NFTA_META_DREG = 1"
definition NFTA_META_KEY :: u16 where "NFTA_META_KEY = 2"
definition NFTA_CT_DREG :: u16 where "NFTA_CT_DREG = 1"
definition NFTA_CT_KEY :: u16 where "NFTA_CT_KEY = 2"
definition NFTA_BITWISE_SREG :: u16 where "NFTA_BITWISE_SREG = 1"
definition NFTA_BITWISE_DREG :: u16 where "NFTA_BITWISE_DREG = 2"
definition NFTA_BITWISE_LEN :: u16 where "NFTA_BITWISE_LEN = 3"
definition NFTA_BITWISE_MASK :: u16 where "NFTA_BITWISE_MASK = 4"
definition NFTA_BITWISE_XOR :: u16 where "NFTA_BITWISE_XOR = 5"
definition NFTA_BITWISE_OP :: u16 where "NFTA_BITWISE_OP = 6"
definition NFTA_TABLE_NAME :: u16 where "NFTA_TABLE_NAME = 1"
definition NFTA_TABLE_FLAGS :: u16 where "NFTA_TABLE_FLAGS = 2"
definition NFTA_CHAIN_TABLE :: u16 where "NFTA_CHAIN_TABLE = 1"
definition NFTA_CHAIN_NAME :: u16 where "NFTA_CHAIN_NAME = 3"
definition NFTA_CHAIN_HOOK :: u16 where "NFTA_CHAIN_HOOK = 4"
definition NFTA_CHAIN_POLICY :: u16 where "NFTA_CHAIN_POLICY = 5"
definition NFTA_CHAIN_TYPE :: u16 where "NFTA_CHAIN_TYPE = 7"
definition NFTA_CHAIN_FLAGS :: u16 where "NFTA_CHAIN_FLAGS = 10"
definition NFTA_HOOK_HOOKNUM :: u16 where "NFTA_HOOK_HOOKNUM = 1"
definition NFTA_HOOK_PRIORITY :: u16 where "NFTA_HOOK_PRIORITY = 2"
definition NFTA_RULE_TABLE :: u16 where "NFTA_RULE_TABLE = 1"
definition NFTA_RULE_CHAIN :: u16 where "NFTA_RULE_CHAIN = 2"
definition NFTA_RULE_HANDLE :: u16 where "NFTA_RULE_HANDLE = 3"
definition NFTA_RULE_EXPRESSIONS :: u16 where "NFTA_RULE_EXPRESSIONS = 4"

definition NFT_REG_VERDICT :: u32 where "NFT_REG_VERDICT = 0"
definition NFT_REG32_00 :: u32 where "NFT_REG32_00 = 8"
definition NFT_CMP_EQ :: u32 where "NFT_CMP_EQ = 0"
definition NFT_CMP_NEQ :: u32 where "NFT_CMP_NEQ = 1"
definition NFT_META_IIFNAME :: u32 where "NFT_META_IIFNAME = 6"
definition NFT_META_L4PROTO :: u32 where "NFT_META_L4PROTO = 16"
definition NFT_CT_STATE :: u32 where "NFT_CT_STATE = 0"
definition NFT_BITWISE_MASK_XOR :: u32 where "NFT_BITWISE_MASK_XOR = 0"
definition NFT_PAYLOAD_NETWORK_HEADER :: u32 where "NFT_PAYLOAD_NETWORK_HEADER = 1"
definition NFT_PAYLOAD_TRANSPORT_HEADER :: u32 where "NFT_PAYLOAD_TRANSPORT_HEADER = 2"
definition NFT_CHAIN_BASE :: u32 where "NFT_CHAIN_BASE = 1"
definition NF_DROP :: u32 where "NF_DROP = 0"
definition NF_ACCEPT :: u32 where "NF_ACCEPT = 1"
definition NFT_JUMP :: u32 where "NFT_JUMP = -3"

section \<open>Byte order\<close>

definition bs16 :: "u16 \<Rightarrow> u16" where
  "bs16 x = push_bit 8 x OR drop_bit 8 x"

definition bs32 :: "u32 \<Rightarrow> u32" where
  "bs32 x = push_bit 24 x OR push_bit 8 (x AND 0xff00) OR (drop_bit 8 x AND 0xff00) OR drop_bit 24 x"

definition bs64 :: "u64 \<Rightarrow> u64" where
  "bs64 x = push_bit 32 (ucast (bs32 (ucast x))) OR ucast (bs32 (ucast (drop_bit 32 x)))"

definition le64_bytes :: "u64 \<Rightarrow> byte list" where
  "le64_bytes w = map (\<lambda>i. ucast (drop_bit (i * 8) w)) [0..<8]"

section \<open>Fields\<close>

type_synonym nlbuf = "byte list"

definition rd32 :: "nat \<Rightarrow> nlbuf \<Rightarrow> u32" where
  "rd32 i b = le32_word (b ! i) (b ! (i + 1)) (b ! (i + 2)) (b ! (i + 3))"

definition rd16 :: "nat \<Rightarrow> nlbuf \<Rightarrow> u16" where
  "rd16 i b = le16_word (b ! i) (b ! (i + 1))"

definition wr32 :: "nat \<Rightarrow> u32 \<Rightarrow> nlbuf \<Rightarrow> nlbuf" where
  "wr32 i v b = poke i (le32_bytes v) b"

definition wr16 :: "nat \<Rightarrow> u16 \<Rightarrow> nlbuf \<Rightarrow> nlbuf" where
  "wr16 i v b = poke i (le16_bytes v) b"

definition wr8 :: "nat \<Rightarrow> byte \<Rightarrow> nlbuf \<Rightarrow> nlbuf" where
  "wr8 i v b = poke i [v] b"

definition nlmsg_len :: "nat \<Rightarrow> nlbuf \<Rightarrow> nat" where
  "nlmsg_len nlh b = unat (rd32 nlh b)"

text \<open>\<open>NLMSG_ALIGN\<close> and \<open>NLA_ALIGN\<close>: up to a multiple of four.\<close>

definition align4 :: "nat \<Rightarrow> nat" where
  "align4 n = (n + 3) div 4 * 4"

section \<open>Message helpers\<close>

definition msg_set :: "nat \<Rightarrow> u16 \<Rightarrow> u16 \<Rightarrow> byte \<Rightarrow> nlbuf \<Rightarrow> nlbuf" where
  "msg_set nlh type flags fam b =
     (let b = wr16 (nlh + 4) (push_bit 8 NFNL_SUBSYS_NFTABLES OR type) b;
          b = wr16 (nlh + 6) flags b;
          b = wr8 (nlh + 16) fam b;
          b = wr8 (nlh + 17) 0 b
      in wr16 (nlh + 18) 0 b)"

definition put_attr :: "nat \<Rightarrow> u16 \<Rightarrow> u16 \<Rightarrow> byte list \<Rightarrow> nlbuf \<Rightarrow> nlbuf" where
  "put_attr nlh type plen bytes b =
     (let total = 4 + plen;
          pad = align4 (unat total) - unat total;
          nla = nlh + align4 (nlmsg_len nlh b);
          b = wr16 nla total b;
          b = wr16 (nla + 2) type b;
          b = (if 0 < plen then poke (nla + 4) (take (unat plen) bytes) b else b);
          len = align4 (nlmsg_len nlh b) + align4 (unat total);
          b = wr32 nlh (of_nat len) b
      in if 0 < pad then poke (nlh + nlmsg_len nlh b - pad) (replicate pad 0) b else b)"

definition begin_nest :: "nat \<Rightarrow> u16 \<Rightarrow> nlbuf \<Rightarrow> nat \<times> nlbuf" where
  "begin_nest nlh type b =
     (let nla = nlh + align4 (nlmsg_len nlh b);
          b = wr16 nla 0 b;
          b = wr16 (nla + 2) (type OR NLA_F_NESTED) b;
          b = wr32 nlh (of_nat (align4 (nlmsg_len nlh b) + 4)) b
      in (nla, b))"

definition end_nest :: "nat \<Rightarrow> nat \<Rightarrow> nlbuf \<Rightarrow> nlbuf" where
  "end_nest nlh nla b = wr16 nla (of_nat (nlh + nlmsg_len nlh b - nla)) b"

definition cstr :: "string \<Rightarrow> byte list" where
  "cstr s = bytes_of_string s @ [0]"

definition put_str :: "nat \<Rightarrow> u16 \<Rightarrow> string \<Rightarrow> nlbuf \<Rightarrow> nlbuf" where
  "put_str nlh type s b = put_attr nlh type (of_nat (length s + 1)) (cstr s) b"

definition put_be32 :: "nat \<Rightarrow> u16 \<Rightarrow> u32 \<Rightarrow> nlbuf \<Rightarrow> nlbuf" where
  "put_be32 nlh type val b = put_attr nlh type 4 (le32_bytes (bs32 val)) b"

definition put_be64 :: "nat \<Rightarrow> u16 \<Rightarrow> u64 \<Rightarrow> nlbuf \<Rightarrow> nlbuf" where
  "put_be64 nlh type val b = put_attr nlh type 8 (le64_bytes (bs64 val)) b"

section \<open>Expression builders\<close>

definition add_expr_immediate_verdict :: "nat \<Rightarrow> u32 \<Rightarrow> nlbuf \<Rightarrow> nlbuf" where
  "add_expr_immediate_verdict nlh verdict b =
     (let (expr, b) = begin_nest nlh NFTA_LIST_ELEM b;
          b = put_str nlh NFTA_EXPR_NAME ''immediate'' b;
          (edata, b) = begin_nest nlh NFTA_EXPR_DATA b;
          b = put_be32 nlh NFTA_IMMEDIATE_DREG NFT_REG_VERDICT b;
          (vd, b) = begin_nest nlh NFTA_IMMEDIATE_DATA b;
          (vd2, b) = begin_nest nlh NFTA_DATA_VERDICT b;
          b = put_be32 nlh NFTA_VERDICT_CODE verdict b;
          b = end_nest nlh vd2 b;
          b = end_nest nlh vd b;
          b = end_nest nlh edata b
      in end_nest nlh expr b)"

definition add_expr_immediate_verdict_chain :: "nat \<Rightarrow> u32 \<Rightarrow> string \<Rightarrow> nlbuf \<Rightarrow> nlbuf" where
  "add_expr_immediate_verdict_chain nlh verdict chain b =
     (let (expr, b) = begin_nest nlh NFTA_LIST_ELEM b;
          b = put_str nlh NFTA_EXPR_NAME ''immediate'' b;
          (edata, b) = begin_nest nlh NFTA_EXPR_DATA b;
          b = put_be32 nlh NFTA_IMMEDIATE_DREG NFT_REG_VERDICT b;
          (vd, b) = begin_nest nlh NFTA_IMMEDIATE_DATA b;
          (vd2, b) = begin_nest nlh NFTA_DATA_VERDICT b;
          b = put_be32 nlh NFTA_VERDICT_CODE verdict b;
          b = put_str nlh NFTA_VERDICT_CHAIN chain b;
          b = end_nest nlh vd2 b;
          b = end_nest nlh vd b;
          b = end_nest nlh edata b
      in end_nest nlh expr b)"

definition add_expr_payload_load :: "nat \<Rightarrow> u32 \<Rightarrow> u32 \<Rightarrow> u32 \<Rightarrow> u32 \<Rightarrow> nlbuf \<Rightarrow> nlbuf" where
  "add_expr_payload_load nlh base offset len dreg b =
     (let (expr, b) = begin_nest nlh NFTA_LIST_ELEM b;
          b = put_str nlh NFTA_EXPR_NAME ''payload'' b;
          (edata, b) = begin_nest nlh NFTA_EXPR_DATA b;
          b = put_be32 nlh NFTA_PAYLOAD_DREG dreg b;
          b = put_be32 nlh NFTA_PAYLOAD_BASE base b;
          b = put_be32 nlh NFTA_PAYLOAD_OFFSET offset b;
          b = put_be32 nlh NFTA_PAYLOAD_LEN len b;
          b = end_nest nlh edata b
      in end_nest nlh expr b)"

definition add_expr_cmp :: "nat \<Rightarrow> u32 \<Rightarrow> u32 \<Rightarrow> byte list \<Rightarrow> u32 \<Rightarrow> nlbuf \<Rightarrow> nlbuf" where
  "add_expr_cmp nlh sreg op bytes dlen b =
     (let (expr, b) = begin_nest nlh NFTA_LIST_ELEM b;
          b = put_str nlh NFTA_EXPR_NAME ''cmp'' b;
          (edata, b) = begin_nest nlh NFTA_EXPR_DATA b;
          b = put_be32 nlh NFTA_CMP_SREG sreg b;
          b = put_be32 nlh NFTA_CMP_OP op b;
          (vd, b) = begin_nest nlh NFTA_CMP_DATA b;
          b = put_attr nlh NFTA_DATA_VALUE (ucast dlen) bytes b;
          b = end_nest nlh vd b;
          b = end_nest nlh edata b
      in end_nest nlh expr b)"

definition add_expr_meta_l4proto :: "nat \<Rightarrow> u32 \<Rightarrow> nlbuf \<Rightarrow> nlbuf" where
  "add_expr_meta_l4proto nlh dreg b =
     (let (expr, b) = begin_nest nlh NFTA_LIST_ELEM b;
          b = put_str nlh NFTA_EXPR_NAME ''meta'' b;
          (edata, b) = begin_nest nlh NFTA_EXPR_DATA b;
          b = put_be32 nlh NFTA_META_DREG dreg b;
          b = put_be32 nlh NFTA_META_KEY NFT_META_L4PROTO b;
          b = end_nest nlh edata b
      in end_nest nlh expr b)"

definition add_expr_meta_iifname :: "nat \<Rightarrow> u32 \<Rightarrow> nlbuf \<Rightarrow> nlbuf" where
  "add_expr_meta_iifname nlh dreg b =
     (let (expr, b) = begin_nest nlh NFTA_LIST_ELEM b;
          b = put_str nlh NFTA_EXPR_NAME ''meta'' b;
          (edata, b) = begin_nest nlh NFTA_EXPR_DATA b;
          b = put_be32 nlh NFTA_META_DREG dreg b;
          b = put_be32 nlh NFTA_META_KEY NFT_META_IIFNAME b;
          b = end_nest nlh edata b
      in end_nest nlh expr b)"

definition add_expr_ct_state :: "nat \<Rightarrow> u32 \<Rightarrow> nlbuf \<Rightarrow> nlbuf" where
  "add_expr_ct_state nlh dreg b =
     (let (expr, b) = begin_nest nlh NFTA_LIST_ELEM b;
          b = put_str nlh NFTA_EXPR_NAME ''ct'' b;
          (edata, b) = begin_nest nlh NFTA_EXPR_DATA b;
          b = put_be32 nlh NFTA_CT_DREG dreg b;
          b = put_be32 nlh NFTA_CT_KEY NFT_CT_STATE b;
          b = end_nest nlh edata b
      in end_nest nlh expr b)"

record bitwise_regs =
  sreg :: u32
  dreg :: u32

definition add_expr_bitwise :: "nat \<Rightarrow> bitwise_regs \<Rightarrow> u32 \<Rightarrow> byte list \<Rightarrow> byte list \<Rightarrow> nlbuf \<Rightarrow> nlbuf" where
  "add_expr_bitwise nlh regs len mask_bytes xor_bytes b =
     (let (expr, b) = begin_nest nlh NFTA_LIST_ELEM b;
          b = put_str nlh NFTA_EXPR_NAME ''bitwise'' b;
          (edata, b) = begin_nest nlh NFTA_EXPR_DATA b;
          b = put_be32 nlh NFTA_BITWISE_SREG (sreg regs) b;
          b = put_be32 nlh NFTA_BITWISE_DREG (dreg regs) b;
          b = put_be32 nlh NFTA_BITWISE_LEN len b;
          b = put_be32 nlh NFTA_BITWISE_OP NFT_BITWISE_MASK_XOR b;
          (m, b) = begin_nest nlh NFTA_BITWISE_MASK b;
          b = put_attr nlh NFTA_DATA_VALUE (ucast len) mask_bytes b;
          b = end_nest nlh m b;
          (x, b) = begin_nest nlh NFTA_BITWISE_XOR b;
          b = put_attr nlh NFTA_DATA_VALUE (ucast len) xor_bytes b;
          b = end_nest nlh x b;
          b = end_nest nlh edata b
      in end_nest nlh expr b)"

text \<open>The interface name; \<open>None\<close> is the null pointer.\<close>

definition maybe_add_iifname :: "nat \<Rightarrow> string option \<Rightarrow> nlbuf \<Rightarrow> nlbuf" where
  "maybe_add_iifname nlh iface b =
     (case iface of
        None \<Rightarrow> b
      | Some s \<Rightarrow>
          if s = [] then b
          else add_expr_cmp nlh NFT_REG32_00 NFT_CMP_EQ (cstr s) (of_nat (length s) + 1)
                 (add_expr_meta_iifname nlh NFT_REG32_00 b))"

section \<open>Attribute trees\<close>

datatype attr = Leaf u16 "byte list" | Nest u16 "attr list"

fun enc_attr :: "attr \<Rightarrow> byte list" where
  "enc_attr (Leaf type d) =
     le16_bytes (of_nat (4 + length d)) @ le16_bytes type @ d
       @ replicate (align4 (4 + length d) - (4 + length d)) 0"
| "enc_attr (Nest type as) =
     (let bs = concat (map enc_attr as)
      in le16_bytes (of_nat (4 + length bs)) @ le16_bytes (type OR NLA_F_NESTED) @ bs)"

definition enc_attrs :: "attr list \<Rightarrow> byte list" where
  "enc_attrs as = concat (map enc_attr as)"

lemma enc_attrs_simps [simp]:
  "enc_attrs [] = []" "enc_attrs (a # as) = enc_attr a @ enc_attrs as"
  "enc_attrs (as @ bs) = enc_attrs as @ enc_attrs bs"
  by (simp_all add: enc_attrs_def)

lemma align4_ge: "n \<le> align4 n"
  unfolding align4_def by presburger

lemma align4_mult: "align4 n mod 4 = 0"
  by (simp add: align4_def)

lemma align4_id [simp]: "n mod 4 = 0 \<Longrightarrow> align4 n = n"
  unfolding align4_def by presburger

lemma align4_less: "align4 n < n + 4"
  unfolding align4_def by presburger

lemma length_enc_Leaf [simp]: "length (enc_attr (Leaf type d)) = align4 (4 + length d)"
  using align4_ge [of "4 + length d"] by simp

lemma length_enc_Nest [simp]: "length (enc_attr (Nest type as)) = 4 + length (enc_attrs as)"
  by (simp add: Let_def enc_attrs_def)

lemma enc_attrs_mult: "length (enc_attrs as) mod 4 = 0"
proof (induction as)
  case (Cons a as)
  have "length (enc_attr a) mod 4 = 0"
  proof (induction a)
    case (Leaf type d)
    then show ?case by (simp add: align4_mult del: enc_attr.simps)
  next
    case (Nest type bs)
    have "length (enc_attrs bs) mod 4 = 0"
      using Nest by (induction bs) (auto simp: mod_add_eq [symmetric])
    then show ?case by (simp add: mod_add_eq [symmetric] del: enc_attr.simps)
  qed
  then show ?case using Cons by (simp add: mod_add_eq [symmetric])
qed simp

section \<open>A message in a buffer\<close>

text \<open>
  At offset \<open>nlh\<close> the buffer holds a message with the given bytes after the length field (the rest
  of the header) and the given attributes, and the length field counts them.
\<close>

definition msg_at :: "nat \<Rightarrow> byte list \<Rightarrow> byte list \<Rightarrow> nlbuf \<Rightarrow> bool" where
  "msg_at nlh hdr body b \<longleftrightarrow> length hdr = 16 \<and> length body mod 4 = 0
     \<and> nlh + 20 + length body \<le> length b \<and> length body < 2 ^ 15
     \<and> take (20 + length body) (drop nlh b) = le32_bytes (of_nat (20 + length body)) @ hdr @ body"

definition appends :: "(nat \<Rightarrow> nlbuf \<Rightarrow> nlbuf) \<Rightarrow> byte list \<Rightarrow> bool" where
  "appends op bs \<longleftrightarrow> (\<forall>nlh hdr body b.
     msg_at nlh hdr body b \<and> nlh + 20 + length body + length bs \<le> length b \<and> length body + length bs < 2 ^ 15
     \<longrightarrow> msg_at nlh hdr (body @ bs) (op nlh b) \<and> length (op nlh b) = length b \<and> take nlh (op nlh b) = take nlh b)"

lemma msg_at_split:
  assumes "msg_at nlh hdr body b"
  shows "b = take nlh b @ le32_bytes (of_nat (20 + length body)) @ hdr @ body @ drop (nlh + 20 + length body) b"
proof -
  have "b = take nlh b @ take (20 + length body) (drop nlh b) @ drop (20 + length body) (drop nlh b)"
    by (simp only: append_take_drop_id)
  also have "take (20 + length body) (drop nlh b) = le32_bytes (of_nat (20 + length body)) @ hdr @ body"
    using assms by (simp add: msg_at_def)
  finally show ?thesis by (simp add: add.commute add.left_commute)
qed

lemma msg_atI:
  assumes "b = pre @ le32_bytes (of_nat (20 + length body)) @ hdr @ body @ post"
    and "length pre = nlh" "length hdr = 16" "length body mod 4 = 0" "length body < 2 ^ 15"
  shows "msg_at nlh hdr body b"
  using assms by (simp add: msg_at_def)

lemma rd32_at: "rd32 (length pre) (pre @ le32_bytes v @ post) = v"
  by (simp add: rd32_def le32_bytes_def nth_append byte_simps)

lemma nlmsg_len_split:
  assumes "length pre = nlh" and "n < 2 ^ 32"
  shows "nlmsg_len nlh (pre @ le32_bytes (of_nat n) @ post) = n"
proof -
  have "rd32 nlh (pre @ le32_bytes (of_nat n) @ post) = of_nat n"
    using rd32_at [of pre "of_nat n" post] assms(1) by blast
  then show ?thesis using assms(2) by (simp add: nlmsg_len_def unat_of_nat)
qed

lemma nlmsg_len_at:
  assumes "msg_at nlh hdr body b"
  shows "nlmsg_len nlh b = 20 + length body"
proof -
  have len: "length (take nlh b) = nlh" "20 + length body < 2 ^ 32" using assms by (simp_all add: msg_at_def)
  show ?thesis
    by (subst msg_at_split [OF assms]) (rule nlmsg_len_split [OF len])
qed

text \<open>A write right after a known prefix.\<close>

lemma poke_at: "length pre = i \<Longrightarrow> poke i xs (pre @ r) = pre @ xs @ drop (length xs) r"
  by (simp add: poke_def)

lemma wr32_at: "length pre = i \<Longrightarrow> wr32 i v (pre @ r) = pre @ le32_bytes v @ drop 4 r"
  by (simp add: wr32_def poke_at)

lemma wr16_pair:
  "length pre = i \<Longrightarrow> wr16 (i + 2) w (wr16 i v (pre @ r)) = pre @ (le16_bytes v @ le16_bytes w) @ drop 4 r"
  by (simp add: wr16_def poke_def)

text \<open>
  The common shape: bytes are written from the end of the message on, then the length field is
  rewritten to count them.
\<close>

lemma msg_at_grow:
  assumes m: "msg_at nlh hdr body b" and "nlh + 20 + length body + length bs \<le> length b"
    and "length body + length bs < 2 ^ 15" and "length bs mod 4 = 0"
    and b': "b' = take (nlh + 20 + length body) b @ bs @ drop (nlh + 20 + length body + length bs) b"
    and b'': "b'' = wr32 nlh (of_nat (20 + length body + length bs)) b'"
  shows "nlmsg_len nlh b' = 20 + length body" "msg_at nlh hdr (body @ bs) b''"
    "length b'' = length b" "take nlh b'' = take nlh b"
proof -
  define post where "post = drop (nlh + 20 + length body + length bs) b"
  have pre: "length (take nlh b) = nlh" using m by (simp add: msg_at_def)
  have "take (nlh + 20 + length body) b = take nlh b @ take (20 + length body) (drop nlh b)"
    by (simp add: take_add add.assoc)
  then have b1: "b' = take nlh b @ le32_bytes (of_nat (20 + length body)) @ hdr @ body @ bs @ post"
    using m by (simp add: b' post_def msg_at_def)
  show "nlmsg_len nlh b' = 20 + length body"
    unfolding b1 using pre assms(3) by (intro nlmsg_len_split) auto
  have b2: "b'' = take nlh b @ le32_bytes (of_nat (20 + length (body @ bs))) @ hdr @ (body @ bs) @ post"
    using pre by (simp add: b'' b1 wr32_at add.assoc)
  show "msg_at nlh hdr (body @ bs) b''"
    by (rule msg_atI [OF b2 pre]) (use m assms(3,4) in \<open>auto simp: msg_at_def\<close>)
  show "length b'' = length b" "take nlh b'' = take nlh b"
    using m assms(2) pre unfolding b2 by (simp_all add: post_def msg_at_def)
qed

lemma mod4_header: "msg_at nlh hdr body b \<Longrightarrow> align4 (20 + length body) = 20 + length body"
  by (rule align4_id) (auto simp: msg_at_def)

lemma begin_nest_msg:
  assumes m: "msg_at nlh hdr body b" and "nlh + 20 + length body + 4 \<le> length b" and "length body + 4 < 2 ^ 15"
  shows "fst (begin_nest nlh type b) = nlh + 20 + length body"
    and "msg_at nlh hdr (body @ le16_bytes 0 @ le16_bytes (type OR NLA_F_NESTED)) (snd (begin_nest nlh type b))"
    and "length (snd (begin_nest nlh type b)) = length b"
    and "take nlh (snd (begin_nest nlh type b)) = take nlh b"
proof -
  define i where "i = nlh + 20 + length body"
  define ty where "ty = type OR NLA_F_NESTED"
  define b' where "b' = wr16 (i + 2) ty (wr16 i 0 b)"
  have i: "length (take i b) = i" using assms(2) by (simp add: i_def)
  have b'_eq: "b' = take i b @ (le16_bytes 0 @ le16_bytes ty) @ drop (i + 4) b"
    using wr16_pair [OF i, of ty 0 "drop i b"] by (simp add: b'_def add.commute)
  note g = msg_at_grow [OF m, of "le16_bytes 0 @ le16_bytes ty" b', OF _ _ _ _ refl]
  have res: "begin_nest nlh type b = (i, wr32 nlh (of_nat (20 + length body + 4)) b')"
    using g(1) b'_eq assms
    by (simp add: begin_nest_def Let_def nlmsg_len_at [OF m] mod4_header [OF m] ty_def b'_def i_def add.assoc)
  show "fst (begin_nest nlh type b) = nlh + 20 + length body" by (simp add: res i_def)
  show "msg_at nlh hdr (body @ le16_bytes 0 @ le16_bytes (type OR NLA_F_NESTED)) (snd (begin_nest nlh type b))"
    "length (snd (begin_nest nlh type b)) = length b" "take nlh (snd (begin_nest nlh type b)) = take nlh b"
    using g(2-4) b'_eq assms by (simp_all add: res i_def ty_def add.assoc)
qed

text \<open>Overwriting a part of the attributes.\<close>

lemma msg_at_patch:
  assumes m: "msg_at nlh hdr (x @ old @ y) b" and "length new = length old" and i: "i = nlh + 20 + length x"
  shows "msg_at nlh hdr (x @ new @ y) (poke i new b)" "length (poke i new b) = length b"
    "take nlh (poke i new b) = take nlh b"
proof -
  define post where "post = drop (nlh + 20 + length (x @ old @ y)) b"
  have pre: "length (take nlh b) = nlh" "length hdr = 16" using m by (simp_all add: msg_at_def)
  have b: "b = take nlh b @ le32_bytes (of_nat (20 + length (x @ old @ y))) @ hdr @ (x @ old @ y) @ post"
    unfolding post_def by (rule msg_at_split [OF m])
  have "poke i new b = (take nlh b @ le32_bytes (of_nat (20 + length (x @ old @ y))) @ hdr @ x)
      @ new @ drop (length new) (old @ y @ post)"
    by (subst b, subst poke_at [symmetric]) (use pre i in simp_all)
  then have b': "poke i new b = take nlh b @ le32_bytes (of_nat (20 + length (x @ new @ y))) @ hdr @ (x @ new @ y) @ post"
    using assms(2) by simp
  show "msg_at nlh hdr (x @ new @ y) (poke i new b)"
    by (rule msg_atI [OF b' pre]) (use m assms(2) in \<open>auto simp: msg_at_def\<close>)
  show "length (poke i new b) = length b" "take nlh (poke i new b) = take nlh b"
    using assms pre by (auto simp: msg_at_def poke_def)
qed

lemma put_attr_appends:
  assumes "length d = unat plen" and "unat plen < 2 ^ 15"
  shows "appends (\<lambda>nlh. put_attr nlh type plen d) (enc_attr (Leaf type d))"
  unfolding appends_def
proof (intro allI impI, elim conjE)
  fix nlh hdr body b
  assume m: "msg_at nlh hdr body b"
    and room: "nlh + 20 + length body + length (enc_attr (Leaf type d)) \<le> length b"
    and small: "length body + length (enc_attr (Leaf type d)) < 2 ^ 15"
  define i where "i = nlh + 20 + length body"
  define tot where "tot = 4 + length d"
  define pad where "pad = align4 tot - tot"
  define old where "old = take pad (drop (i + tot) b)"
  define head where "head = le16_bytes (of_nat tot) @ le16_bytes type @ d"
  have total: "4 + plen = of_nat tot" "unat (4 + plen) = tot"
    using assms by (auto simp: tot_def unat_word_ariths)
  have A: "length (enc_attr (Leaf type d)) = align4 tot" "tot + pad = align4 tot"
    using align4_ge [of tot] by (simp_all add: tot_def pad_def del: enc_attr.simps)
  have i: "length (take i b) = i" and old: "length old = pad" and head: "length head = tot"
    using room A by (auto simp: i_def old_def head_def tot_def)
  define b1 where "b1 = wr16 (i + 2) type (wr16 i (of_nat tot) b)"
  define b2 where "b2 = (if 0 < plen then poke (i + 4) d b1 else b1)"
  define b3 where "b3 = wr32 nlh (of_nat (20 + length body + align4 tot)) b2"
  have b1: "b1 = (take i b @ le16_bytes (of_nat tot) @ le16_bytes type) @ drop (i + 4) b"
    using wr16_pair [OF i, of type "of_nat tot" "drop i b"] by (simp add: b1_def add.commute)
  have "b2 = (take i b @ le16_bytes (of_nat tot) @ le16_bytes type) @ d @ drop (length d) (drop (i + 4) b)"
  proof (cases "0 < plen")
    case True
    then show ?thesis unfolding b2_def b1 using i by (subst poke_at) simp_all
  next
    case False
    then have "d = []" using assms(1) by (simp add: word_less_nat_alt)
    then show ?thesis using False by (simp add: b2_def b1)
  qed
  then have b2: "b2 = take i b @ (head @ old) @ drop (i + align4 tot) b"
    using append_take_drop_id [of pad "drop (i + tot) b"] A(2)
    by (simp add: head_def tot_def old_def add.commute add.left_commute)
  have lens: "length (head @ old) = align4 tot" using A head old by simp
  note g = msg_at_grow [OF m _ _ _ b2 [unfolded i_def, folded lens], of b3]
  have gs: "nlmsg_len nlh b2 = 20 + length body" "msg_at nlh hdr (body @ head @ old) b3"
    "length b3 = length b" "take nlh b3 = take nlh b"
    using g room small A head old by (simp_all add: b3_def align4_mult)
  have l3: "nlmsg_len nlh b3 = 20 + length body + align4 tot"
    using nlmsg_len_at [OF gs(2)] A head old by simp
  have nla: "nlh + align4 (nlmsg_len nlh b) = i" and data: "take (unat plen) d = d"
    using nlmsg_len_at [OF m] mod4_header [OF m] assms(1) by (simp_all add: i_def)
  have "put_attr nlh type plen d b = (if 0 < pad then poke (nlh + nlmsg_len nlh b3 - pad) (replicate pad 0) b3 else b3)"
    unfolding put_attr_def Let_def total(2) nla
    unfolding total(1) data b1_def [symmetric] b2_def [symmetric] gs(1) mod4_header [OF m]
      b3_def [symmetric] pad_def [symmetric] ..
  moreover have "nlh + nlmsg_len nlh b3 - pad = nlh + 20 + length (body @ head)"
    using l3 A(2) head by simp
  ultimately have res: "put_attr nlh type plen d b = poke (nlh + 20 + length (body @ head)) (replicate pad 0) b3"
    by (simp add: poke_Nil)
  have enc: "enc_attr (Leaf type d) = head @ replicate pad 0"
    by (simp add: head_def tot_def pad_def)
  show "msg_at nlh hdr (body @ enc_attr (Leaf type d)) (put_attr nlh type plen d b) \<and>
    length (put_attr nlh type plen d b) = length b \<and> take nlh (put_attr nlh type plen d b) = take nlh b"
    using msg_at_patch [of nlh hdr "body @ head" old "[]" b3 "replicate pad 0", OF _ _ refl] gs old
    unfolding res enc by simp
qed

section \<open>Composing builders\<close>

named_theorems builder

definition nest :: "u16 \<Rightarrow> (nat \<Rightarrow> nlbuf \<Rightarrow> nlbuf) \<Rightarrow> nat \<Rightarrow> nlbuf \<Rightarrow> nlbuf" where
  "nest type op nlh b = (let (nla, b) = begin_nest nlh type b in end_nest nlh nla (op nlh b))"

definition also_then :: "(nat \<Rightarrow> nlbuf \<Rightarrow> nlbuf) \<Rightarrow> (nat \<Rightarrow> nlbuf \<Rightarrow> nlbuf) \<Rightarrow> nat \<Rightarrow> nlbuf \<Rightarrow> nlbuf" where
  "also_then f g nlh b = g nlh (f nlh b)"

lemma appendsD:
  assumes "appends op bs" and "msg_at nlh hdr body b" and "nlh + 20 + length body + length bs \<le> length b"
    and "length body + length bs < 2 ^ 15"
  shows "msg_at nlh hdr (body @ bs) (op nlh b)" "length (op nlh b) = length b" "take nlh (op nlh b) = take nlh b"
  using assms unfolding appends_def by blast+

lemma appends_none [builder]: "appends (\<lambda>nlh b. b) (enc_attrs [])"
  by (simp add: appends_def)

lemma appends_then:
  assumes "appends f (enc_attrs as)" and "appends g (enc_attrs bs)"
  shows "appends (also_then f g) (enc_attrs (as @ bs))"
  unfolding appends_def
proof (intro allI impI, elim conjE)
  fix nlh hdr body b
  assume m: "msg_at nlh hdr body b" and room: "nlh + 20 + length body + length (enc_attrs (as @ bs)) \<le> length b"
    and small: "length body + length (enc_attrs (as @ bs)) < 2 ^ 15"
  have f: "msg_at nlh hdr (body @ enc_attrs as) (f nlh b)" "length (f nlh b) = length b" "take nlh (f nlh b) = take nlh b"
    by (rule appendsD [OF assms(1) m]; use room small in simp)+
  have "msg_at nlh hdr ((body @ enc_attrs as) @ enc_attrs bs) (g nlh (f nlh b))"
    "length (g nlh (f nlh b)) = length (f nlh b)" "take nlh (g nlh (f nlh b)) = take nlh (f nlh b)"
    by (rule appendsD [OF assms(2) f(1)]; use room small f(2) in simp)+
  with f show "msg_at nlh hdr (body @ enc_attrs (as @ bs)) (also_then f g nlh b)
      \<and> length (also_then f g nlh b) = length b \<and> take nlh (also_then f g nlh b) = take nlh b"
    by (simp add: also_then_def)
qed

lemma appends_Cons [builder]:
  "appends f (enc_attrs [a]) \<Longrightarrow> appends g (enc_attrs bs) \<Longrightarrow> appends (also_then f g) (enc_attrs (a # bs))"
  using appends_then [of f "[a]" g bs] by simp

lemma appends_nest [builder]:
  assumes "appends op (enc_attrs as)"
  shows "appends (nest type op) (enc_attrs [Nest type as])"
  unfolding appends_def
proof (intro allI impI, elim conjE)
  fix nlh hdr body b
  assume m: "msg_at nlh hdr body b" and room: "nlh + 20 + length body + length (enc_attrs [Nest type as]) \<le> length b"
    and small: "length body + length (enc_attrs [Nest type as]) < 2 ^ 15"
  define ty where "ty = type OR NLA_F_NESTED"
  define b1 where "b1 = snd (begin_nest nlh type b)"
  define b2 where "b2 = op nlh b1"
  have room': "nlh + 20 + length body + 4 + length (enc_attrs as) \<le> length b" "length body + 4 + length (enc_attrs as) < 2 ^ 15"
    using room small by (simp_all del: enc_attr.simps)
  note bn = begin_nest_msg [OF m, of type]
  have b1: "msg_at nlh hdr (body @ le16_bytes 0 @ le16_bytes ty) b1" "length b1 = length b" "take nlh b1 = take nlh b"
    "begin_nest nlh type b = (nlh + 20 + length body, b1)"
    using bn room' by (simp_all add: b1_def ty_def prod_eq_iff)
  have b2: "msg_at nlh hdr ((body @ le16_bytes 0 @ le16_bytes ty) @ enc_attrs as) b2"
    "length b2 = length b1" "take nlh b2 = take nlh b1"
    unfolding b2_def by (rule appendsD [OF assms b1(1)]; use room' b1(2) in simp)+
  have "nlh + nlmsg_len nlh b2 - (nlh + 20 + length body) = 4 + length (enc_attrs as)"
    using nlmsg_len_at [OF b2(1)] by simp
  then have "nest type op nlh b = poke (nlh + 20 + length body) (le16_bytes (of_nat (4 + length (enc_attrs as)))) b2"
    unfolding nest_def b1(4) by (simp add: end_nest_def wr16_def flip: b2_def)
  moreover have "enc_attrs [Nest type as] = le16_bytes (of_nat (4 + length (enc_attrs as))) @ le16_bytes ty @ enc_attrs as"
    by (simp add: enc_attrs_def Let_def ty_def)
  ultimately show "msg_at nlh hdr (body @ enc_attrs [Nest type as]) (nest type op nlh b)
      \<and> length (nest type op nlh b) = length b \<and> take nlh (nest type op nlh b) = take nlh b"
    using msg_at_patch [of nlh hdr body "le16_bytes 0" "le16_bytes ty @ enc_attrs as" b2
        "le16_bytes (of_nat (4 + length (enc_attrs as)))", OF _ _ refl] b1 b2
    by simp
qed

text \<open>The byte swaps put a value in network order.\<close>

lemma bs16_bytes: "le16_bytes (bs16 v) = [ucast (drop_bit 8 v), ucast v]"
proof -
  have "ucast (bs16 v) = (ucast (drop_bit 8 v) :: byte)" "ucast (drop_bit 8 (bs16 v)) = (ucast v :: byte)"
    by (rule bit_word_eqI, auto simp: bs16_def bit_simps)+
  then show ?thesis by (simp add: le16_bytes_def)
qed

lemma bs32_bytes: "le32_bytes (bs32 v) = be32_bytes v"
proof -
  have m: "0xff00 = (push_bit 8 (mask 8) :: u32)" by (simp add: mask_eq_exp_minus_1)
  have "ucast (bs32 v) = (ucast (drop_bit 24 v) :: byte)" "ucast (drop_bit 8 (bs32 v)) = (ucast (drop_bit 16 v) :: byte)"
    "ucast (drop_bit 16 (bs32 v)) = (ucast (drop_bit 8 v) :: byte)" "ucast (drop_bit 24 (bs32 v)) = (ucast v :: byte)"
    by (rule bit_word_eqI, auto simp: bs32_def m bit_simps)+
  then show ?thesis by (simp add: le32_bytes_def be32_bytes_def)
qed

lemma bs64_bytes: "le64_bytes (bs64 v) = be64_bytes v"
proof -
  have lo: "ucast (drop_bit n w :: u64) = (ucast (drop_bit n (ucast w :: u32)) :: byte)" if "n \<le> 24" for n w
    using that by (intro bit_word_eqI) (auto simp: bit_simps)
  have hi: "ucast (drop_bit (32 + n) w :: u64) = (ucast (drop_bit n (ucast (drop_bit 32 w) :: u32)) :: byte)"
    if "n \<le> 24" for n w
    using that by (intro bit_word_eqI) (auto simp: bit_simps ac_simps)
  have le: "le64_bytes w = le32_bytes (ucast w) @ le32_bytes (ucast (drop_bit 32 w))" for w
    using lo [of 0 w] lo [of 8 w] lo [of 16 w] lo [of 24 w] hi [of 0 w] hi [of 8 w] hi [of 16 w] hi [of 24 w]
    by (simp add: le64_bytes_def le32_bytes_def upt_rec)
  have be: "be64_bytes w = be32_bytes (ucast (drop_bit 32 w)) @ be32_bytes (ucast w)" for w
    using lo [of 0 w] lo [of 8 w] lo [of 16 w] lo [of 24 w] hi [of 0 w] hi [of 8 w] hi [of 16 w] hi [of 24 w]
    by (simp add: be64_bytes_def be32_bytes_def upt_rec)
  have "ucast (bs64 v) = bs32 (ucast (drop_bit 32 v))" "ucast (drop_bit 32 (bs64 v)) = bs32 (ucast v)"
    by (rule bit_word_eqI, auto simp: bs64_def bit_simps dest: bit_imp_le_length)+
  then show ?thesis by (simp add: le be bs32_bytes)
qed

lemma put_attr_leaf [builder]:
  "length d = unat plen \<Longrightarrow> unat plen < 2 ^ 15 \<Longrightarrow> appends (\<lambda>nlh. put_attr nlh type plen d) (enc_attrs [Leaf type d])"
  using put_attr_appends by (simp del: enc_attr.simps)

lemma be32_leaf [builder]: "appends (\<lambda>nlh. put_be32 nlh type v) (enc_attrs [Leaf type (be32_bytes v)])"
proof -
  have "(\<lambda>nlh. put_be32 nlh type v) = (\<lambda>nlh. put_attr nlh type 4 (be32_bytes v))"
    by (intro ext) (simp add: put_be32_def bs32_bytes)
  then show ?thesis using put_attr_leaf [of "be32_bytes v" 4 type] by simp
qed

lemma str_leaf [builder]:
  assumes "length s < 1000"
  shows "appends (\<lambda>nlh. put_str nlh type s) (enc_attrs [Leaf type (cstr s)])"
proof -
  have "unat (of_nat (length s + 1) :: u16) = length s + 1"
    using assms by (simp only: unat_of_nat) simp
  moreover have "(\<lambda>nlh. put_str nlh type s) = (\<lambda>nlh. put_attr nlh type (of_nat (length s + 1)) (cstr s))"
    by (intro ext) (simp add: put_str_def)
  ultimately show ?thesis
    using put_attr_leaf [of "cstr s" "of_nat (length s + 1)" type] assms by (simp add: cstr_def)
qed

section \<open>The expressions\<close>

text \<open>What each builder is meant to append.\<close>

definition nft_expr :: "string \<Rightarrow> attr list \<Rightarrow> attr" where
  "nft_expr name as = Nest NFTA_LIST_ELEM [Leaf NFTA_EXPR_NAME (cstr name), Nest NFTA_EXPR_DATA as]"

definition verdict_expr :: "attr list \<Rightarrow> attr" where
  "verdict_expr as = nft_expr ''immediate'' [Leaf NFTA_IMMEDIATE_DREG (be32_bytes NFT_REG_VERDICT),
     Nest NFTA_IMMEDIATE_DATA [Nest NFTA_DATA_VERDICT as]]"

definition payload_expr :: "u32 \<Rightarrow> u32 \<Rightarrow> u32 \<Rightarrow> attr" where
  "payload_expr base offset len = nft_expr ''payload'' [Leaf NFTA_PAYLOAD_DREG (be32_bytes NFT_REG32_00),
     Leaf NFTA_PAYLOAD_BASE (be32_bytes base), Leaf NFTA_PAYLOAD_OFFSET (be32_bytes offset),
     Leaf NFTA_PAYLOAD_LEN (be32_bytes len)]"

definition cmp_expr :: "u32 \<Rightarrow> byte list \<Rightarrow> attr" where
  "cmp_expr op bytes = nft_expr ''cmp'' [Leaf NFTA_CMP_SREG (be32_bytes NFT_REG32_00),
     Leaf NFTA_CMP_OP (be32_bytes op), Nest NFTA_CMP_DATA [Leaf NFTA_DATA_VALUE bytes]]"

definition meta_expr :: "u32 \<Rightarrow> attr" where
  "meta_expr key = nft_expr ''meta'' [Leaf NFTA_META_DREG (be32_bytes NFT_REG32_00), Leaf NFTA_META_KEY (be32_bytes key)]"

definition ct_state_expr :: attr where
  "ct_state_expr = nft_expr ''ct'' [Leaf NFTA_CT_DREG (be32_bytes NFT_REG32_00), Leaf NFTA_CT_KEY (be32_bytes NFT_CT_STATE)]"

definition bitwise_expr :: "byte list \<Rightarrow> byte list \<Rightarrow> attr" where
  "bitwise_expr mask_bytes xor_bytes = nft_expr ''bitwise'' [Leaf NFTA_BITWISE_SREG (be32_bytes NFT_REG32_00),
     Leaf NFTA_BITWISE_DREG (be32_bytes NFT_REG32_00), Leaf NFTA_BITWISE_LEN (be32_bytes 4),
     Leaf NFTA_BITWISE_OP (be32_bytes NFT_BITWISE_MASK_XOR),
     Nest NFTA_BITWISE_MASK [Leaf NFTA_DATA_VALUE mask_bytes],
     Nest NFTA_BITWISE_XOR [Leaf NFTA_DATA_VALUE xor_bytes]]"

definition iifname_exprs :: "string option \<Rightarrow> attr list" where
  "iifname_exprs iface =
     (case iface of None \<Rightarrow> [] | Some s \<Rightarrow>
        if s = [] then [] else [meta_expr NFT_META_IIFNAME, cmp_expr NFT_CMP_EQ (cstr s)])"

lemmas add_expr_defs = add_expr_immediate_verdict_def add_expr_immediate_verdict_chain_def
  add_expr_payload_load_def add_expr_cmp_def add_expr_meta_l4proto_def add_expr_meta_iifname_def
  add_expr_ct_state_def add_expr_bitwise_def

lemma verdict_appends [builder]:
  "appends (\<lambda>nlh. add_expr_immediate_verdict nlh v) (enc_attrs [verdict_expr [Leaf NFTA_VERDICT_CODE (be32_bytes v)]])"
proof -
  have "(\<lambda>nlh. add_expr_immediate_verdict nlh v) =
    nest NFTA_LIST_ELEM (also_then (\<lambda>nlh. put_str nlh NFTA_EXPR_NAME ''immediate'')
      (nest NFTA_EXPR_DATA (also_then (\<lambda>nlh. put_be32 nlh NFTA_IMMEDIATE_DREG NFT_REG_VERDICT)
        (nest NFTA_IMMEDIATE_DATA (nest NFTA_DATA_VERDICT (\<lambda>nlh. put_be32 nlh NFTA_VERDICT_CODE v))))))"
    by (intro ext) (simp add: add_expr_defs nest_def also_then_def split_beta Let_def)
  then show ?thesis unfolding verdict_expr_def nft_expr_def by (simp only:) (intro builder; simp)
qed

lemma verdict_chain_appends [builder]:
  assumes "length chain < 1000"
  shows "appends (\<lambda>nlh. add_expr_immediate_verdict_chain nlh v chain)
    (enc_attrs [verdict_expr [Leaf NFTA_VERDICT_CODE (be32_bytes v), Leaf NFTA_VERDICT_CHAIN (cstr chain)]])"
proof -
  have "(\<lambda>nlh. add_expr_immediate_verdict_chain nlh v chain) =
    nest NFTA_LIST_ELEM (also_then (\<lambda>nlh. put_str nlh NFTA_EXPR_NAME ''immediate'')
      (nest NFTA_EXPR_DATA (also_then (\<lambda>nlh. put_be32 nlh NFTA_IMMEDIATE_DREG NFT_REG_VERDICT)
        (nest NFTA_IMMEDIATE_DATA (nest NFTA_DATA_VERDICT
          (also_then (\<lambda>nlh. put_be32 nlh NFTA_VERDICT_CODE v) (\<lambda>nlh. put_str nlh NFTA_VERDICT_CHAIN chain)))))))"
    by (intro ext) (simp add: add_expr_defs nest_def also_then_def split_beta Let_def)
  then show ?thesis unfolding verdict_expr_def nft_expr_def using assms by (simp only:) (intro builder; simp)
qed

lemma payload_appends [builder]:
  "appends (\<lambda>nlh. add_expr_payload_load nlh base offset len NFT_REG32_00) (enc_attrs [payload_expr base offset len])"
proof -
  have "(\<lambda>nlh. add_expr_payload_load nlh base offset len NFT_REG32_00) =
    nest NFTA_LIST_ELEM (also_then (\<lambda>nlh. put_str nlh NFTA_EXPR_NAME ''payload'')
      (nest NFTA_EXPR_DATA (also_then (\<lambda>nlh. put_be32 nlh NFTA_PAYLOAD_DREG NFT_REG32_00)
        (also_then (\<lambda>nlh. put_be32 nlh NFTA_PAYLOAD_BASE base)
        (also_then (\<lambda>nlh. put_be32 nlh NFTA_PAYLOAD_OFFSET offset) (\<lambda>nlh. put_be32 nlh NFTA_PAYLOAD_LEN len))))))"
    by (intro ext) (simp add: add_expr_defs nest_def also_then_def split_beta Let_def)
  then show ?thesis unfolding payload_expr_def nft_expr_def by (simp only:) (intro builder; simp)
qed

lemma cmp_appends [builder]:
  assumes "length bytes = unat dlen" and "length bytes < 2 ^ 15"
  shows "appends (\<lambda>nlh. add_expr_cmp nlh NFT_REG32_00 op bytes dlen) (enc_attrs [cmp_expr op bytes])"
proof -
  have "unat (ucast dlen :: u16) = length bytes"
    using assms by (simp add: unsigned_ucast_eq take_bit_nat_eq_self)
  moreover have "(\<lambda>nlh. add_expr_cmp nlh NFT_REG32_00 op bytes dlen) =
    nest NFTA_LIST_ELEM (also_then (\<lambda>nlh. put_str nlh NFTA_EXPR_NAME ''cmp'')
      (nest NFTA_EXPR_DATA (also_then (\<lambda>nlh. put_be32 nlh NFTA_CMP_SREG NFT_REG32_00)
        (also_then (\<lambda>nlh. put_be32 nlh NFTA_CMP_OP op)
          (nest NFTA_CMP_DATA (\<lambda>nlh. put_attr nlh NFTA_DATA_VALUE (ucast dlen) bytes))))))"
    by (intro ext) (simp add: add_expr_defs nest_def also_then_def split_beta Let_def)
  ultimately show ?thesis unfolding cmp_expr_def nft_expr_def using assms(2) by (simp only:) (intro builder; simp)
qed

lemma meta_appends [builder]:
  "appends (\<lambda>nlh. add_expr_meta_l4proto nlh NFT_REG32_00) (enc_attrs [meta_expr NFT_META_L4PROTO])"
  "appends (\<lambda>nlh. add_expr_meta_iifname nlh NFT_REG32_00) (enc_attrs [meta_expr NFT_META_IIFNAME])"
proof -
  have "(\<lambda>nlh. add_expr_meta_l4proto nlh NFT_REG32_00) =
    nest NFTA_LIST_ELEM (also_then (\<lambda>nlh. put_str nlh NFTA_EXPR_NAME ''meta'')
      (nest NFTA_EXPR_DATA (also_then (\<lambda>nlh. put_be32 nlh NFTA_META_DREG NFT_REG32_00)
        (\<lambda>nlh. put_be32 nlh NFTA_META_KEY NFT_META_L4PROTO))))"
    "(\<lambda>nlh. add_expr_meta_iifname nlh NFT_REG32_00) =
    nest NFTA_LIST_ELEM (also_then (\<lambda>nlh. put_str nlh NFTA_EXPR_NAME ''meta'')
      (nest NFTA_EXPR_DATA (also_then (\<lambda>nlh. put_be32 nlh NFTA_META_DREG NFT_REG32_00)
        (\<lambda>nlh. put_be32 nlh NFTA_META_KEY NFT_META_IIFNAME))))"
    by (intro ext; simp add: add_expr_defs nest_def also_then_def split_beta Let_def)+
  then show "appends (\<lambda>nlh. add_expr_meta_l4proto nlh NFT_REG32_00) (enc_attrs [meta_expr NFT_META_L4PROTO])"
    "appends (\<lambda>nlh. add_expr_meta_iifname nlh NFT_REG32_00) (enc_attrs [meta_expr NFT_META_IIFNAME])"
    unfolding meta_expr_def nft_expr_def by (simp only:, intro builder; simp)+
qed

lemma ct_state_appends [builder]:
  "appends (\<lambda>nlh. add_expr_ct_state nlh NFT_REG32_00) (enc_attrs [ct_state_expr])"
proof -
  have "(\<lambda>nlh. add_expr_ct_state nlh NFT_REG32_00) =
    nest NFTA_LIST_ELEM (also_then (\<lambda>nlh. put_str nlh NFTA_EXPR_NAME ''ct'')
      (nest NFTA_EXPR_DATA (also_then (\<lambda>nlh. put_be32 nlh NFTA_CT_DREG NFT_REG32_00)
        (\<lambda>nlh. put_be32 nlh NFTA_CT_KEY NFT_CT_STATE))))"
    by (intro ext) (simp add: add_expr_defs nest_def also_then_def split_beta Let_def)
  then show ?thesis unfolding ct_state_expr_def nft_expr_def by (simp only:) (intro builder; simp)
qed

lemma bitwise_appends [builder]:
  assumes "length mask_bytes = 4" and "length xor_bytes = 4"
  shows "appends (\<lambda>nlh. add_expr_bitwise nlh \<lparr>sreg = NFT_REG32_00, dreg = NFT_REG32_00\<rparr> 4 mask_bytes xor_bytes)
    (enc_attrs [bitwise_expr mask_bytes xor_bytes])"
proof -
  have "(\<lambda>nlh. add_expr_bitwise nlh \<lparr>sreg = NFT_REG32_00, dreg = NFT_REG32_00\<rparr> 4 mask_bytes xor_bytes) =
    nest NFTA_LIST_ELEM (also_then (\<lambda>nlh. put_str nlh NFTA_EXPR_NAME ''bitwise'')
      (nest NFTA_EXPR_DATA (also_then (\<lambda>nlh. put_be32 nlh NFTA_BITWISE_SREG NFT_REG32_00)
        (also_then (\<lambda>nlh. put_be32 nlh NFTA_BITWISE_DREG NFT_REG32_00)
        (also_then (\<lambda>nlh. put_be32 nlh NFTA_BITWISE_LEN 4)
        (also_then (\<lambda>nlh. put_be32 nlh NFTA_BITWISE_OP NFT_BITWISE_MASK_XOR)
        (also_then (nest NFTA_BITWISE_MASK (\<lambda>nlh. put_attr nlh NFTA_DATA_VALUE 4 mask_bytes))
          (nest NFTA_BITWISE_XOR (\<lambda>nlh. put_attr nlh NFTA_DATA_VALUE 4 xor_bytes)))))))))"
    by (intro ext) (simp add: add_expr_defs nest_def also_then_def split_beta Let_def)
  then show ?thesis unfolding bitwise_expr_def nft_expr_def using assms by (simp only:) (intro builder; simp)
qed

lemma iifname_appends:
  assumes "\<And>s. iface = Some s \<Longrightarrow> length s < 1000"
  shows "appends (\<lambda>nlh. maybe_add_iifname nlh iface) (enc_attrs (iifname_exprs iface))"
proof -
  consider (no) "iface = None \<or> iface = Some []" | (yes) s where "iface = Some s" "s \<noteq> []"
    by (cases iface) auto
  then show ?thesis
  proof cases
    case no
    then have "(\<lambda>nlh. maybe_add_iifname nlh iface) = (\<lambda>nlh b. b)" "iifname_exprs iface = []"
      by (auto intro!: ext simp: maybe_add_iifname_def iifname_exprs_def)
    then show ?thesis using appends_none by simp
  next
    case yes
    have "(\<lambda>nlh. maybe_add_iifname nlh iface) = also_then (\<lambda>nlh. add_expr_meta_iifname nlh NFT_REG32_00)
        (\<lambda>nlh. add_expr_cmp nlh NFT_REG32_00 NFT_CMP_EQ (cstr s) (of_nat (length s) + 1))"
      using yes by (intro ext) (simp add: maybe_add_iifname_def also_then_def)
    moreover have "unat (of_nat (length s) + 1 :: u32) = length s + 1"
      using assms [OF yes(1)] by (simp add: unat_word_ariths unat_of_nat)
    then have "length (cstr s) = unat (of_nat (length s) + 1 :: u32)" "length (cstr s) < 2 ^ 15"
      using assms [OF yes(1)] by (simp_all add: cstr_def)
    ultimately show ?thesis using yes by (simp only: iifname_exprs_def option.case if_False) (intro builder; simp only:)
  qed
qed

end
