(* ===== verification/Netlink.thy ===== *)
theory Netlink
  imports Nl_Message "HOL-Library.Monad_Syntax"
begin

text \<open>
  The netlink socket and the firewall operations (\<^verbatim>\<open>src/netlink.c\<close>). The module's
  variables \<open>g_fd\<close>, \<open>g_seq\<close>, \<open>g_portid\<close> and \<open>g_next_handle\<close> extend the record \<open>os\<close>; the kernel
  is the parameter \<open>env\<close>.

  Waiting for replies is a loop that only the kernel ends, so everything that talks to it returns
  an option. \<open>rule_insert_sends\<close> and its companions say which bytes reach the kernel.
\<close>

record nl = os +
  g_fd :: int
  g_seq :: u32
  g_portid :: u32
  g_next_handle :: u64

definition TABLE_NAME :: string where "TABLE_NAME = ''totpgate''"
definition CHAIN_NAME :: string where "CHAIN_NAME = ''input''"
definition ALLOWED_NAME :: string where "ALLOWED_NAME = ''allowed_ips''"
definition BUF_SIZE :: nat where "BUF_SIZE = 4096"

definition AF_NETLINK :: u16 where "AF_NETLINK = 16"
definition SOCK_RAW_CLOEXEC :: int where "SOCK_RAW_CLOEXEC = 0x80003"
definition NETLINK_NETFILTER :: int where "NETLINK_NETFILTER = 12"
definition NLMSG_ERROR :: u16 where "NLMSG_ERROR = 2"

definition nl_addr :: "byte list" where
  "nl_addr = poke 0 (le16_bytes AF_NETLINK) (replicate 12 0)"

definition zero_buf :: nlbuf where
  "zero_buf = replicate BUF_SIZE 0"

section \<open>Headers\<close>

definition msg_start :: "nat \<Rightarrow> nlbuf \<Rightarrow> 'a nl_scheme \<Rightarrow> nlbuf \<times> 'a nl_scheme" where
  "msg_start nlh b w =
     (let b = poke nlh (replicate 16 0) b;
          b = wr32 nlh 20 b;
          w = w\<lparr>g_seq := g_seq w + 1\<rparr>;
          b = wr32 (nlh + 8) (g_seq w) b
      in (wr32 (nlh + 12) (g_portid w) b, w))"

definition batch_msg :: "nat \<Rightarrow> u16 \<Rightarrow> u16 \<Rightarrow> u16 \<Rightarrow> nlbuf \<Rightarrow> 'a nl_scheme \<Rightarrow> nlbuf \<times> 'a nl_scheme" where
  "batch_msg nlh type flags res_id b w =
     (let b = poke nlh (replicate 20 0) b;
          b = wr32 nlh 20 b;
          b = wr16 (nlh + 4) type b;
          b = wr16 (nlh + 6) flags b;
          w = w\<lparr>g_seq := g_seq w + 1\<rparr>;
          b = wr32 (nlh + 8) (g_seq w) b;
          b = wr32 (nlh + 12) (g_portid w) b;
          b = wr8 (nlh + 16) (ucast AF_UNSPEC) b;
          b = wr8 (nlh + 17) 0 b
      in (poke (nlh + 18) (htons res_id) b, w))"

section \<open>Replies\<close>

text \<open>The error a reply carries, \<open>None\<close> for return 0 and the new \<open>errno\<close> for return -1.\<close>

definition handle_nlmsg_error :: "byte list \<Rightarrow> int option" where
  "handle_nlmsg_error m =
     (if rd16 4 m \<noteq> NLMSG_ERROR then None
      else if nlmsg_len 0 m < 36 then Some EBADMSG
      else let er = sint (rd32 16 m); e = (if er < 0 then - er else er)
           in if e \<noteq> 0 then Some e else None)"

text \<open>\<open>NLMSG_OK\<close>, and the walk over the messages of one datagram.\<close>

definition nlmsg_ok :: "byte list \<Rightarrow> bool" where
  "nlmsg_ok m \<longleftrightarrow> 16 \<le> length m \<and> 16 \<le> nlmsg_len 0 m \<and> nlmsg_len 0 m \<le> length m"

function scan_reply :: "byte list \<Rightarrow> int option" where
  "scan_reply m =
     (if nlmsg_ok m
      then case handle_nlmsg_error m of
             Some e \<Rightarrow> Some e
           | None \<Rightarrow> scan_reply (drop (align4 (nlmsg_len 0 m)) m)
      else None)"
  by pat_completeness auto
termination
proof (relation "measure length")
  fix m :: "byte list"
  assume "nlmsg_ok m"
  then have "16 \<le> length m" "16 \<le> align4 (nlmsg_len 0 m)"
    using align4_ge [of "nlmsg_len 0 m"] by (auto simp: nlmsg_ok_def)
  then show "(drop (align4 (nlmsg_len 0 m)) m, m) \<in> measure length" by simp
qed simp

declare scan_reply.simps [simp del]

partial_function (option) process_batch_replies :: "env \<Rightarrow> 'a nl_scheme \<Rightarrow> (int \<times> 'a nl_scheme) option" where
  "process_batch_replies env w =
     (let (r, w) = sys env (Poll (g_fd w) 100) w in
      if ret r \<le> 0 then Some (0, w)
      else
        let (r, w) = sys env (Recv (g_fd w) BUF_SIZE) w; n = ret r in
        if n < 0 then (if errno w = EINTR then process_batch_replies env w else Some (0, w))
        else if n < 16 then process_batch_replies env w
        else case scan_reply (take (nat n) (data r)) of
               Some e \<Rightarrow> Some (-1, w\<lparr>errno := e\<rparr>)
             | None \<Rightarrow> process_batch_replies env w)"

section \<open>Sending\<close>

definition nl_batch_talk :: "env \<Rightarrow> nlbuf \<Rightarrow> nat \<Rightarrow> 'a nl_scheme \<Rightarrow> (int \<times> 'a nl_scheme) option" where
  "nl_batch_talk env b len w =
     (let (r, w) = sys env (Sendto (g_fd w) (take len b) nl_addr) w; n = ret r in
      if n < 0 \<or> n \<noteq> int len
      then Some (-1, if 0 \<le> n then w\<lparr>errno := EIO\<rparr> else w)
      else process_batch_replies env w)"

definition nl_talk_wrapped :: "env \<Rightarrow> nlbuf \<Rightarrow> nat \<Rightarrow> 'a nl_scheme \<Rightarrow> (int \<times> 'a nl_scheme) option" where
  "nl_talk_wrapped env msg len w =
     (let b = zero_buf; cur = 0;
          (b, w) = batch_msg cur NFNL_MSG_BATCH_BEGIN NLM_F_REQUEST NFNL_SUBSYS_NFTABLES b w;
          cur = cur + align4 (nlmsg_len cur b);
          b = poke cur (take len msg) b;
          cur = cur + align4 len;
          (b, w) = batch_msg cur NFNL_MSG_BATCH_END NLM_F_REQUEST NFNL_SUBSYS_NFTABLES b w;
          cur = cur + align4 (nlmsg_len cur b)
      in nl_batch_talk env b cur w)"

section \<open>Tables and chains\<close>

definition put_name :: "nat \<Rightarrow> u16 \<Rightarrow> string \<Rightarrow> nlbuf \<Rightarrow> nlbuf" where
  "put_name nlh type s b = put_attr nlh type (of_nat (length s) + 1) (cstr s) b"

definition netlink_delete_table :: "env \<Rightarrow> byte \<Rightarrow> 'a nl_scheme \<Rightarrow> 'a nl_scheme option" where
  "netlink_delete_table env fam w =
     (let (b, w) = msg_start 0 zero_buf w;
          b = msg_set 0 NFT_MSG_DELTABLE (NLM_F_REQUEST OR NLM_F_ACK) fam b;
          b = put_name 0 NFTA_TABLE_NAME TABLE_NAME b
      in do { (_, w) \<leftarrow> nl_talk_wrapped env b (nlmsg_len 0 b) w; Some w })"

definition add_table_batch :: "byte \<Rightarrow> nat \<times> nlbuf \<times> 'a nl_scheme \<Rightarrow> nat \<times> nlbuf \<times> 'a nl_scheme" where
  "add_table_batch fam = (\<lambda>(cur, b, w).
     let (b, w) = msg_start cur b w;
         b = msg_set cur NFT_MSG_NEWTABLE (NLM_F_REQUEST OR NLM_F_ACK OR NLM_F_CREATE) fam b;
         b = put_name cur NFTA_TABLE_NAME TABLE_NAME b;
         b = put_attr cur NFTA_TABLE_FLAGS 4 (le32_bytes 0) b
     in (cur + align4 (nlmsg_len cur b), b, w))"

definition add_chain_batch :: "byte \<Rightarrow> string \<Rightarrow> bool \<Rightarrow> nat \<times> nlbuf \<times> 'a nl_scheme \<Rightarrow> nat \<times> nlbuf \<times> 'a nl_scheme" where
  "add_chain_batch fam name base = (\<lambda>(cur, b, w).
     let (b, w) = msg_start cur b w;
         b = msg_set cur NFT_MSG_NEWCHAIN (NLM_F_REQUEST OR NLM_F_ACK) fam b;
         b = put_name cur NFTA_CHAIN_TABLE TABLE_NAME b;
         b = put_name cur NFTA_CHAIN_NAME name b;
         b = (if base then
                let (hook, b) = begin_nest cur NFTA_CHAIN_HOOK b;
                    b = put_attr cur NFTA_HOOK_HOOKNUM 4 (le32_bytes (bs32 1)) b;
                    b = put_attr cur NFTA_HOOK_PRIORITY 4 (le32_bytes (bs32 (-10))) b;
                    b = end_nest cur hook b;
                    b = put_str cur NFTA_CHAIN_TYPE ''filter'' b;
                    b = put_attr cur NFTA_CHAIN_FLAGS 4 (le32_bytes (bs32 NFT_CHAIN_BASE)) b
                in put_attr cur NFTA_CHAIN_POLICY 4 (le32_bytes (bs32 NF_ACCEPT)) b
              else b)
     in (cur + align4 (nlmsg_len cur b), b, w))"

definition netlink_create_family_batch :: "env \<Rightarrow> byte \<Rightarrow> 'a nl_scheme \<Rightarrow> (int \<times> 'a nl_scheme) option" where
  "netlink_create_family_batch env fam w =
     (let (b, w) = batch_msg 0 NFNL_MSG_BATCH_BEGIN NLM_F_REQUEST NFNL_SUBSYS_NFTABLES zero_buf w;
          cur = align4 (nlmsg_len 0 b);
          (cur, b, w) = add_table_batch fam (cur, b, w);
          (cur, b, w) = add_chain_batch fam CHAIN_NAME True (cur, b, w);
          (cur, b, w) = add_chain_batch fam ALLOWED_NAME False (cur, b, w);
          (b, w) = batch_msg cur NFNL_MSG_BATCH_END NLM_F_REQUEST NFNL_SUBSYS_NFTABLES b w;
          cur = cur + align4 (nlmsg_len cur b)
      in nl_batch_talk env b cur w)"

definition nl_close :: "env \<Rightarrow> 'a nl_scheme \<Rightarrow> 'a nl_scheme" where
  "nl_close env w = (let w = sys_do env (Close (g_fd w)) w in w\<lparr>g_fd := -1\<rparr>)"

definition netlink_init :: "env \<Rightarrow> 'a nl_scheme \<Rightarrow> (int \<times> 'a nl_scheme) option" where
  "netlink_init env w =
     (let (r, w) = sys env (Socket AF_NETLINK SOCK_RAW_CLOEXEC NETLINK_NETFILTER) w;
          w = w\<lparr>g_fd := ret r\<rparr> in
      if g_fd w < 0 then Some (-1, w)
      else
        let w = w\<lparr>g_seq := 0\<rparr>;
            (r, w) = sys env (Bind (g_fd w) nl_addr) w in
        if ret r \<noteq> 0 then Some (-1, nl_close env w)
        else
          let (r, w) = sys env (Getsockname (g_fd w)) w in
          if ret r \<noteq> 0 then Some (-1, nl_close env w)
          else
            let w = w\<lparr>g_portid := rd32 4 (poke 0 (take 12 (peer r)) nl_addr)\<rparr> in
            do {
              w \<leftarrow> netlink_delete_table env (ucast AF_INET) w;
              w \<leftarrow> netlink_delete_table env (ucast AF_INET6) w;
              (r, w) \<leftarrow> netlink_create_family_batch env (ucast AF_INET) w;
              if r \<noteq> 0 then Some (-1, nl_close env w)
              else do {
                (r, w) \<leftarrow> netlink_create_family_batch env (ucast AF_INET6) w;
                if r \<noteq> 0 then Some (-1, nl_close env w)
                else Some (0, w\<lparr>g_next_handle := 6\<rparr>)
              }
            })"

section \<open>Rules\<close>

definition fam :: "byte list" where
  "fam = [ucast AF_INET, ucast AF_INET6]"

definition NEWRULE_FLAGS :: u16 where
  "NEWRULE_FLAGS = NLM_F_REQUEST OR NLM_F_ACK OR NLM_F_APPEND OR NLM_F_CREATE"

fun flush_loop :: "env \<Rightarrow> byte list \<Rightarrow> 'a nl_scheme \<Rightarrow> (int \<times> 'a nl_scheme) option" where
  "flush_loop env [] w = Some (0, w)"
| "flush_loop env (f # fs) w =
     (let (b, w) = msg_start 0 zero_buf w;
          b = msg_set 0 NFT_MSG_DELRULE (NLM_F_REQUEST OR NLM_F_ACK) f b;
          b = put_name 0 NFTA_RULE_TABLE TABLE_NAME b;
          b = put_name 0 NFTA_RULE_CHAIN ALLOWED_NAME b
      in do { (_, w) \<leftarrow> nl_talk_wrapped env b (nlmsg_len 0 b) w; flush_loop env fs w })"

definition netlink_flush_chain :: "env \<Rightarrow> 'a nl_scheme \<Rightarrow> (int \<times> 'a nl_scheme) option" where
  "netlink_flush_chain env w = flush_loop env fam w"

fun established_loop :: "env \<Rightarrow> string option \<Rightarrow> byte list \<Rightarrow> 'a nl_scheme \<Rightarrow> (int \<times> 'a nl_scheme) option" where
  "established_loop env iface [] w = Some (0, w)"
| "established_loop env iface (f # fs) w =
     (let (b, w) = msg_start 0 zero_buf w;
          b = msg_set 0 NFT_MSG_NEWRULE NEWRULE_FLAGS f b;
          b = put_name 0 NFTA_RULE_TABLE TABLE_NAME b;
          b = put_name 0 NFTA_RULE_CHAIN CHAIN_NAME b;
          (exprs, b) = begin_nest 0 NFTA_RULE_EXPRESSIONS b;
          b = maybe_add_iifname 0 iface b;
          b = add_expr_ct_state 0 NFT_REG32_00 b;
          b = add_expr_bitwise 0 \<lparr>sreg = NFT_REG32_00, dreg = NFT_REG32_00\<rparr> 4 (le32_bytes 6) (le32_bytes 0) b;
          b = add_expr_cmp 0 NFT_REG32_00 NFT_CMP_NEQ [0, 0, 0, 0] 4 b;
          b = add_expr_immediate_verdict 0 NF_ACCEPT b;
          b = end_nest 0 exprs b
      in do {
           (r, w) \<leftarrow> nl_talk_wrapped env b (nlmsg_len 0 b) w;
           if r \<noteq> 0 then Some (-1, w)
           else established_loop env iface fs (w\<lparr>g_next_handle := g_next_handle w + 1\<rparr>)
         })"

definition netlink_add_established_rule :: "env \<Rightarrow> string option \<Rightarrow> 'a nl_scheme \<Rightarrow> (int \<times> 'a nl_scheme) option" where
  "netlink_add_established_rule env iface w = established_loop env iface fam w"

definition add_drop_family :: "env \<Rightarrow> u16 \<Rightarrow> string option \<Rightarrow> byte \<Rightarrow> 'a nl_scheme \<Rightarrow> (int \<times> 'a nl_scheme) option" where
  "add_drop_family env port iface f w =
     (let (b, w) = msg_start 0 zero_buf w;
          b = msg_set 0 NFT_MSG_NEWRULE NEWRULE_FLAGS f b;
          b = put_name 0 NFTA_RULE_TABLE TABLE_NAME b;
          b = put_name 0 NFTA_RULE_CHAIN CHAIN_NAME b;
          (exprs, b) = begin_nest 0 NFTA_RULE_EXPRESSIONS b;
          b = maybe_add_iifname 0 iface b;
          b = add_expr_meta_l4proto 0 NFT_REG32_00 b;
          b = add_expr_cmp 0 NFT_REG32_00 NFT_CMP_EQ [6] 1 b;
          b = add_expr_payload_load 0 NFT_PAYLOAD_TRANSPORT_HEADER 2 2 NFT_REG32_00 b;
          b = add_expr_cmp 0 NFT_REG32_00 NFT_CMP_EQ (le16_bytes (bs16 port)) 2 b;
          b = add_expr_immediate_verdict 0 NF_DROP b;
          b = end_nest 0 exprs b
      in do {
           (r, w) \<leftarrow> nl_talk_wrapped env b (nlmsg_len 0 b) w;
           if r \<noteq> 0 then Some (-1, w)
           else Some (0, w\<lparr>g_next_handle := g_next_handle w + 1\<rparr>)
         })"

fun drop_loop :: "env \<Rightarrow> u16 \<Rightarrow> string option \<Rightarrow> byte list \<Rightarrow> 'a nl_scheme \<Rightarrow> (int \<times> 'a nl_scheme) option" where
  "drop_loop env port iface [] w = Some (0, w)"
| "drop_loop env port iface (f # fs) w = do {
     (r, w) \<leftarrow> add_drop_family env port iface f w;
     if r \<noteq> 0 then Some (-1, w) else drop_loop env port iface fs w
   }"

definition netlink_add_default_drop :: "env \<Rightarrow> u16 \<Rightarrow> string option \<Rightarrow> 'a nl_scheme \<Rightarrow> (int \<times> 'a nl_scheme) option" where
  "netlink_add_default_drop env port iface w = drop_loop env port iface fam w"

fun jump_loop :: "env \<Rightarrow> byte list \<Rightarrow> 'a nl_scheme \<Rightarrow> (int \<times> 'a nl_scheme) option" where
  "jump_loop env [] w = Some (0, w)"
| "jump_loop env (f # fs) w =
     (let (b, w) = msg_start 0 zero_buf w;
          b = msg_set 0 NFT_MSG_NEWRULE NEWRULE_FLAGS f b;
          b = put_name 0 NFTA_RULE_TABLE TABLE_NAME b;
          b = put_name 0 NFTA_RULE_CHAIN CHAIN_NAME b;
          (exprs, b) = begin_nest 0 NFTA_RULE_EXPRESSIONS b;
          b = add_expr_immediate_verdict_chain 0 NFT_JUMP ALLOWED_NAME b;
          b = end_nest 0 exprs b
      in do {
           (r, w) \<leftarrow> nl_talk_wrapped env b (nlmsg_len 0 b) w;
           if r \<noteq> 0 then Some (-1, w)
           else jump_loop env fs (w\<lparr>g_next_handle := g_next_handle w + 1\<rparr>)
         })"

definition netlink_add_jump_allowed :: "env \<Rightarrow> 'a nl_scheme \<Rightarrow> (int \<times> 'a nl_scheme) option" where
  "netlink_add_jump_allowed env w = jump_loop env fam w"

definition netlink_rule_insert ::
    "env \<Rightarrow> sockaddr_storage \<Rightarrow> u16 \<Rightarrow> string option \<Rightarrow> 'a nl_scheme \<Rightarrow> (u64 \<times> 'a nl_scheme) option" where
  "netlink_rule_insert env src port iface w =
     (let f = ucast (ss_family src) :: byte in
      if f \<noteq> ucast AF_INET \<and> f \<noteq> ucast AF_INET6 then Some (0, w)
      else
        let (b, w) = msg_start 0 zero_buf w;
            b = msg_set 0 NFT_MSG_NEWRULE NEWRULE_FLAGS f b;
            b = put_name 0 NFTA_RULE_TABLE TABLE_NAME b;
            b = put_name 0 NFTA_RULE_CHAIN ALLOWED_NAME b;
            (exprs, b) = begin_nest 0 NFTA_RULE_EXPRESSIONS b;
            b = maybe_add_iifname 0 iface b;
            b = (if f = ucast AF_INET
                 then add_expr_cmp 0 NFT_REG32_00 NFT_CMP_EQ (sin_addr src) 4
                        (add_expr_payload_load 0 NFT_PAYLOAD_NETWORK_HEADER 12 4 NFT_REG32_00 b)
                 else add_expr_cmp 0 NFT_REG32_00 NFT_CMP_EQ (sin6_addr src) 16
                        (add_expr_payload_load 0 NFT_PAYLOAD_NETWORK_HEADER 8 16 NFT_REG32_00 b));
            b = add_expr_payload_load 0 NFT_PAYLOAD_TRANSPORT_HEADER 2 2 NFT_REG32_00 b;
            b = add_expr_cmp 0 NFT_REG32_00 NFT_CMP_EQ (le16_bytes (bs16 port)) 2 b;
            b = add_expr_immediate_verdict 0 NF_ACCEPT b;
            b = end_nest 0 exprs b
        in do {
             (r, w) \<leftarrow> nl_talk_wrapped env b (nlmsg_len 0 b) w;
             if r \<noteq> 0 then Some (0, w)
             else Some (g_next_handle w, w\<lparr>g_next_handle := g_next_handle w + 1\<rparr>)
           })"

definition netlink_rule_delete :: "env \<Rightarrow> u64 \<Rightarrow> byte \<Rightarrow> 'a nl_scheme \<Rightarrow> (int \<times> 'a nl_scheme) option" where
  "netlink_rule_delete env handle f w =
     (let (b, w) = msg_start 0 zero_buf w;
          b = msg_set 0 NFT_MSG_DELRULE (NLM_F_REQUEST OR NLM_F_ACK) f b;
          b = put_name 0 NFTA_RULE_TABLE TABLE_NAME b;
          b = put_name 0 NFTA_RULE_CHAIN ALLOWED_NAME b;
          b = put_be64 0 NFTA_RULE_HANDLE handle b
      in nl_talk_wrapped env b (nlmsg_len 0 b) w)"

fun cleanup_loop :: "env \<Rightarrow> byte list \<Rightarrow> 'a nl_scheme \<Rightarrow> 'a nl_scheme option" where
  "cleanup_loop env [] w = Some w"
| "cleanup_loop env (f # fs) w =
     (let (b, w) = msg_start 0 zero_buf w;
          b = msg_set 0 NFT_MSG_DELRULE (NLM_F_REQUEST OR NLM_F_ACK) f b;
          b = put_name 0 NFTA_RULE_TABLE TABLE_NAME b;
          b = put_name 0 NFTA_RULE_CHAIN CHAIN_NAME b
      in do {
           (_, w) \<leftarrow> nl_talk_wrapped env b (nlmsg_len 0 b) w;
           w \<leftarrow> netlink_delete_table env f w;
           cleanup_loop env fs w
         })"

definition netlink_cleanup :: "env \<Rightarrow> 'a nl_scheme \<Rightarrow> 'a nl_scheme option" where
  "netlink_cleanup env w =
     (if g_fd w < 0 then Some w
      else do { w \<leftarrow> cleanup_loop env fam w; Some (nl_close env w) })"

section \<open>The messages on the wire\<close>

text \<open>A command of the nftables subsystem, and the frame a batch puts around commands.\<close>

definition nft_header :: "u16 \<Rightarrow> u16 \<Rightarrow> byte \<Rightarrow> u32 \<Rightarrow> u32 \<Rightarrow> byte list" where
  "nft_header type flags f sq pid =
     le16_bytes (push_bit 8 NFNL_SUBSYS_NFTABLES OR type) @ le16_bytes flags @ le32_bytes sq @ le32_bytes pid
       @ [f, 0, 0, 0]"

definition nft_command :: "u16 \<Rightarrow> u16 \<Rightarrow> byte \<Rightarrow> u32 \<Rightarrow> u32 \<Rightarrow> attr list \<Rightarrow> byte list" where
  "nft_command type flags f sq pid as =
     le32_bytes (of_nat (20 + length (enc_attrs as))) @ nft_header type flags f sq pid @ enc_attrs as"

definition batch_frame :: "u16 \<Rightarrow> u32 \<Rightarrow> u32 \<Rightarrow> byte list" where
  "batch_frame type sq pid =
     le32_bytes 20 @ le16_bytes type @ le16_bytes NLM_F_REQUEST @ le32_bytes sq @ le32_bytes pid
       @ [0, 0] @ htons NFNL_SUBSYS_NFTABLES"

definition nft_batch :: "u32 \<Rightarrow> u32 \<Rightarrow> byte list \<Rightarrow> byte list" where
  "nft_batch sq pid cmds = batch_frame NFNL_MSG_BATCH_BEGIN sq pid @ cmds @ batch_frame NFNL_MSG_BATCH_END (sq + 1) pid"

lemma length_frames [simp]:
  "length (nft_header type flags f sq pid) = 16" "length (batch_frame type sq pid) = 20"
  by (simp_all add: nft_header_def batch_frame_def htons_def)

lemma poke_prefix: "length pre = i \<Longrightarrow> poke (i + k) xs (pre @ r) = pre @ poke k xs r"
  by (simp add: poke_def)

lemmas poke_numeral = poke_prefix [where k = "numeral n" for n] poke_prefix [where k = 0, simplified]

lemma start_set_bytes:
  assumes "length pre = nlh" and "20 \<le> length r"
  shows "msg_set nlh type flags f (fst (msg_start nlh (pre @ r) w)) =
    pre @ le32_bytes 20 @ nft_header type flags f (g_seq w + 1) (g_portid w) @ drop 20 r"
proof -
  have "r = take 20 r @ drop 20 r" by simp
  then show ?thesis
    using assms by (simp add: msg_start_def msg_set_def Let_def wr32_def wr16_def wr8_def poke_numeral)
      (simp add: poke_def nft_header_def le32_bytes_def le16_bytes_def)
qed

lemma snd_msg_start [simp]: "snd (msg_start nlh b w) = w\<lparr>g_seq := g_seq w + 1\<rparr>"
  by (simp add: msg_start_def Let_def)

lemma batch_msg_bytes:
  assumes "length pre = nlh" and "20 \<le> length r"
  shows "batch_msg nlh type NLM_F_REQUEST NFNL_SUBSYS_NFTABLES (pre @ r) w =
    (pre @ batch_frame type (g_seq w + 1) (g_portid w) @ drop 20 r, w\<lparr>g_seq := g_seq w + 1\<rparr>)"
  using assms by (simp add: batch_msg_def Let_def wr32_def wr16_def wr8_def poke_numeral)
    (simp add: poke_def batch_frame_def le32_bytes_def le16_bytes_def htons_def AF_defs)

lemma start_set_msg:
  assumes "nlh + 20 \<le> length b"
  shows "msg_at nlh (nft_header type flags f (g_seq w + 1) (g_portid w)) [] (msg_set nlh type flags f (fst (msg_start nlh b w)))"
    and "length (msg_set nlh type flags f (fst (msg_start nlh b w))) = length b"
    and "take nlh (msg_set nlh type flags f (fst (msg_start nlh b w))) = take nlh b"
proof -
  have len: "length (take nlh b) = nlh" "20 \<le> length (drop nlh b)" using assms by simp_all
  have eq: "msg_set nlh type flags f (fst (msg_start nlh b w)) =
      take nlh b @ le32_bytes 20 @ nft_header type flags f (g_seq w + 1) (g_portid w) @ drop 20 (drop nlh b)"
    using start_set_bytes [OF len] by simp
  show "msg_at nlh (nft_header type flags f (g_seq w + 1) (g_portid w)) [] (msg_set nlh type flags f (fst (msg_start nlh b w)))"
    unfolding eq using len by (intro msg_atI [where pre = "take nlh b" and post = "drop 20 (drop nlh b)"]) simp_all
  show "length (msg_set nlh type flags f (fst (msg_start nlh b w))) = length b"
    "take nlh (msg_set nlh type flags f (fst (msg_start nlh b w))) = take nlh b"
    unfolding eq using assms by simp_all
qed

text \<open>
  The specification of a command: one datagram with the command between the frames of its batch,
  then the replies.
\<close>

definition send_batch :: "env \<Rightarrow> byte list \<Rightarrow> 'a nl_scheme \<Rightarrow> (int \<times> 'a nl_scheme) option" where
  "send_batch env bytes w =
     (let (r, w) = sys env (Sendto (g_fd w) bytes nl_addr) w in
      if ret r = int (length bytes) then process_batch_replies env w
      else Some (-1, if 0 \<le> ret r then w\<lparr>errno := EIO\<rparr> else w))"

definition send_command ::
    "env \<Rightarrow> u16 \<Rightarrow> u16 \<Rightarrow> byte \<Rightarrow> attr list \<Rightarrow> 'a nl_scheme \<Rightarrow> (int \<times> 'a nl_scheme) option" where
  "send_command env type flags f as w =
     send_batch env (nft_batch (g_seq w + 2) (g_portid w) (nft_command type flags f (g_seq w + 1) (g_portid w) as))
       (w\<lparr>g_seq := g_seq w + 3\<rparr>)"

lemma nl_batch_talk_send:
  "len \<le> length b \<Longrightarrow> nl_batch_talk env b len w = send_batch env (take len b) w"
  by (auto simp: nl_batch_talk_def send_batch_def Let_def split_beta)

lemma nl_talk_wrapped_send:
  assumes "len \<le> length msg" and "len mod 4 = 0" and "len \<le> 4056"
  shows "nl_talk_wrapped env msg len w =
    send_batch env (nft_batch (g_seq w + 1) (g_portid w) (take len msg)) (w\<lparr>g_seq := g_seq w + 2\<rparr>)"
proof -
  let ?f = "batch_frame NFNL_MSG_BATCH_BEGIN (g_seq w + 1) (g_portid w)"
  let ?e = "batch_frame NFNL_MSG_BATCH_END (g_seq w + 2) (g_portid w)"
  have frame_len: "nlmsg_len (length pre) (pre @ batch_frame ty sq pid @ r) = 20" for pre ty sq pid r
    using nlmsg_len_split [of pre "length pre" 20] by (simp add: batch_frame_def)
  have z: "length zero_buf = 4096" by (simp add: zero_buf_def BUF_SIZE_def)
  have b1: "batch_msg 0 NFNL_MSG_BATCH_BEGIN NLM_F_REQUEST NFNL_SUBSYS_NFTABLES zero_buf w =
      (?f @ drop 20 zero_buf, w\<lparr>g_seq := g_seq w + 1\<rparr>)"
    using batch_msg_bytes [of "[]" 0 zero_buf NFNL_MSG_BATCH_BEGIN w] z by simp
  have l1: "align4 (nlmsg_len 0 (?f @ drop 20 zero_buf)) = 20"
    using frame_len [of "[]"] by simp
  have p: "poke 20 (take len msg) (?f @ drop 20 zero_buf) = (?f @ take len msg) @ drop (20 + len) zero_buf"
    using poke_at [of ?f 20 "take len msg" "drop 20 zero_buf"] assms(1) by (simp add: min_def add.commute)
  have b2: "batch_msg (20 + len) NFNL_MSG_BATCH_END NLM_F_REQUEST NFNL_SUBSYS_NFTABLES
      ((?f @ take len msg) @ drop (20 + len) zero_buf) (w\<lparr>g_seq := g_seq w + 1\<rparr>) =
      ((?f @ take len msg) @ ?e @ drop 20 (drop (20 + len) zero_buf), w\<lparr>g_seq := g_seq w + 2\<rparr>)"
    using batch_msg_bytes [of "?f @ take len msg" "20 + len" "drop (20 + len) zero_buf" NFNL_MSG_BATCH_END
        "w\<lparr>g_seq := g_seq w + 1\<rparr>"] assms z by (simp add: add.commute [of 2])
  have l2: "nlmsg_len (20 + len) ((?f @ take len msg) @ ?e @ drop 20 (drop (20 + len) zero_buf)) = 20"
    using frame_len [of "?f @ take len msg"] assms by simp
  have total: "take (len + 40) ((?f @ take len msg) @ ?e @ drop 20 (drop (20 + len) zero_buf))
      = nft_batch (g_seq w + 1) (g_portid w) (take len msg)"
    using assms(1) by (simp add: nft_batch_def add.commute [of 2])
  have "nl_talk_wrapped env msg len w =
      nl_batch_talk env ((?f @ take len msg) @ ?e @ drop 20 (drop (20 + len) zero_buf)) (len + 40) (w\<lparr>g_seq := g_seq w + 2\<rparr>)"
    unfolding nl_talk_wrapped_def Let_def add_0 b1 prod.case l1 p align4_id [OF assms(2)] b2 l2
    by (simp add: align4_def add.commute)
  also have "\<dots> = send_batch env (nft_batch (g_seq w + 1) (g_portid w) (take len msg)) (w\<lparr>g_seq := g_seq w + 2\<rparr>)"
    by (subst nl_batch_talk_send) (use assms z total in simp_all)
  finally show ?thesis .
qed

text \<open>A message built by a builder and sent wrapped is a command with the builder's attributes.\<close>

lemma built_command:
  assumes op: "appends op (enc_attrs as)" and small: "length (enc_attrs as) \<le> 4000"
    and b: "b = op 0 (msg_set 0 type flags f (fst (msg_start 0 zero_buf w)))"
  shows "nl_talk_wrapped env b (nlmsg_len 0 b) (snd (msg_start 0 zero_buf w)) = send_command env type flags f as w"
proof -
  have z: "length zero_buf = 4096" by (simp add: zero_buf_def BUF_SIZE_def)
  define b0 where "b0 = msg_set 0 type flags f (fst (msg_start 0 zero_buf w))"
  have b0: "msg_at 0 (nft_header type flags f (g_seq w + 1) (g_portid w)) [] b0" "length b0 = 4096"
    using start_set_msg [of 0 zero_buf type flags f w] z by (simp_all add: b0_def)
  have m: "msg_at 0 (nft_header type flags f (g_seq w + 1) (g_portid w)) (enc_attrs as) b" "length b = 4096"
    using appendsD [OF op b0(1)] small b0(2) by (simp_all add: b flip: b0_def)
  have len: "nlmsg_len 0 b = 20 + length (enc_attrs as)" by (rule nlmsg_len_at [OF m(1)])
  have "(20 + length (enc_attrs as)) mod 4 = 0" using enc_attrs_mult [of as] by (simp add: mod_add_eq [symmetric])
  moreover have "take (20 + length (enc_attrs as)) b = nft_command type flags f (g_seq w + 1) (g_portid w) as"
    using m(1) by (simp add: msg_at_def nft_command_def)
  ultimately show ?thesis
    using nl_talk_wrapped_send [of "20 + length (enc_attrs as)" b env "snd (msg_start 0 zero_buf w)"] m(2) small
    unfolding len by (simp add: send_command_def add.commute [of 2] add.commute [of 3])
qed

lemma put_name_leaf [builder]:
  assumes "length s < 1000"
  shows "appends (\<lambda>nlh. put_name nlh type s) (enc_attrs [Leaf type (cstr s)])"
proof -
  have "(\<lambda>nlh. put_name nlh type s) = (\<lambda>nlh. put_str nlh type s)"
    by (intro ext) (simp add: put_name_def put_str_def add.commute)
  then show ?thesis using str_leaf [OF assms] by simp
qed

section \<open>Each operation as a command\<close>

definition rule_place :: "string \<Rightarrow> attr list" where
  "rule_place chain = [Leaf NFTA_RULE_TABLE (cstr TABLE_NAME), Leaf NFTA_RULE_CHAIN (cstr chain)]"

definition rule_attrs :: "string \<Rightarrow> attr list \<Rightarrow> attr list" where
  "rule_attrs chain exprs = rule_place chain @ [Nest NFTA_RULE_EXPRESSIONS exprs]"

definition port_match :: "u16 \<Rightarrow> attr list" where
  "port_match port = [payload_expr NFT_PAYLOAD_TRANSPORT_HEADER 2 2, cmp_expr NFT_CMP_EQ [ucast (drop_bit 8 port), ucast port]]"

definition verdict :: "u32 \<Rightarrow> attr" where
  "verdict v = verdict_expr [Leaf NFTA_VERDICT_CODE (be32_bytes v)]"

text \<open>The source address of IPv4 at offset 12 of the network header, of IPv6 at offset 8.\<close>

definition source_match :: "sockaddr_storage \<Rightarrow> attr list" where
  "source_match src =
     (if ucast (ss_family src) = (ucast AF_INET :: byte)
      then [payload_expr NFT_PAYLOAD_NETWORK_HEADER 12 4, cmp_expr NFT_CMP_EQ (sin_addr src)]
      else [payload_expr NFT_PAYLOAD_NETWORK_HEADER 8 16, cmp_expr NFT_CMP_EQ (sin6_addr src)])"

definition accept_rule :: "sockaddr_storage \<Rightarrow> u16 \<Rightarrow> string option \<Rightarrow> attr list" where
  "accept_rule src port iface =
     rule_attrs ALLOWED_NAME (iifname_exprs iface @ source_match src @ port_match port @ [verdict NF_ACCEPT])"

definition drop_rule :: "u16 \<Rightarrow> string option \<Rightarrow> attr list" where
  "drop_rule port iface =
     rule_attrs CHAIN_NAME (iifname_exprs iface @ [meta_expr NFT_META_L4PROTO, cmp_expr NFT_CMP_EQ [6]]
       @ port_match port @ [verdict NF_DROP])"

definition established_rule :: "string option \<Rightarrow> attr list" where
  "established_rule iface =
     rule_attrs CHAIN_NAME (iifname_exprs iface @ [ct_state_expr, bitwise_expr (le32_bytes 6) (le32_bytes 0),
       cmp_expr NFT_CMP_NEQ [0, 0, 0, 0], verdict NF_ACCEPT])"

definition jump_rule :: "attr list" where
  "jump_rule = rule_attrs CHAIN_NAME [verdict_expr [Leaf NFTA_VERDICT_CODE (be32_bytes NFT_JUMP),
     Leaf NFTA_VERDICT_CHAIN (cstr ALLOWED_NAME)]]"

lemmas name_defs = TABLE_NAME_def CHAIN_NAME_def ALLOWED_NAME_def

lemma verdict_builder [builder]:
  "appends (\<lambda>nlh. add_expr_immediate_verdict nlh v) (enc_attrs [verdict v])"
  unfolding verdict_def by (rule verdict_appends)

lemma port_builder:
  "appends (also_then (\<lambda>nlh. add_expr_payload_load nlh NFT_PAYLOAD_TRANSPORT_HEADER 2 2 NFT_REG32_00)
     (\<lambda>nlh. add_expr_cmp nlh NFT_REG32_00 NFT_CMP_EQ (le16_bytes (bs16 port)) 2)) (enc_attrs (port_match port))"
  unfolding port_match_def bs16_bytes by (intro builder; simp)

lemma source_builder:
  assumes "ss_wf src"
  shows "appends (\<lambda>nlh b. if ucast (ss_family src) = (ucast AF_INET :: byte)
                 then add_expr_cmp nlh NFT_REG32_00 NFT_CMP_EQ (sin_addr src) 4
                        (add_expr_payload_load nlh NFT_PAYLOAD_NETWORK_HEADER 12 4 NFT_REG32_00 b)
                 else add_expr_cmp nlh NFT_REG32_00 NFT_CMP_EQ (sin6_addr src) 16
                        (add_expr_payload_load nlh NFT_PAYLOAD_NETWORK_HEADER 8 16 NFT_REG32_00 b))
    (enc_attrs (source_match src))"
proof -
  have "appends (also_then (\<lambda>nlh. add_expr_payload_load nlh NFT_PAYLOAD_NETWORK_HEADER off len NFT_REG32_00)
      (\<lambda>nlh. add_expr_cmp nlh NFT_REG32_00 NFT_CMP_EQ bytes len))
      (enc_attrs [payload_expr NFT_PAYLOAD_NETWORK_HEADER off len, cmp_expr NFT_CMP_EQ bytes])"
    if "length bytes = unat len" "length bytes < 100" for off len bytes
    using that by (intro builder; simp)
  from this [of "sin_addr src" 4 12] this [of "sin6_addr src" 16 8] assms show ?thesis
    by (simp add: source_match_def also_then_def [abs_def])
qed

lemma rule_builder:
  assumes "length chain < 1000" and "appends op (enc_attrs exprs)"
  shows "appends (also_then (\<lambda>nlh. put_name nlh NFTA_RULE_TABLE TABLE_NAME)
      (also_then (\<lambda>nlh. put_name nlh NFTA_RULE_CHAIN chain) (nest NFTA_RULE_EXPRESSIONS op)))
    (enc_attrs (rule_attrs chain exprs))"
  unfolding rule_attrs_def rule_place_def append.simps
  using assms by (intro builder; simp add: TABLE_NAME_def)

lemma netlink_rule_insert_command:
  assumes "ss_wf src" and "\<And>s. iface = Some s \<Longrightarrow> length s < 1000"
    and "length (enc_attrs (accept_rule src port iface)) \<le> 4000"
    and fam: "ucast (ss_family src) = (ucast AF_INET :: byte) \<or> ucast (ss_family src) = (ucast AF_INET6 :: byte)"
  shows "netlink_rule_insert env src port iface w = do {
     (r, w) \<leftarrow> send_command env NFT_MSG_NEWRULE NEWRULE_FLAGS (ucast (ss_family src)) (accept_rule src port iface) w;
     if r \<noteq> 0 then Some (0, w) else Some (g_next_handle w, w\<lparr>g_next_handle := g_next_handle w + 1\<rparr>)
   }"
proof -
  define op where "op = also_then (\<lambda>nlh. put_name nlh NFTA_RULE_TABLE TABLE_NAME)
      (also_then (\<lambda>nlh. put_name nlh NFTA_RULE_CHAIN ALLOWED_NAME) (nest NFTA_RULE_EXPRESSIONS
        (also_then (\<lambda>nlh. maybe_add_iifname nlh iface) (also_then
          (\<lambda>nlh b. if ucast (ss_family src) = (ucast AF_INET :: byte)
                 then add_expr_cmp nlh NFT_REG32_00 NFT_CMP_EQ (sin_addr src) 4
                        (add_expr_payload_load nlh NFT_PAYLOAD_NETWORK_HEADER 12 4 NFT_REG32_00 b)
                 else add_expr_cmp nlh NFT_REG32_00 NFT_CMP_EQ (sin6_addr src) 16
                        (add_expr_payload_load nlh NFT_PAYLOAD_NETWORK_HEADER 8 16 NFT_REG32_00 b))
          (also_then (also_then (\<lambda>nlh. add_expr_payload_load nlh NFT_PAYLOAD_TRANSPORT_HEADER 2 2 NFT_REG32_00)
             (\<lambda>nlh. add_expr_cmp nlh NFT_REG32_00 NFT_CMP_EQ (le16_bytes (bs16 port)) 2))
           (\<lambda>nlh. add_expr_immediate_verdict nlh NF_ACCEPT))))))"
  have op: "appends op (enc_attrs (accept_rule src port iface))"
    unfolding op_def accept_rule_def
    by (intro rule_builder appends_then iifname_appends source_builder port_builder verdict_builder)
      (use assms in \<open>auto simp: ALLOWED_NAME_def\<close>)
  from built_command [OF op assms(3) refl, where env = env and w = w and type = NFT_MSG_NEWRULE
      and flags = NEWRULE_FLAGS and f = "ucast (ss_family src)"] fam show ?thesis
    by (auto simp: netlink_rule_insert_def op_def also_then_def nest_def split_beta Let_def)
qed

text \<open>The other operations; \<open>established_loop\<close>, \<open>jump_loop\<close> and \<open>drop_loop\<close> repeat for each family.\<close>

definition then_count :: "(int \<times> 'a nl_scheme) option \<Rightarrow> ('a nl_scheme \<Rightarrow> (int \<times> 'a nl_scheme) option) \<Rightarrow> (int \<times> 'a nl_scheme) option" where
  "then_count m k = do {
     (r, w) \<leftarrow> m;
     if r \<noteq> 0 then Some (-1, w) else k (w\<lparr>g_next_handle := g_next_handle w + 1\<rparr>)
   }"

lemma established_command:
  assumes "\<And>s. iface = Some s \<Longrightarrow> length s < 1000" and "length (enc_attrs (established_rule iface)) \<le> 4000"
  shows "established_loop env iface (f # fs) w =
    then_count (send_command env NFT_MSG_NEWRULE NEWRULE_FLAGS f (established_rule iface) w) (established_loop env iface fs)"
proof -
  define op where "op = also_then (\<lambda>nlh. put_name nlh NFTA_RULE_TABLE TABLE_NAME)
      (also_then (\<lambda>nlh. put_name nlh NFTA_RULE_CHAIN CHAIN_NAME) (nest NFTA_RULE_EXPRESSIONS
        (also_then (\<lambda>nlh. maybe_add_iifname nlh iface)
          (also_then (\<lambda>nlh. add_expr_ct_state nlh NFT_REG32_00)
          (also_then (\<lambda>nlh. add_expr_bitwise nlh \<lparr>sreg = NFT_REG32_00, dreg = NFT_REG32_00\<rparr> 4 (le32_bytes 6) (le32_bytes 0))
          (also_then (\<lambda>nlh. add_expr_cmp nlh NFT_REG32_00 NFT_CMP_NEQ [0, 0, 0, 0] 4)
            (\<lambda>nlh. add_expr_immediate_verdict nlh NF_ACCEPT)))))))"
  have op: "appends op (enc_attrs (established_rule iface))"
    unfolding op_def established_rule_def
    by (intro rule_builder appends_then iifname_appends builder)
      (use assms in \<open>auto simp: CHAIN_NAME_def\<close>)
  from built_command [OF op assms(2) refl, where env = env and w = w and type = NFT_MSG_NEWRULE
      and flags = NEWRULE_FLAGS and f = f] show ?thesis
    by (simp add: then_count_def op_def also_then_def nest_def split_beta Let_def)
qed

lemma jump_command:
  "jump_loop env (f # fs) w =
    then_count (send_command env NFT_MSG_NEWRULE NEWRULE_FLAGS f jump_rule w) (jump_loop env fs)"
proof -
  define op where "op = also_then (\<lambda>nlh. put_name nlh NFTA_RULE_TABLE TABLE_NAME)
      (also_then (\<lambda>nlh. put_name nlh NFTA_RULE_CHAIN CHAIN_NAME) (nest NFTA_RULE_EXPRESSIONS
        (\<lambda>nlh. add_expr_immediate_verdict_chain nlh NFT_JUMP ALLOWED_NAME)))"
  have op: "appends op (enc_attrs jump_rule)"
    unfolding op_def jump_rule_def
    by (intro rule_builder builder) (auto simp: name_defs)
  have "length (enc_attrs jump_rule) \<le> 4000"
    by (simp add: jump_rule_def rule_attrs_def rule_place_def verdict_expr_def nft_expr_def cstr_def name_defs
        align4_def del: enc_attr.simps)
  from built_command [OF op this refl, where env = env and w = w and type = NFT_MSG_NEWRULE
      and flags = NEWRULE_FLAGS and f = f] show ?thesis
    by (simp add: then_count_def op_def also_then_def nest_def split_beta Let_def)
qed

lemma drop_command:
  assumes "\<And>s. iface = Some s \<Longrightarrow> length s < 1000" and "length (enc_attrs (drop_rule port iface)) \<le> 4000"
  shows "add_drop_family env port iface f w =
    then_count (send_command env NFT_MSG_NEWRULE NEWRULE_FLAGS f (drop_rule port iface) w) (\<lambda>w. Some (0, w))"
proof -
  define op where "op = also_then (\<lambda>nlh. put_name nlh NFTA_RULE_TABLE TABLE_NAME)
      (also_then (\<lambda>nlh. put_name nlh NFTA_RULE_CHAIN CHAIN_NAME) (nest NFTA_RULE_EXPRESSIONS
        (also_then (\<lambda>nlh. maybe_add_iifname nlh iface)
        (also_then (also_then (\<lambda>nlh. add_expr_meta_l4proto nlh NFT_REG32_00)
          (\<lambda>nlh. add_expr_cmp nlh NFT_REG32_00 NFT_CMP_EQ [6] 1))
        (also_then (also_then (\<lambda>nlh. add_expr_payload_load nlh NFT_PAYLOAD_TRANSPORT_HEADER 2 2 NFT_REG32_00)
             (\<lambda>nlh. add_expr_cmp nlh NFT_REG32_00 NFT_CMP_EQ (le16_bytes (bs16 port)) 2))
          (\<lambda>nlh. add_expr_immediate_verdict nlh NF_DROP))))))"
  have op: "appends op (enc_attrs (drop_rule port iface))"
    unfolding op_def drop_rule_def
    by (intro rule_builder appends_then iifname_appends port_builder builder)
      (use assms in \<open>auto simp: CHAIN_NAME_def\<close>)
  from built_command [OF op assms(2) refl, where env = env and w = w and type = NFT_MSG_NEWRULE
      and flags = NEWRULE_FLAGS and f = f] show ?thesis
    by (simp add: then_count_def add_drop_family_def op_def also_then_def nest_def split_beta Let_def)
qed

lemma place_builder:
  assumes "length chain < 1000"
  shows "appends (also_then (\<lambda>nlh. put_name nlh NFTA_RULE_TABLE TABLE_NAME) (\<lambda>nlh. put_name nlh NFTA_RULE_CHAIN chain))
    (enc_attrs (rule_place chain))"
  unfolding rule_place_def using assms by (intro builder; simp add: TABLE_NAME_def)

lemma length_rule_place: "length (enc_attrs (rule_place chain)) = 16 + align4 (5 + length chain)"
  by (simp add: rule_place_def cstr_def TABLE_NAME_def align4_def del: enc_attr.simps)

lemma flush_command:
  "flush_loop env (f # fs) w = do {
     (_, w) \<leftarrow> send_command env NFT_MSG_DELRULE (NLM_F_REQUEST OR NLM_F_ACK) f (rule_place ALLOWED_NAME) w;
     flush_loop env fs w
   }"
proof -
  have "length (enc_attrs (rule_place ALLOWED_NAME)) \<le> 4000"
    by (simp add: length_rule_place ALLOWED_NAME_def align4_def)
  from built_command [OF place_builder this refl, where env = env and w = w and type = NFT_MSG_DELRULE
      and flags = "NLM_F_REQUEST OR NLM_F_ACK" and f = f] show ?thesis
    by (simp add: ALLOWED_NAME_def also_then_def split_beta Let_def)
qed

lemma delete_command:
  "netlink_rule_delete env handle f w =
     send_command env NFT_MSG_DELRULE (NLM_F_REQUEST OR NLM_F_ACK) f
       (rule_place ALLOWED_NAME @ [Leaf NFTA_RULE_HANDLE (be64_bytes handle)]) w"
proof -
  have "(\<lambda>nlh. put_be64 nlh NFTA_RULE_HANDLE handle) = (\<lambda>nlh. put_attr nlh NFTA_RULE_HANDLE 8 (be64_bytes handle))"
    by (intro ext) (simp add: put_be64_def bs64_bytes)
  then have "appends (\<lambda>nlh. put_be64 nlh NFTA_RULE_HANDLE handle) (enc_attrs [Leaf NFTA_RULE_HANDLE (be64_bytes handle)])"
    using put_attr_leaf [of "be64_bytes handle" 8 NFTA_RULE_HANDLE] by simp
  note op = appends_then [OF place_builder this, of ALLOWED_NAME]
  have "length (enc_attrs (rule_place ALLOWED_NAME @ [Leaf NFTA_RULE_HANDLE (be64_bytes handle)])) \<le> 4000"
    by (simp add: length_rule_place ALLOWED_NAME_def align4_def del: enc_attr.simps)
  from built_command [OF op this refl, where env = env and w = w and type = NFT_MSG_DELRULE
      and flags = "NLM_F_REQUEST OR NLM_F_ACK" and f = f] show ?thesis
    by (simp add: netlink_rule_delete_def ALLOWED_NAME_def also_then_def split_beta Let_def)
qed

text \<open>With an interface name that fits the configuration, no message outgrows its buffer.\<close>

lemma length_iifname_exprs:
  assumes "\<And>s. iface = Some s \<Longrightarrow> length s < 16"
  shows "length (enc_attrs (iifname_exprs iface)) \<le> 200"
proof (cases "iifname_exprs iface = []")
  case False
  then obtain s where s: "iface = Some s" "s \<noteq> []" by (auto simp: iifname_exprs_def split: option.splits if_splits)
  have "align4 (5 + length s) < 9 + length s" using align4_less [of "5 + length s"] by simp
  then show ?thesis
    using assms [OF s(1)] s
    by (simp add: iifname_exprs_def meta_expr_def cmp_expr_def nft_expr_def cstr_def align4_def del: enc_attr.simps)
qed simp

lemmas expr_lengths = accept_rule_def drop_rule_def established_rule_def rule_attrs_def length_rule_place
  port_match_def source_match_def verdict_def verdict_expr_def payload_expr_def cmp_expr_def meta_expr_def
  ct_state_expr_def bitwise_expr_def nft_expr_def cstr_def name_defs align4_def

lemma rules_fit:
  assumes "ss_wf src" and "\<And>s. iface = Some s \<Longrightarrow> length s < 16"
  shows "length (enc_attrs (accept_rule src port iface)) \<le> 600"
    and "length (enc_attrs (drop_rule port iface)) \<le> 600"
    and "length (enc_attrs (established_rule iface)) \<le> 600"
proof -
  have "length (enc_attrs (iifname_exprs iface)) \<le> 200" by (rule length_iifname_exprs) (rule assms(2))
  then show "length (enc_attrs (accept_rule src port iface)) \<le> 600"
    "length (enc_attrs (drop_rule port iface)) \<le> 600" "length (enc_attrs (established_rule iface)) \<le> 600"
    using assms(1) by (simp_all add: expr_lengths del: enc_attr.simps)
qed

section \<open>Setting up a family\<close>

lemma delete_table_command:
  "netlink_delete_table env f w = do {
     (_, w) \<leftarrow> send_command env NFT_MSG_DELTABLE (NLM_F_REQUEST OR NLM_F_ACK) f [Leaf NFTA_TABLE_NAME (cstr TABLE_NAME)] w;
     Some w
   }"
proof -
  have op: "appends (\<lambda>nlh. put_name nlh NFTA_TABLE_NAME TABLE_NAME) (enc_attrs [Leaf NFTA_TABLE_NAME (cstr TABLE_NAME)])"
    by (rule put_name_leaf) (simp add: TABLE_NAME_def)
  have "length (enc_attrs [Leaf NFTA_TABLE_NAME (cstr TABLE_NAME)]) \<le> 4000"
    by (simp add: cstr_def TABLE_NAME_def align4_def del: enc_attr.simps)
  from built_command [OF op this refl, where env = env and w = w and type = NFT_MSG_DELTABLE
      and flags = "NLM_F_REQUEST OR NLM_F_ACK" and f = f] show ?thesis
    by (simp add: netlink_delete_table_def split_beta Let_def)
qed

definition table_attrs :: "attr list" where
  "table_attrs = [Leaf NFTA_TABLE_NAME (cstr TABLE_NAME), Leaf NFTA_TABLE_FLAGS [0, 0, 0, 0]]"

text \<open>The base chain hooks into input at priority -10 and lets pass what no rule decides.\<close>

definition chain_attrs :: "string \<Rightarrow> bool \<Rightarrow> attr list" where
  "chain_attrs name base = [Leaf NFTA_CHAIN_TABLE (cstr TABLE_NAME), Leaf NFTA_CHAIN_NAME (cstr name)] @
     (if base then [Nest NFTA_CHAIN_HOOK [Leaf NFTA_HOOK_HOOKNUM (be32_bytes 1), Leaf NFTA_HOOK_PRIORITY (be32_bytes (-10))],
        Leaf NFTA_CHAIN_TYPE (cstr ''filter''), Leaf NFTA_CHAIN_FLAGS (be32_bytes NFT_CHAIN_BASE),
        Leaf NFTA_CHAIN_POLICY (be32_bytes NF_ACCEPT)] else [])"

lemma built_at:
  assumes op: "appends op (enc_attrs as)" and "length done = cur"
    and "20 + length (enc_attrs as) \<le> length rest" and "length (enc_attrs as) < 2 ^ 15"
    and b': "b' = op cur (msg_set cur type flags f (fst (msg_start cur (done @ rest) w)))"
  shows "\<exists>rest'. b' = (done @ nft_command type flags f (g_seq w + 1) (g_portid w) as) @ rest'
      \<and> length rest' = length rest - (20 + length (enc_attrs as))"
    and "align4 (nlmsg_len cur b') = 20 + length (enc_attrs as)"
proof -
  define b0 where "b0 = msg_set cur type flags f (fst (msg_start cur (done @ rest) w))"
  define h where "h = nft_header type flags f (g_seq w + 1) (g_portid w)"
  have b0: "msg_at cur h [] b0" "length b0 = cur + length rest" "take cur b0 = done"
    using start_set_msg [of cur "done @ rest" type flags f w] assms(2,3) by (simp_all add: b0_def h_def)
  have m: "msg_at cur h ([] @ enc_attrs as) b'" "length b' = length b0" "take cur b' = take cur b0"
    unfolding b' b0_def [symmetric] by (rule appendsD [OF op b0(1)]; use assms(3,4) b0(2) in simp)+
  let ?rest = "drop (cur + 20 + length (enc_attrs as)) b'"
  have "b' = (done @ nft_command type flags f (g_seq w + 1) (g_portid w) as) @ ?rest"
    using msg_at_split [OF m(1)] m(3) b0(3) by (simp add: nft_command_def flip: h_def)
  moreover have "length ?rest = length rest - (20 + length (enc_attrs as))" using m(2) b0(2) by simp
  ultimately show "\<exists>rest'. b' = (done @ nft_command type flags f (g_seq w + 1) (g_portid w) as) @ rest'
      \<and> length rest' = length rest - (20 + length (enc_attrs as))" by blast
  show "align4 (nlmsg_len cur b') = 20 + length (enc_attrs as)"
    using nlmsg_len_at [OF m(1)] mod4_header [OF m(1)] by simp
qed

lemma length_nft_command [simp]: "length (nft_command type flags f sq pid as) = 20 + length (enc_attrs as)"
  by (simp add: nft_command_def)

lemma add_table_batch_bytes:
  assumes "length done = cur" and "100 \<le> length rest"
  shows "\<exists>rest'. add_table_batch f (cur, done @ rest, w) =
      (length (done @ nft_command NFT_MSG_NEWTABLE (NLM_F_REQUEST OR NLM_F_ACK OR NLM_F_CREATE) f (g_seq w + 1) (g_portid w) table_attrs),
       (done @ nft_command NFT_MSG_NEWTABLE (NLM_F_REQUEST OR NLM_F_ACK OR NLM_F_CREATE) f (g_seq w + 1) (g_portid w) table_attrs) @ rest',
       w\<lparr>g_seq := g_seq w + 1\<rparr>)
    \<and> length rest' = length rest - (20 + length (enc_attrs table_attrs))"
proof -
  define op where "op = also_then (\<lambda>nlh. put_name nlh NFTA_TABLE_NAME TABLE_NAME)
    (\<lambda>nlh. put_attr nlh NFTA_TABLE_FLAGS 4 (le32_bytes 0))"
  have zero: "le32_bytes 0 = [0, 0, 0, 0]" by (simp add: le32_bytes_def)
  have op: "appends op (enc_attrs table_attrs)"
    unfolding op_def table_attrs_def zero by (intro builder; simp add: TABLE_NAME_def)
  have small: "length (enc_attrs table_attrs) \<le> 80"
    by (simp add: table_attrs_def cstr_def TABLE_NAME_def align4_def del: enc_attr.simps)
  from built_at [OF op assms(1) _ _ refl, of rest NFT_MSG_NEWTABLE "NLM_F_REQUEST OR NLM_F_ACK OR NLM_F_CREATE" f w]
    assms small show ?thesis
    by (auto simp: add_table_batch_def op_def also_then_def split_beta Let_def)
qed

lemma chain_builder:
  assumes "length name < 1000"
  shows "appends (\<lambda>cur b.
     let b = put_name cur NFTA_CHAIN_TABLE TABLE_NAME b;
         b = put_name cur NFTA_CHAIN_NAME name b
     in if base then
                let (hook, b) = begin_nest cur NFTA_CHAIN_HOOK b;
                    b = put_attr cur NFTA_HOOK_HOOKNUM 4 (le32_bytes (bs32 1)) b;
                    b = put_attr cur NFTA_HOOK_PRIORITY 4 (le32_bytes (bs32 (-10))) b;
                    b = end_nest cur hook b;
                    b = put_str cur NFTA_CHAIN_TYPE ''filter'' b;
                    b = put_attr cur NFTA_CHAIN_FLAGS 4 (le32_bytes (bs32 NFT_CHAIN_BASE)) b
                in put_attr cur NFTA_CHAIN_POLICY 4 (le32_bytes (bs32 NF_ACCEPT)) b
              else b) (enc_attrs (chain_attrs name base))" (is "appends ?op _")
proof -
  let ?names = "also_then (\<lambda>nlh. put_name nlh NFTA_CHAIN_TABLE TABLE_NAME) (\<lambda>nlh. put_name nlh NFTA_CHAIN_NAME name)"
  let ?base = "also_then (nest NFTA_CHAIN_HOOK (also_then (\<lambda>nlh. put_attr nlh NFTA_HOOK_HOOKNUM 4 (be32_bytes 1))
        (\<lambda>nlh. put_attr nlh NFTA_HOOK_PRIORITY 4 (be32_bytes (-10)))))
      (also_then (\<lambda>nlh. put_str nlh NFTA_CHAIN_TYPE ''filter'')
      (also_then (\<lambda>nlh. put_attr nlh NFTA_CHAIN_FLAGS 4 (be32_bytes NFT_CHAIN_BASE))
        (\<lambda>nlh. put_attr nlh NFTA_CHAIN_POLICY 4 (be32_bytes NF_ACCEPT))))"
  have "?op = (if base then also_then ?names ?base else ?names)"
    by (intro ext) (simp add: also_then_def nest_def split_beta Let_def bs32_bytes)
  moreover have "appends ?names (enc_attrs [Leaf NFTA_CHAIN_TABLE (cstr TABLE_NAME), Leaf NFTA_CHAIN_NAME (cstr name)])"
    using assms by (intro builder; simp add: TABLE_NAME_def)
  moreover have "appends ?base (enc_attrs [Nest NFTA_CHAIN_HOOK [Leaf NFTA_HOOK_HOOKNUM (be32_bytes 1), Leaf NFTA_HOOK_PRIORITY (be32_bytes (-10))],
        Leaf NFTA_CHAIN_TYPE (cstr ''filter''), Leaf NFTA_CHAIN_FLAGS (be32_bytes NFT_CHAIN_BASE),
        Leaf NFTA_CHAIN_POLICY (be32_bytes NF_ACCEPT)])"
    by (intro builder; simp)
  ultimately show ?thesis
    using appends_then [of ?names _ ?base] by (simp add: chain_attrs_def del: enc_attrs_simps(2,3) append.simps)
qed

lemma add_chain_batch_bytes:
  assumes "length done = cur" and "200 \<le> length rest" and "length name < 16"
  shows "\<exists>rest'. add_chain_batch f name base (cur, done @ rest, w) =
      (length (done @ nft_command NFT_MSG_NEWCHAIN (NLM_F_REQUEST OR NLM_F_ACK) f (g_seq w + 1) (g_portid w) (chain_attrs name base)),
       (done @ nft_command NFT_MSG_NEWCHAIN (NLM_F_REQUEST OR NLM_F_ACK) f (g_seq w + 1) (g_portid w) (chain_attrs name base)) @ rest',
       w\<lparr>g_seq := g_seq w + 1\<rparr>)
    \<and> length rest' = length rest - (20 + length (enc_attrs (chain_attrs name base)))"
proof -
  have "align4 (5 + length name) < 9 + length name" using align4_less [of "5 + length name"] by simp
  then have small: "length (enc_attrs (chain_attrs name base)) \<le> 140"
    using assms(3) by (simp add: chain_attrs_def cstr_def TABLE_NAME_def align4_def del: enc_attr.simps)
  have name: "length name < 1000" using assms(3) by simp
  from built_at [OF chain_builder [OF name, of base] assms(1) _ _ refl, of rest NFT_MSG_NEWCHAIN "NLM_F_REQUEST OR NLM_F_ACK" f w]
    assms(1,2) small show ?thesis
    by (cases base) (auto simp: add_chain_batch_def split_beta Let_def)
qed

text \<open>One datagram creates the table and both chains of a family.\<close>

definition family_commands :: "byte \<Rightarrow> u32 \<Rightarrow> u32 \<Rightarrow> byte list" where
  "family_commands f sq pid =
     nft_command NFT_MSG_NEWTABLE (NLM_F_REQUEST OR NLM_F_ACK OR NLM_F_CREATE) f sq pid table_attrs
     @ nft_command NFT_MSG_NEWCHAIN (NLM_F_REQUEST OR NLM_F_ACK) f (sq + 1) pid (chain_attrs CHAIN_NAME True)
     @ nft_command NFT_MSG_NEWCHAIN (NLM_F_REQUEST OR NLM_F_ACK) f (sq + 2) pid (chain_attrs ALLOWED_NAME False)"

lemma create_family_bytes:
  "netlink_create_family_batch env f w =
     send_batch env (batch_frame NFNL_MSG_BATCH_BEGIN (g_seq w + 1) (g_portid w)
         @ family_commands f (g_seq w + 2) (g_portid w)
         @ batch_frame NFNL_MSG_BATCH_END (g_seq w + 5) (g_portid w))
       (w\<lparr>g_seq := g_seq w + 5\<rparr>)"
proof -
  define sq where "sq = g_seq w"
  define pid where "pid = g_portid w"
  let ?b = "batch_frame NFNL_MSG_BATCH_BEGIN (sq + 1) pid"
  let ?t = "nft_command NFT_MSG_NEWTABLE (NLM_F_REQUEST OR NLM_F_ACK OR NLM_F_CREATE) f (sq + 2) pid table_attrs"
  let ?c = "nft_command NFT_MSG_NEWCHAIN (NLM_F_REQUEST OR NLM_F_ACK) f (sq + 3) pid (chain_attrs CHAIN_NAME True)"
  let ?a = "nft_command NFT_MSG_NEWCHAIN (NLM_F_REQUEST OR NLM_F_ACK) f (sq + 4) pid (chain_attrs ALLOWED_NAME False)"
  let ?e = "batch_frame NFNL_MSG_BATCH_END (sq + 5) pid"
  have frame_len: "align4 (nlmsg_len (length pre) (pre @ batch_frame ty n p @ r)) = 20" for pre ty n p r
    using nlmsg_len_split [of pre "length pre" 20] by (simp add: batch_frame_def)
  have lens: "length (enc_attrs table_attrs) = 24" "length (enc_attrs (chain_attrs CHAIN_NAME True)) = 76"
    "length (enc_attrs (chain_attrs ALLOWED_NAME False)) = 32"
    by (simp_all add: table_attrs_def chain_attrs_def cstr_def name_defs align4_def del: enc_attr.simps)
  have b: "batch_msg 0 NFNL_MSG_BATCH_BEGIN NLM_F_REQUEST NFNL_SUBSYS_NFTABLES zero_buf w =
      (?b @ drop 20 zero_buf, w\<lparr>g_seq := sq + 1\<rparr>)"
    using batch_msg_bytes [of "[]" 0 zero_buf NFNL_MSG_BATCH_BEGIN w] by (simp add: zero_buf_def BUF_SIZE_def sq_def pid_def)
  obtain r1 where t: "add_table_batch f (20, ?b @ drop 20 zero_buf, w\<lparr>g_seq := sq + 1\<rparr>) = (length (?b @ ?t), (?b @ ?t) @ r1, w\<lparr>g_seq := sq + 2\<rparr>)"
    "length r1 = 4032"
    using add_table_batch_bytes [of ?b 20 "drop 20 zero_buf" f "w\<lparr>g_seq := sq + 1\<rparr>"] lens
    by (auto simp: zero_buf_def BUF_SIZE_def pid_def add.commute)
  obtain r2 where c: "add_chain_batch f CHAIN_NAME True (length (?b @ ?t), (?b @ ?t) @ r1, w\<lparr>g_seq := sq + 2\<rparr>)
      = (length ((?b @ ?t) @ ?c), ((?b @ ?t) @ ?c) @ r2, w\<lparr>g_seq := sq + 3\<rparr>)" "length r2 = 3936"
    using add_chain_batch_bytes [of "?b @ ?t" _ r1 CHAIN_NAME f True "w\<lparr>g_seq := sq + 2\<rparr>", OF refl] lens t(2)
    by (auto simp: CHAIN_NAME_def pid_def add.commute)
  obtain r3 where a: "add_chain_batch f ALLOWED_NAME False (length ((?b @ ?t) @ ?c), ((?b @ ?t) @ ?c) @ r2, w\<lparr>g_seq := sq + 3\<rparr>)
      = (length (((?b @ ?t) @ ?c) @ ?a), (((?b @ ?t) @ ?c) @ ?a) @ r3, w\<lparr>g_seq := sq + 4\<rparr>)" "length r3 = 3884"
    using add_chain_batch_bytes [of "(?b @ ?t) @ ?c" _ r2 ALLOWED_NAME f False "w\<lparr>g_seq := sq + 3\<rparr>", OF refl] lens c(2)
    by (auto simp: ALLOWED_NAME_def pid_def add.commute)
  have e: "batch_msg (length (((?b @ ?t) @ ?c) @ ?a)) NFNL_MSG_BATCH_END NLM_F_REQUEST NFNL_SUBSYS_NFTABLES
      ((((?b @ ?t) @ ?c) @ ?a) @ r3) (w\<lparr>g_seq := sq + 4\<rparr>) = ((((?b @ ?t) @ ?c) @ ?a) @ ?e @ drop 20 r3, w\<lparr>g_seq := sq + 5\<rparr>)"
    using batch_msg_bytes [of "((?b @ ?t) @ ?c) @ ?a" _ r3 NFNL_MSG_BATCH_END "w\<lparr>g_seq := sq + 4\<rparr>", OF refl] a(2)
    by (simp add: pid_def add.commute)
  have "netlink_create_family_batch env f w = nl_batch_talk env ((((?b @ ?t) @ ?c) @ ?a) @ ?e @ drop 20 r3)
      (length (((?b @ ?t) @ ?c) @ ?a) + 20) (w\<lparr>g_seq := sq + 5\<rparr>)"
    unfolding netlink_create_family_batch_def Let_def b prod.case frame_len [of "[]", simplified] t(1) c(1) a(1) e frame_len ..
  also have "\<dots> = send_batch env (?b @ family_commands f (sq + 2) pid @ ?e) (w\<lparr>g_seq := sq + 5\<rparr>)"
    by (subst nl_batch_talk_send) (simp_all add: family_commands_def add.commute)
  finally show ?thesis by (simp add: sq_def pid_def)
qed

section \<open>What an operation leaves behind\<close>

definition waits :: "int \<Rightarrow> syscall list \<Rightarrow> bool" where
  "waits fd cs \<longleftrightarrow> set cs \<subseteq> {Poll fd 100, Recv fd BUF_SIZE}"

lemma waits_simps [simp]:
  "waits fd []" "waits fd (c # cs) \<longleftrightarrow> (c = Poll fd 100 \<or> c = Recv fd BUF_SIZE) \<and> waits fd cs"
  "waits fd (cs @ ds) \<longleftrightarrow> waits fd cs \<and> waits fd ds"
  by (auto simp: waits_def)

definition waited :: "'a nl_scheme \<Rightarrow> 'a nl_scheme \<Rightarrow> bool" where
  "waited w w' \<longleftrightarrow> (\<exists>cs e. w' = w\<lparr>trace := trace w @ cs, errno := e\<rparr> \<and> waits (g_fd w) cs)"

lemma sys_do_eq: "sys_do env c w = w\<lparr>trace := trace w @ [c],
    errno := if ret (env (trace w) c) < 0 then err (env (trace w) c) else errno w\<rparr>"
  by (simp add: sys_do_def sys_def Let_def)

lemma waited_refl: "waited w w"
  unfolding waited_def by (intro exI [of _ "[]"] exI [of _ "errno w"]) simp

lemma waited_step: "c = Poll (g_fd w) 100 \<or> c = Recv (g_fd w) BUF_SIZE \<Longrightarrow> waited w (sys_do env c w)"
  unfolding waited_def sys_do_eq
  by (intro exI [of _ "[c]"] exI [of _ "if ret (env (trace w) c) < 0 then err (env (trace w) c) else errno w"]) auto

lemma waited_trans: "waited u v \<Longrightarrow> waited v w \<Longrightarrow> waited u w"
  unfolding waited_def by force

lemma waited_errno: "waited w w' \<Longrightarrow> waited w (w'\<lparr>errno := e\<rparr>)"
  unfolding waited_def by force

lemma waited_fd: "waited w w' \<Longrightarrow> g_fd w' = g_fd w"
  unfolding waited_def by force

lemma reply_cases:
  assumes "(if a then Some (0, w1) else if b then (if c then again else Some (0, w2)) else if d then again
     else case x of Some e \<Rightarrow> Some (-1, g e) | None \<Rightarrow> again) = Some rw"
  shows "rw = (0, w1) \<or> rw = (0, w2) \<or> (\<exists>e. rw = (-1, g e)) \<or> again = Some rw"
  using assms by (cases a; cases b; cases c; cases d; cases x; fastforce)

lemma replies_waited:
  assumes "process_batch_replies env w = Some (r, w')"
  shows "waited w w' \<and> (r = 0 \<or> r = -1)"
proof -
  have "waited w (snd rw) \<and> (fst rw = 0 \<or> fst rw = -1)" if "process_batch_replies env w = Some rw"
    for rw :: "int \<times> 'a nl_scheme"
  proof (rule process_batch_replies.raw_induct [where P = "\<lambda>env (w :: 'a nl_scheme) rw.
      waited w (snd rw) \<and> (fst rw = 0 \<or> fst rw = -1)", OF _ that])
    fix f :: "env \<Rightarrow> 'a nl_scheme \<Rightarrow> (int \<times> 'a nl_scheme) option" and env w rw
    assume IH: "\<And>env w rw. f env w = Some rw \<Longrightarrow> waited w (snd rw) \<and> (fst rw = 0 \<or> fst rw = -1)"
      and eq: "(let (r, w) = sys env (Poll (g_fd w) 100) w in
      if ret r \<le> 0 then Some (0, w)
      else
        let (r, w) = sys env (Recv (g_fd w) BUF_SIZE) w; n = ret r in
        if n < 0 then (if errno w = EINTR then f env w else Some (0, w))
        else if n < 16 then f env w
        else case scan_reply (take (nat n) (data r)) of
               Some e \<Rightarrow> Some (-1, w\<lparr>errno := e\<rparr>)
             | None \<Rightarrow> f env w) = Some rw"
    define w1 where "w1 = sys_do env (Poll (g_fd w) 100) w"
    define w2 where "w2 = sys_do env (Recv (g_fd w1) BUF_SIZE) w1"
    have s1: "waited w w1" unfolding w1_def by (rule waited_step) simp
    have s2: "waited w w2"
      using waited_trans [OF s1, of w2] waited_step [of "Recv (g_fd w1) BUF_SIZE" w1 env] by (simp add: w2_def)
    have "rw = (0, w1) \<or> rw = (0, w2) \<or> (\<exists>e. rw = (-1, w2\<lparr>errno := e\<rparr>)) \<or> f env w2 = Some rw"
      using eq unfolding sys_eq Let_def prod.case w1_def [symmetric] w2_def [symmetric]
      by (rule reply_cases)
    then show "waited w (snd rw) \<and> (fst rw = 0 \<or> fst rw = -1)"
      using s1 s2 IH [of env w2 rw] waited_trans [OF s2] waited_errno [OF s2] by (elim disjE exE) auto
  qed
  from this [OF assms] show ?thesis by simp
qed

text \<open>A command in the trace: its datagram, then only waiting.\<close>

definition sent :: "byte list \<Rightarrow> 'a nl_scheme \<Rightarrow> 'a nl_scheme \<Rightarrow> bool" where
  "sent bytes w w' \<longleftrightarrow> (\<exists>cs e n. w' = w\<lparr>trace := trace w @ Sendto (g_fd w) bytes nl_addr # cs, errno := e, g_seq := n\<rparr>
     \<and> waits (g_fd w) cs)"

lemma send_batch_sent:
  assumes "send_batch env bytes w = Some (r, w')"
  shows "sent bytes w w' \<and> (r = 0 \<or> r = -1)"
proof -
  define w1 where "w1 = sys_do env (Sendto (g_fd w) bytes nl_addr) w"
  from assms have "waited w1 w' \<and> (r = 0 \<or> r = -1)"
    using replies_waited [of env w1 r w'] waited_refl [of w1] waited_errno [OF waited_refl, of w1 EIO]
    by (auto simp: send_batch_def sys_eq Let_def simp flip: w1_def split: if_splits)
  then obtain cs e where "w' = w1\<lparr>trace := trace w1 @ cs, errno := e\<rparr>" "waits (g_fd w1) cs" "r = 0 \<or> r = -1"
    by (auto simp: waited_def)
  then show ?thesis unfolding sent_def
    by (intro conjI exI [of _ cs] exI [of _ e] exI [of _ "g_seq w"]) (simp_all add: w1_def sys_do_eq)
qed

lemma sent_seq: "sent bytes (w\<lparr>g_seq := n\<rparr>) w' \<Longrightarrow> sent bytes w w'"
  by (auto simp: sent_def)

lemma send_command_sent:
  assumes "send_command env type flags f as w = Some (r, w')"
  shows "sent (nft_batch (g_seq w + 2) (g_portid w) (nft_command type flags f (g_seq w + 1) (g_portid w) as)) w w'
    \<and> (r = 0 \<or> r = -1)"
  using send_batch_sent [OF assms [unfolded send_command_def]] sent_seq by blast

lemma sent_fields:
  assumes "sent bytes w w'"
  shows "g_fd w' = g_fd w" "g_portid w' = g_portid w" "g_next_handle w' = g_next_handle w" "nl.more w' = nl.more w"
    "extends w w'" "\<exists>cs. calls_since w w' = Sendto (g_fd w) bytes nl_addr # cs \<and> waits (g_fd w) cs"
  using assms by (auto simp: sent_def extends_def calls_since_def)

text \<open>
  A rule is inserted by exactly one datagram, the accept rule for the source; the handle returned
  is the one the module counts to, and zero reports a failure.
\<close>

lemma rule_insert_sends:
  assumes "netlink_rule_insert env src port iface w = Some (h, w')" and "ss_wf src"
    and "\<And>s. iface = Some s \<Longrightarrow> length s < 16"
    and "ucast (ss_family src) = (ucast AF_INET :: byte) \<or> ucast (ss_family src) = (ucast AF_INET6 :: byte)"
  shows "\<exists>w1. sent (nft_batch (g_seq w + 2) (g_portid w)
        (nft_command NFT_MSG_NEWRULE NEWRULE_FLAGS (ucast (ss_family src)) (g_seq w + 1) (g_portid w) (accept_rule src port iface))) w w1
      \<and> (h = 0 \<and> w' = w1 \<or> h = g_next_handle w \<and> w' = w1\<lparr>g_next_handle := g_next_handle w + 1\<rparr>)"
proof -
  have len: "length s < 1000" if "iface = Some s" for s using assms(3) [OF that] by simp
  have small: "length (enc_attrs (accept_rule src port iface)) \<le> 4000"
  proof -
    have "length (enc_attrs (accept_rule src port iface)) \<le> 600" by (rule rules_fit(1)) (rule assms)+
    then show ?thesis by linarith
  qed
  obtain r w1 where sc: "send_command env NFT_MSG_NEWRULE NEWRULE_FLAGS (ucast (ss_family src)) (accept_rule src port iface) w = Some (r, w1)"
    and res: "(if r \<noteq> 0 then Some (0, w1) else Some (g_next_handle w1, w1\<lparr>g_next_handle := g_next_handle w1 + 1\<rparr>)) = Some (h, w')"
    using assms(1) netlink_rule_insert_command [OF assms(2) len small assms(4), of env w]
    by (auto simp: bind_eq_Some_conv)
  note snt = conjunct1 [OF send_command_sent [OF sc]]
  show ?thesis
    using res sent_fields(3) [OF snt] snt by (intro exI [of _ w1]) (auto split: if_splits)
qed

section \<open>Returning\<close>

text \<open>
  The kernel answers a datagram with finitely many messages: some number of polls after the last
  send, a poll reports nothing. Then every operation returns.
\<close>

fun is_poll :: "syscall \<Rightarrow> bool" where
  "is_poll (Poll fd t) = True"
| "is_poll _ = False"

fun is_send :: "syscall \<Rightarrow> bool" where
  "is_send (Sendto fd bytes to) = True"
| "is_send _ = False"

definition polls_since_send :: "syscall list \<Rightarrow> nat" where
  "polls_since_send tr = length (filter is_poll (takeWhile (\<lambda>c. \<not> is_send c) (rev tr)))"

definition polls :: "'a os_scheme \<Rightarrow> nat" where
  "polls w = polls_since_send (trace w)"

definition finitely_many_replies :: "env \<Rightarrow> nat \<Rightarrow> bool" where
  "finitely_many_replies env n \<longleftrightarrow>
     (\<forall>tr fd t. n \<le> polls_since_send tr \<longrightarrow> ret (env tr (Poll fd t)) \<le> 0)"

lemma replies_return:
  assumes "finitely_many_replies env n"
  shows "\<exists>r w'. process_batch_replies env w = Some (r, w')"
proof (induction "n - polls w" arbitrary: w rule: less_induct)
  case less
  define w1 where "w1 = sys_do env (Poll (g_fd w) 100) w"
  define w2 where "w2 = sys_do env (Recv (g_fd w1) BUF_SIZE) w1"
  have polls2: "polls w2 = Suc (polls w)" by (simp add: polls_def polls_since_send_def w1_def w2_def)
  show ?case
  proof (cases "ret (env (trace w) (Poll (g_fd w) 100)) \<le> 0")
    case True
    then show ?thesis by (subst process_batch_replies.simps) (simp add: sys_eq Let_def)
  next
    case False
    then have "polls w < n" using assms unfolding finitely_many_replies_def polls_def by (meson not_le)
    then have again: "\<exists>r w'. process_batch_replies env w2 = Some (r, w')"
      by (intro less) (simp add: polls2)
    show ?thesis
      by (subst process_batch_replies.simps) (use again False in \<open>auto simp: sys_eq Let_def simp flip: w1_def w2_def split: option.split\<close>)
  qed
qed

lemma send_batch_returns:
  assumes "finitely_many_replies env n"
  shows "\<exists>r w'. send_batch env bytes w = Some (r, w')"
  using replies_return [OF assms] by (auto simp: send_batch_def sys_eq Let_def)

lemma send_command_returns:
  assumes "finitely_many_replies env n"
  shows "\<exists>r w'. send_command env type flags f as w = Some (r, w')"
  unfolding send_command_def by (rule send_batch_returns [OF assms])

lemma rule_insert_returns:
  assumes "finitely_many_replies env n" and "ss_wf src" and "\<And>s. iface = Some s \<Longrightarrow> length s < 16"
  shows "\<exists>h w'. netlink_rule_insert env src port iface w = Some (h, w')"
proof (cases "ucast (ss_family src) = (ucast AF_INET :: byte) \<or> ucast (ss_family src) = (ucast AF_INET6 :: byte)")
  case True
  have len: "length s < 1000" if "iface = Some s" for s using assms(3) [OF that] by simp
  have "length (enc_attrs (accept_rule src port iface)) \<le> 600" by (rule rules_fit(1)) (rule assms)+
  then have small: "length (enc_attrs (accept_rule src port iface)) \<le> 4000" by linarith
  obtain r w1 where "send_command env NFT_MSG_NEWRULE NEWRULE_FLAGS (ucast (ss_family src)) (accept_rule src port iface) w = Some (r, w1)"
    using send_command_returns [OF assms(1)] by blast
  then show ?thesis using netlink_rule_insert_command [OF assms(2) len small True, of env w] by simp
qed (simp add: netlink_rule_insert_def Let_def)

lemma flush_sends:
  assumes "flush_loop env fs w = Some (r, w')"
  shows "r = 0 \<and> g_fd w' = g_fd w \<and> g_portid w' = g_portid w \<and> g_next_handle w' = g_next_handle w
    \<and> nl.more w' = nl.more w \<and> extends w w'"
  using assms
proof (induction fs arbitrary: w)
  case (Cons f fs)
  then obtain q w1 where "send_command env NFT_MSG_DELRULE (NLM_F_REQUEST OR NLM_F_ACK) f (rule_place ALLOWED_NAME) w = Some (q, w1)"
    and rest: "flush_loop env fs w1 = Some (r, w')"
    unfolding flush_command by (auto simp: bind_eq_Some_conv)
  then show ?case
    using Cons.IH [OF rest] sent_fields [OF conjunct1 [OF send_command_sent]] extends_trans by metis
qed simp

lemma flush_returns:
  assumes "finitely_many_replies env n"
  shows "\<exists>w'. netlink_flush_chain env w = Some (0, w')"
proof -
  have "\<exists>w'. flush_loop env fs w = Some (0, w')" for fs
  proof (induction fs arbitrary: w)
    case (Cons f fs)
    obtain q w1 where "send_command env NFT_MSG_DELRULE (NLM_F_REQUEST OR NLM_F_ACK) f (rule_place ALLOWED_NAME) w = Some (q, w1)"
      using send_command_returns [OF assms] by blast
    then show ?case unfolding flush_command using Cons.IH [of w1] by simp
  qed simp
  then show ?thesis by (simp add: netlink_flush_chain_def)
qed

end
