(* ===== verification/Privdrop.thy ===== *)
theory Privdrop
  imports Os "HOL-Library.Sublist"
begin

text \<open>
  Dropping privileges (\<^verbatim>\<open>src/privdrop.c\<close>): the identities are given up in the order groups, group,
  user, and of the capabilities only \<open>CAP_NET_ADMIN\<close> is kept for the firewall.
\<close>

definition PR_SET_KEEPCAPS :: int where "PR_SET_KEEPCAPS = 8"
definition PR_SET_NO_NEW_PRIVS :: int where "PR_SET_NO_NEW_PRIVS = 38"
definition CAP_NET_ADMIN :: nat where "CAP_NET_ADMIN = 12"

definition priv_dest :: "bool \<Rightarrow> log_to" where
  "priv_dest fg = (if fg then Stderr else Syslog)"

definition priv_log_msg :: "env \<Rightarrow> bool \<Rightarrow> int \<Rightarrow> string \<Rightarrow> 'a os_scheme \<Rightarrow> 'a os_scheme" where
  "priv_log_msg env fg level msg w = sys_do env (Log (priv_dest fg) level (take 255 msg)) w"

text \<open>A message that ends in the text of the last error.\<close>

definition priv_log_errno :: "env \<Rightarrow> bool \<Rightarrow> int \<Rightarrow> string \<Rightarrow> 'a os_scheme \<Rightarrow> 'a os_scheme" where
  "priv_log_errno env fg level msg w = sys_do env (Log_errno (priv_dest fg) level msg (errno w)) w"

definition lookup_user_group :: "env \<Rightarrow> string \<Rightarrow> string \<Rightarrow> bool \<Rightarrow> 'a os_scheme \<Rightarrow> u32 \<times> u32 \<times> 'a os_scheme" where
  "lookup_user_group env user grp fg w =
     (let (pw, w) = sys env (Getpwnam user) w;
          (uid, w) = (if ret pw < 0
            then (65534, priv_log_msg env fg LOG_WARNING
                    (''warning: drop_privileges: unknown user '' @ user @ '', trying uid 65534'') w)
            else (word_of_int (ret pw), w));
          (gr, w) = sys env (Getgrnam grp) w;
          (gid, w) = (if ret gr < 0
            then (65534, priv_log_msg env fg LOG_WARNING
                    (''warning: drop_privileges: unknown group '' @ grp @ '', trying gid 65534'') w)
            else (word_of_int (ret gr), w))
      in (uid, gid, w))"

text \<open>
  One of the three calls of \<open>drop_ids\<close>: a failure other than a missing permission is reported and
  ends the function.
\<close>

definition drop_id :: "env \<Rightarrow> syscall \<Rightarrow> string \<Rightarrow> bool \<Rightarrow> 'a os_scheme \<Rightarrow> int \<times> 'a os_scheme" where
  "drop_id env c msg fg w =
     (let (r, w) = sys env c w
      in if ret r \<noteq> 0 \<and> errno w \<noteq> EPERM then (-1, priv_log_errno env fg LOG_ERR msg w) else (0, w))"

definition drop_ids :: "env \<Rightarrow> u32 \<Rightarrow> u32 \<Rightarrow> bool \<Rightarrow> 'a os_scheme \<Rightarrow> int \<times> 'a os_scheme" where
  "drop_ids env gid uid fg w =
     (let (r, w) = drop_id env (Setgroups [gid]) ''error: drop_privileges: setgroups: '' fg w in
      if r \<noteq> 0 then (-1, w)
      else let (r, w) = drop_id env (Setgid gid) ''error: drop_privileges: setgid: '' fg w in
      if r \<noteq> 0 then (-1, w)
      else let (r, w) = drop_id env (Setuid uid) ''error: drop_privileges: setuid: '' fg w in
      if r \<noteq> 0 then (-1, w) else (0, w))"

definition NET_ADMIN_ONLY :: "(u32 \<times> u32 \<times> u32) list" where
  "NET_ADMIN_ONLY = [(push_bit CAP_NET_ADMIN 1, push_bit CAP_NET_ADMIN 1, 0), (0, 0, 0)]"

definition keep_net_admin :: "env \<Rightarrow> bool \<Rightarrow> 'a os_scheme \<Rightarrow> 'a os_scheme" where
  "keep_net_admin env fg w =
     (let (r, w) = sys env Capget w in
      if ret r = 0 then
        let (r, w) = sys env (Capset NET_ADMIN_ONLY) w
        in if ret r \<noteq> 0 then priv_log_errno env fg LOG_WARNING ''warning: capset: '' w else w
      else priv_log_errno env fg LOG_WARNING ''warning: capget: '' w)"

text \<open>What follows the change of identities.\<close>

definition finish_drop :: "env \<Rightarrow> bool \<Rightarrow> 'a os_scheme \<Rightarrow> 'a os_scheme" where
  "finish_drop env fg w =
     (let w = keep_net_admin env fg w;
          (r, w) = sys env (Prctl PR_SET_NO_NEW_PRIVS [1, 0, 0, 0]) w;
          w = (if ret r \<noteq> 0 then priv_log_errno env fg LOG_WARNING ''warning: PR_SET_NO_NEW_PRIVS: '' w else w)
      in priv_log_msg env fg LOG_INFO ''privileges dropped'' w)"

definition drop_privileges :: "env \<Rightarrow> string \<Rightarrow> string \<Rightarrow> bool \<Rightarrow> 'a os_scheme \<Rightarrow> int \<times> 'a os_scheme" where
  "drop_privileges env user grp fg w =
     (let (r, w) = sys env Getuid w;
          (unprivileged, w) = (if ret r \<noteq> 0 then let (r, w) = sys env Geteuid w in (ret r \<noteq> 0, w) else (False, w)) in
      if unprivileged then (0, sys_do env (Prctl PR_SET_NO_NEW_PRIVS [1, 0, 0, 0]) w)
      else
        let (uid, gid, w) = lookup_user_group env user grp fg w;
            (r, w) = sys env (Prctl PR_SET_KEEPCAPS [1, 0, 0, 0]) w;
            w = (if ret r \<noteq> 0 then priv_log_errno env fg LOG_WARNING ''warning: PR_SET_KEEPCAPS: '' w else w);
            (r, w) = drop_ids env gid uid fg w in
        if r \<noteq> 0 then (-1, w) else (0, finish_drop env fg w))"

section \<open>What it leaves behind\<close>

text \<open>The calls that change identity or capabilities, in the order they were made.\<close>

definition is_id_call :: "syscall \<Rightarrow> bool" where
  "is_id_call c \<longleftrightarrow>
     (case c of Setgroups _ \<Rightarrow> True | Setgid _ \<Rightarrow> True | Setuid _ \<Rightarrow> True | Capset _ \<Rightarrow> True | Prctl _ _ \<Rightarrow> True | _ \<Rightarrow> False)"

lemma is_id_call_simps [simp]:
  "is_id_call (Setgroups gs)" "is_id_call (Setgid g)" "is_id_call (Setuid u)" "is_id_call (Capset cs)" "is_id_call (Prctl p as)"
  "\<not> is_id_call Getuid" "\<not> is_id_call Geteuid" "\<not> is_id_call (Getpwnam s)" "\<not> is_id_call (Getgrnam s)" "\<not> is_id_call Capget"
  "\<not> is_id_call (Log to p s)" "\<not> is_id_call (Log_errno to p s e)"
  by (simp_all add: is_id_call_def)

definition id_calls :: "'a os_scheme \<Rightarrow> 'b os_scheme \<Rightarrow> syscall list" where
  "id_calls w w' = filter is_id_call (calls_since w w')"

text \<open>
  The identities given up after a trace: each call succeeded, or the system lacked the permission
  to carry it out.
\<close>

definition ids_given_up :: "env \<Rightarrow> syscall list \<Rightarrow> u32 \<Rightarrow> u32 \<Rightarrow> bool" where
  "ids_given_up env tr gid uid \<longleftrightarrow>
     (ret (env tr (Setgroups [gid])) < 0 \<longrightarrow> err (env tr (Setgroups [gid])) = EPERM)
     \<and> (let r = env (tr @ [Setgroups [gid]]) (Setgid gid) in ret r < 0 \<longrightarrow> err r = EPERM)
     \<and> (let r = env (tr @ [Setgroups [gid], Setgid gid]) (Setuid uid) in ret r < 0 \<longrightarrow> err r = EPERM)"

named_theorems priv_defs

declare priv_log_msg_def [priv_defs] priv_log_errno_def [priv_defs] keep_net_admin_def [priv_defs] sys_eq [priv_defs] Let_def [priv_defs]

lemma lookup_adds:
  assumes "lookup_user_group env user grp fg w = (uid, gid, w')"
  shows "\<exists>cs. trace w' = trace w @ cs \<and> filter is_id_call cs = []" and "os.more w' = os.more w"
  using assms by (auto simp: lookup_user_group_def priv_defs split: if_splits prod.splits)

lemma drop_id_adds:
  assumes "drop_id env c msg fg w = (r, w')"
  shows "r = 0 \<Longrightarrow> trace w' = trace w @ [c]"
    and "r = 0 \<Longrightarrow> ret (env (trace w) c) < 0 \<Longrightarrow> err (env (trace w) c) = EPERM"
    and "r \<noteq> 0 \<Longrightarrow> r = -1 \<and> (\<exists>l. trace w' = trace w @ [c, l] \<and> \<not> is_id_call l)"
    and "os.more w' = os.more w"
  using assms by (auto simp: drop_id_def priv_defs sys_errno split: if_splits)

lemma keep_net_admin_adds:
  shows "\<exists>cs. trace (keep_net_admin env fg w) = trace w @ cs \<and> (filter is_id_call cs = [] \<or> filter is_id_call cs = [Capset NET_ADMIN_ONLY])"
    and "os.more (keep_net_admin env fg w) = os.more w"
  by (auto simp: priv_defs)

lemma drop_ids_success:
  assumes "drop_ids env gid uid fg w = (0, w')"
  shows "trace w' = trace w @ [Setgroups [gid], Setgid gid, Setuid uid]" and "ids_given_up env (trace w) gid uid"
  using assms by (auto simp: drop_ids_def drop_id_def ids_given_up_def priv_defs sys_errno split: if_splits)

lemma drop_ids_failure:
  assumes "drop_ids env gid uid fg w = (r, w')" and "r \<noteq> 0"
  shows "r = -1" and "\<exists>cs c msg e. trace w' = trace w @ cs @ [c, Log_errno (priv_dest fg) LOG_ERR msg e] \<and> e \<noteq> EPERM
      \<and> ret (env (trace w @ cs) c) \<noteq> 0 \<and> prefix (cs @ [c]) [Setgroups [gid], Setgid gid, Setuid uid]"
  using assms by (auto simp: drop_ids_def drop_id_def priv_defs sys_errno split: if_splits)

lemma drop_ids_adds:
  assumes "drop_ids env gid uid fg w = (r, w')"
  shows "r = 0 \<or> r = -1" and "extends w w'" and "os.more w' = os.more w"
  using assms by (auto simp: drop_ids_def drop_id_def priv_defs extends_def split: if_splits)

text \<open>
  The whole function: without privileges only \<open>NO_NEW_PRIVS\<close> is set; with them, the
  identities are given up in the order groups, group, user between \<open>KEEPCAPS\<close> and the reduction of
  the capabilities.
\<close>

definition no_new_privs :: syscall where
  "no_new_privs = Prctl PR_SET_NO_NEW_PRIVS [1, 0, 0, 0]"

definition keepcaps :: syscall where
  "keepcaps = Prctl PR_SET_KEEPCAPS [1, 0, 0, 0]"

definition unprivileged :: "env \<Rightarrow> syscall list \<Rightarrow> bool" where
  "unprivileged env tr \<longleftrightarrow> ret (env tr Getuid) \<noteq> 0 \<and> ret (env (tr @ [Getuid]) Geteuid) \<noteq> 0"

lemma finish_drop_adds:
  shows "\<exists>cs. trace (finish_drop env fg w) = trace w @ cs
      \<and> (filter is_id_call cs = [no_new_privs] \<or> filter is_id_call cs = [Capset NET_ADMIN_ONLY, no_new_privs])"
    and "os.more (finish_drop env fg w) = os.more w"
  unfolding finish_drop_def by (auto simp: priv_defs no_new_privs_def)

lemma drop_privileges_unprivileged:
  assumes "unprivileged env (trace w)"
  shows "\<exists>w'. drop_privileges env user grp fg w = (0, w') \<and> trace w' = trace w @ [Getuid, Geteuid, no_new_privs]
    \<and> os.more w' = os.more w"
  using assms by (simp add: drop_privileges_def unprivileged_def priv_defs no_new_privs_def)

lemma drop_privileges_privileged:
  assumes "\<not> unprivileged env (trace w)"
  obtains w1 uid gid cs where "trace w1 = trace w @ cs" and "filter is_id_call cs = [keepcaps]" and "os.more w1 = os.more w"
    and "drop_privileges env user grp fg w =
      (let (r, w) = drop_ids env gid uid fg w1 in
       if r \<noteq> 0 then (-1, w) else (0, finish_drop env fg w))"
proof -
  define w0 where "w0 = (if ret (env (trace w) Getuid) \<noteq> 0 then sys_do env Geteuid (sys_do env Getuid w) else sys_do env Getuid w)"
  obtain uid gid w1 where l: "lookup_user_group env user grp fg w0 = (uid, gid, w1)" by (cases "lookup_user_group env user grp fg w0")
  define w2 where "w2 = (if ret (env (trace w1) keepcaps) \<noteq> 0
      then priv_log_errno env fg LOG_WARNING ''warning: PR_SET_KEEPCAPS: '' (sys_do env keepcaps w1) else sys_do env keepcaps w1)"
  obtain cs where cs: "trace w1 = trace w0 @ cs" "filter is_id_call cs = []" using lookup_adds(1) [OF l] by blast
  show thesis
  proof (rule that)
    show "trace w2 = trace w @ calls_since w w2" "filter is_id_call (calls_since w w2) = [keepcaps]" "os.more w2 = os.more w"
      using cs lookup_adds(2) [OF l]
      by (auto simp: w2_def w0_def calls_since_def priv_log_errno_def keepcaps_def)
    show "drop_privileges env user grp fg w =
      (let (r, w) = drop_ids env gid uid fg w2 in
       if r \<noteq> 0 then (-1, w) else (0, finish_drop env fg w))"
      using assms l
      by (simp add: drop_privileges_def unprivileged_def sys_eq Let_def w0_def w2_def keepcaps_def split: if_splits)
  qed
qed

lemma drop_privileges_result:
  assumes "drop_privileges env user grp fg w = (r, w')" and "\<not> unprivileged env (trace w)"
  shows "r = 0 \<Longrightarrow> \<exists>gid uid pre caps. id_calls w w' = [keepcaps, Setgroups [gid], Setgid gid, Setuid uid] @ caps @ [no_new_privs]
      \<and> (caps = [] \<or> caps = [Capset NET_ADMIN_ONLY])
      \<and> prefix (pre @ [Setgroups [gid], Setgid gid, Setuid uid]) (trace w') \<and> ids_given_up env pre gid uid"
    and "r \<noteq> 0 \<Longrightarrow> r = -1 \<and> (\<exists>pre c msg e. trace w' = pre @ [c, Log_errno (priv_dest fg) LOG_ERR msg e]
      \<and> e \<noteq> EPERM \<and> ret (env pre c) \<noteq> 0 \<and> (\<exists>gid uid. c \<in> {Setgroups [gid], Setgid gid, Setuid uid}))"
    and "os.more w' = os.more w" and "extends w w'"
proof -
  obtain w1 uid gid cs where w1: "trace w1 = trace w @ cs" "filter is_id_call cs = [keepcaps]" "os.more w1 = os.more w"
    and eq: "(let (r, w) = drop_ids env gid uid fg w1 in
       if r \<noteq> 0 then (-1, w) else (0, finish_drop env fg w)) = (r, w')"
    by (rule drop_privileges_privileged [OF assms(2), of user grp fg]) (use assms(1) in \<open>simp only:\<close>)
  obtain q w2 where d: "drop_ids env gid uid fg w1 = (q, w2)" by (cases "drop_ids env gid uid fg w1")
  obtain ks where ks: "trace (finish_drop env fg w2) = trace w2 @ ks"
    "filter is_id_call ks = [no_new_privs] \<or> filter is_id_call ks = [Capset NET_ADMIN_ONLY, no_new_privs]"
    using finish_drop_adds(1) by metis
  show "os.more w' = os.more w"
    using eq drop_ids_adds(3) [OF d] finish_drop_adds(2) [of env fg w2] w1(3) by (auto simp: d split: if_splits)
  show "extends w w'"
    using eq drop_ids_adds(2) [OF d] w1(1) ks(1) by (auto simp: d extends_def split: if_splits)
  show "\<exists>gid uid pre caps. id_calls w w' = [keepcaps, Setgroups [gid], Setgid gid, Setuid uid] @ caps @ [no_new_privs]
      \<and> (caps = [] \<or> caps = [Capset NET_ADMIN_ONLY])
      \<and> prefix (pre @ [Setgroups [gid], Setgid gid, Setuid uid]) (trace w') \<and> ids_given_up env pre gid uid" if "r = 0"
  proof -
    have q: "q = 0" "w' = finish_drop env fg w2" using eq that by (auto simp: d split: if_splits)
    have t2: "trace w2 = trace w1 @ [Setgroups [gid], Setgid gid, Setuid uid]" "ids_given_up env (trace w1) gid uid"
      using drop_ids_success d q by blast+
    have calls: "id_calls w w' = [keepcaps, Setgroups [gid], Setgid gid, Setuid uid] @ filter is_id_call ks"
      using w1(1,2) t2(1) ks(1) q(2) by (simp add: id_calls_def calls_since_def)
    have pre: "prefix (trace w1 @ [Setgroups [gid], Setgid gid, Setuid uid]) (trace w')"
      using t2(1) ks(1) q(2) by simp
    from ks(2) show ?thesis
      using calls pre t2(2) by (elim disjE; intro exI [of _ gid] exI [of _ uid] exI [of _ "trace w1"] exI [of _ "butlast (filter is_id_call ks)"]) auto
  qed
  show "r = -1 \<and> (\<exists>pre c msg e. trace w' = pre @ [c, Log_errno (priv_dest fg) LOG_ERR msg e]
      \<and> e \<noteq> EPERM \<and> ret (env pre c) \<noteq> 0 \<and> (\<exists>gid uid. c \<in> {Setgroups [gid], Setgid gid, Setuid uid}))" if "r \<noteq> 0"
  proof -
    have q: "q \<noteq> 0" "r = -1" "w' = w2" using eq that by (auto simp: d split: if_splits)
    obtain cs c msg e where f: "trace w2 = trace w1 @ cs @ [c, Log_errno (priv_dest fg) LOG_ERR msg e]" "e \<noteq> EPERM"
      "ret (env (trace w1 @ cs) c) \<noteq> 0" "prefix (cs @ [c]) [Setgroups [gid], Setgid gid, Setuid uid]"
      using drop_ids_failure(2) [OF d q(1)] by blast
    have "c \<in> set [Setgroups [gid], Setgid gid, Setuid uid]" using f(4) by (metis in_set_conv_decomp set_mono_prefix subsetD)
    then show ?thesis using f q by (intro conjI exI [of _ "trace w1 @ cs"] exI [of _ c] exI [of _ msg] exI [of _ e]) auto
  qed
qed

end
