(* ===== verification/Seccomp.thy ===== *)
theory Seccomp
  imports Os
begin

text \<open>
  The system call filter (\<^verbatim>\<open>src/seccomp.c\<close>): a program for the kernel's packet filter machine,
  given to \<open>prctl\<close>. What differs between the platforms the code is built for, the audit
  architecture and the numbers of the calls its headers define, is the record \<open>target\<close>.

  \<open>bpf_run\<close> is the machine of the kernel's documentation for the three kinds of instruction the
  filter uses; \<open>None\<close> is a program the kernel refuses. \<open>filter_decides\<close> is what the filter does on
  every system call.
\<close>

section \<open>The machine\<close>

type_synonym sock_filter = "u16 \<times> byte \<times> byte \<times> u32"

definition BPF_STMT :: "u16 \<Rightarrow> u32 \<Rightarrow> sock_filter" where
  "BPF_STMT code k = (code, 0, 0, k)"

definition BPF_JUMP :: "u16 \<Rightarrow> u32 \<Rightarrow> byte \<Rightarrow> byte \<Rightarrow> sock_filter" where
  "BPF_JUMP code k jt jf = (code, jt, jf, k)"

definition BPF_LD_W_ABS :: u16 where "BPF_LD_W_ABS = 0x20"
definition BPF_JMP_JEQ_K :: u16 where "BPF_JMP_JEQ_K = 0x15"
definition BPF_RET_K :: u16 where "BPF_RET_K = 0x06"
definition SECCOMP_RET_ALLOW :: u32 where "SECCOMP_RET_ALLOW = 0x7fff0000"
definition SECCOMP_RET_KILL :: u32 where "SECCOMP_RET_KILL = 0"

lemmas bpf_codes = BPF_LD_W_ABS_def BPF_JMP_JEQ_K_def BPF_RET_K_def

text \<open>The call under test: its number, the architecture, then the other words of the structure.\<close>

record seccomp_data =
  sd_nr :: u32
  sd_arch :: u32
  sd_rest :: "u32 list"

definition sd_word :: "seccomp_data \<Rightarrow> u32 \<Rightarrow> u32 option" where
  "sd_word sd k =
     (let ws = sd_nr sd # sd_arch sd # sd_rest sd
      in if unat k mod 4 = 0 \<and> unat k div 4 < length ws then Some (ws ! (unat k div 4)) else None)"

function bpf_run :: "sock_filter list \<Rightarrow> u32 \<Rightarrow> seccomp_data \<Rightarrow> u32 option" where
  "bpf_run [] a sd = None"
| "bpf_run ((code, jt, jf, k) # p) a sd =
     (if code = BPF_LD_W_ABS then (case sd_word sd k of None \<Rightarrow> None | Some v \<Rightarrow> bpf_run p v sd)
      else if code = BPF_JMP_JEQ_K then bpf_run (drop (unat (if a = k then jt else jf)) p) a sd
      else if code = BPF_RET_K then Some k
      else None)"
  by pat_completeness auto
termination by (relation "measure (\<lambda>(p, a, sd). length p)") auto

section \<open>The filter\<close>

record target =
  AUDIT_ARCH_NATIVE :: u32
  sys_nr :: "string \<Rightarrow> u32 option"

definition ALLOW :: "u32 \<Rightarrow> sock_filter list" where
  "ALLOW nr = [BPF_JUMP BPF_JMP_JEQ_K nr 0 1, BPF_STMT BPF_RET_K SECCOMP_RET_ALLOW]"

text \<open>The names in the order of the source; one the target's headers do not define adds nothing.\<close>

definition allowed_names :: "string list" where
  "allowed_names =
     [''read'', ''write'', ''writev'', ''close'', ''mmap'', ''mmap2'', ''mprotect'', ''munmap'', ''brk'',
      ''rt_sigaction'', ''rt_sigprocmask'', ''getpid'', ''gettimeofday'', ''sendto'', ''recvfrom'', ''exit'',
      ''arch_prctl'', ''futex'', ''clock_gettime'', ''clock_gettime64'', ''poll'', ''ppoll'', ''epoll_wait'',
      ''epoll_pwait'', ''epoll_ctl'', ''exit_group'', ''getrandom'']"

definition allow_defined :: "target \<Rightarrow> string \<Rightarrow> sock_filter list" where
  "allow_defined t name = (case sys_nr t name of Some nr \<Rightarrow> ALLOW nr | None \<Rightarrow> [])"

definition seccomp_filter :: "target \<Rightarrow> sock_filter list" where
  "seccomp_filter t =
     [BPF_STMT BPF_LD_W_ABS 4,
      BPF_JUMP BPF_JMP_JEQ_K (AUDIT_ARCH_NATIVE t) 1 0,
      BPF_STMT BPF_RET_K SECCOMP_RET_KILL,
      BPF_STMT BPF_LD_W_ABS 0]
     @ concat (map (allow_defined t) allowed_names)
     @ [BPF_STMT BPF_RET_K SECCOMP_RET_KILL]"

definition apply_filter :: "env \<Rightarrow> target \<Rightarrow> 'a os_scheme \<Rightarrow> int \<times> 'a os_scheme" where
  "apply_filter env t w = (let (r, w) = sys env (Set_seccomp_filter (seccomp_filter t)) w in (ret r, w))"

definition msg_fail :: "env \<Rightarrow> bool \<Rightarrow> 'a os_scheme \<Rightarrow> 'a os_scheme" where
  "msg_fail env fg w =
     (if fg then sys_do env (Log_errno Stderr LOG_WARNING ''warning: seccomp filter not available: '' (errno w)) w
      else sys_do env (Log_errno Syslog LOG_WARNING ''seccomp filter not available: '' (errno w)) w)"

definition msg_ok :: "env \<Rightarrow> bool \<Rightarrow> 'a os_scheme \<Rightarrow> 'a os_scheme" where
  "msg_ok env fg w = sys_do env (Log (if fg then Stderr else Syslog) LOG_INFO ''seccomp filter installed'') w"

definition install_seccomp :: "env \<Rightarrow> target \<Rightarrow> bool \<Rightarrow> 'a os_scheme \<Rightarrow> int \<times> 'a os_scheme" where
  "install_seccomp env t fg w =
     (let (r, w) = apply_filter env t w
      in if r \<noteq> 0 then (-1, msg_fail env fg w) else (0, msg_ok env fg w))"

text \<open>The numbers of the x86-64 and 32-bit ARM headers.\<close>

definition x86_64 :: target where
  "x86_64 = \<lparr>AUDIT_ARCH_NATIVE = 0xC000003E, sys_nr = map_of
     [(''read'', 0), (''write'', 1), (''writev'', 20), (''close'', 3), (''mmap'', 9), (''mprotect'', 10),
      (''munmap'', 11), (''brk'', 12), (''rt_sigaction'', 13), (''rt_sigprocmask'', 14), (''getpid'', 39),
      (''gettimeofday'', 96), (''sendto'', 44), (''recvfrom'', 45), (''exit'', 60), (''arch_prctl'', 158),
      (''futex'', 202), (''clock_gettime'', 228), (''poll'', 7), (''ppoll'', 271), (''epoll_wait'', 232),
      (''epoll_pwait'', 281), (''epoll_ctl'', 233), (''exit_group'', 231), (''getrandom'', 318),
      (''open'', 2), (''socket'', 41), (''connect'', 42), (''execve'', 59), (''time'', 201)]\<rparr>"

definition arm :: target where
  "arm = \<lparr>AUDIT_ARCH_NATIVE = 0x40000028, sys_nr = map_of
     [(''read'', 3), (''write'', 4), (''writev'', 146), (''close'', 6), (''mmap2'', 192), (''mprotect'', 125),
      (''munmap'', 91), (''brk'', 45), (''rt_sigaction'', 174), (''rt_sigprocmask'', 175), (''getpid'', 20),
      (''gettimeofday'', 78), (''sendto'', 290), (''recvfrom'', 292), (''exit'', 1), (''futex'', 240),
      (''clock_gettime'', 263), (''clock_gettime64'', 403), (''poll'', 168), (''ppoll'', 336),
      (''epoll_wait'', 252), (''epoll_pwait'', 346), (''epoll_ctl'', 251), (''exit_group'', 248),
      (''getrandom'', 384), (''open'', 5), (''execve'', 11)]\<rparr>"

section \<open>What the filter decides\<close>

definition allowed_nrs :: "target \<Rightarrow> u32 list" where
  "allowed_nrs t = List.map_filter (sys_nr t) allowed_names"

definition permits :: "target \<Rightarrow> seccomp_data \<Rightarrow> bool" where
  "permits t sd \<longleftrightarrow> sd_arch sd = AUDIT_ARCH_NATIVE t \<and> sd_nr sd \<in> set (allowed_nrs t)"

lemma run_allow:
  "bpf_run (ALLOW nr @ p) a sd = (if a = nr then Some SECCOMP_RET_ALLOW else bpf_run p a sd)"
  by (simp add: ALLOW_def BPF_JUMP_def BPF_STMT_def bpf_codes)

lemma run_allow_list:
  "bpf_run (concat (map (allow_defined t) names) @ p) a sd =
    (if a \<in> set (List.map_filter (sys_nr t) names) then Some SECCOMP_RET_ALLOW else bpf_run p a sd)"
  by (induction names) (auto simp: allow_defined_def run_allow map_filter_simps split: option.split)

lemma sd_words: "sd_word sd 0 = Some (sd_nr sd)" "sd_word sd 4 = Some (sd_arch sd)"
  by (simp_all add: sd_word_def)

lemma filter_decides:
  "bpf_run (seccomp_filter t) a sd = Some (if permits t sd then SECCOMP_RET_ALLOW else SECCOMP_RET_KILL)"
proof -
  have "bpf_run (seccomp_filter t) a sd =
      (if sd_arch sd = AUDIT_ARCH_NATIVE t
       then bpf_run (concat (map (allow_defined t) allowed_names) @ [BPF_STMT BPF_RET_K SECCOMP_RET_KILL]) (sd_nr sd) sd
       else Some SECCOMP_RET_KILL)"
    by (simp add: seccomp_filter_def BPF_STMT_def BPF_JUMP_def bpf_codes sd_words)
  then show ?thesis
    unfolding run_allow_list by (simp add: permits_def allowed_nrs_def BPF_STMT_def bpf_codes)
qed

text \<open>The program is short enough for the kernel and for the 16-bit length in \<open>sock_fprog\<close>.\<close>

lemma length_allows: "length (concat (map (allow_defined t) names)) \<le> 2 * length names"
  by (induction names) (auto simp: allow_defined_def ALLOW_def split: option.split)

lemma length_filter_le: "length (seccomp_filter t) \<le> 59"
  using length_allows [of t allowed_names] by (simp add: seccomp_filter_def allowed_names_def)

lemma install_seccomp_calls:
  assumes "install_seccomp env t fg w = (r, w')"
  shows "\<exists>c. calls_since w w' = [Set_seccomp_filter (seccomp_filter t), c]"
    and "r = 0 \<longleftrightarrow> ret (env (trace w) (Set_seccomp_filter (seccomp_filter t))) = 0"
    and "os.more w' = os.more w"
  using assms
  by (auto simp: install_seccomp_def apply_filter_def msg_fail_def msg_ok_def sys_eq Let_def calls_since_def
      split: if_splits)

text \<open>The calls of a turn of the loop, and with the shutdown all the daemon makes once the filter is in place.\<close>

definition turn_call :: "syscall \<Rightarrow> bool" where
  "turn_call c \<longleftrightarrow>
     (case c of
        Epoll_wait _ _ _ \<Rightarrow> True | Recvfrom _ _ \<Rightarrow> True | Recv _ _ \<Rightarrow> True | Sendto _ _ _ \<Rightarrow> True
      | Poll _ _ \<Rightarrow> True | Read _ _ \<Rightarrow> True | Time \<Rightarrow> True | Clock_monotonic \<Rightarrow> True
      | Log _ _ _ \<Rightarrow> True | Log_signal _ _ \<Rightarrow> True | Log_accepted _ _ _ _ \<Rightarrow> True | _ \<Rightarrow> False)"

lemma turn_call_simps [simp]:
  "turn_call (Epoll_wait e m t)" "turn_call (Recvfrom fd n)" "turn_call (Recv fd n)" "turn_call (Sendto fd b a)"
  "turn_call (Poll fd t)" "turn_call (Read fd n)" "turn_call Time" "turn_call Clock_monotonic"
  "turn_call (Log to p s)" "turn_call (Log_signal to q)" "turn_call (Log_accepted to i r h)"
  by (simp_all add: turn_call_def)

definition loop_call :: "syscall \<Rightarrow> bool" where
  "loop_call c \<longleftrightarrow> turn_call c \<or> c = Closelog \<or> (\<exists>fd. c = Close fd)"

text \<open>
  Some of the functions called are system calls of their own name in the Linux manual. Of the
  others, the clocks, \<open>recv\<close> and the logging, this development says nothing: which system calls
  carry them out is the C library's choice.
\<close>

definition own_name :: "syscall \<Rightarrow> string option" where
  "own_name c =
     (case c of
        Epoll_wait _ _ _ \<Rightarrow> Some ''epoll_wait'' | Recvfrom _ _ \<Rightarrow> Some ''recvfrom'' | Sendto _ _ _ \<Rightarrow> Some ''sendto''
      | Poll _ _ \<Rightarrow> Some ''poll'' | Read _ _ \<Rightarrow> Some ''read'' | Close _ \<Rightarrow> Some ''close''
      | Socket _ _ _ \<Rightarrow> Some ''socket'' | Bind _ _ \<Rightarrow> Some ''bind'' | Open _ \<Rightarrow> Some ''open'' | Stat _ \<Rightarrow> Some ''stat''
      | Setgroups _ \<Rightarrow> Some ''setgroups'' | Setgid _ \<Rightarrow> Some ''setgid'' | Setuid _ \<Rightarrow> Some ''setuid''
      | Prctl _ _ \<Rightarrow> Some ''prctl'' | Capset _ \<Rightarrow> Some ''capset'' | Set_seccomp_filter _ \<Rightarrow> Some ''prctl''
      | _ \<Rightarrow> None)"

lemma own_name_allowed:
  assumes "loop_call c" and "own_name c = Some name"
  shows "name \<in> set allowed_names"
  using assms by (cases c) (auto simp: loop_call_def turn_call_def own_name_def allowed_names_def)

lemma own_call_permitted:
  assumes "loop_call c" and "own_name c = Some name" and "sys_nr t name = Some nr"
  shows "bpf_run (seccomp_filter t) 0 \<lparr>sd_nr = nr, sd_arch = AUDIT_ARCH_NATIVE t, sd_rest = rest\<rparr> = Some SECCOMP_RET_ALLOW"
proof -
  have "nr \<in> set (allowed_nrs t)"
    using own_name_allowed [OF assms(1,2)] assms(3) by (force simp: allowed_nrs_def map_filter_def image_iff)
  then show ?thesis by (simp add: filter_decides permits_def)
qed

end
