(* ===== verification/Daemon.thy ===== *)
theory Daemon
  imports Replay Parse_Opts Udp Netlink Privdrop Seccomp
begin

text \<open>
  The daemon (\<^verbatim>\<open>src/main.c\<close>): setting up the firewall, the sockets and the event loop, deciding on
  a packet, opening and expiring rules, and the program's entry.

  The state of the whole process is the record \<open>world\<close>: the calls made and \<open>errno\<close>, the netlink
  module's variables, and the static tables of the replay and rate modules. The structure
  \<open>struct daemon\<close> is the record \<open>daemon\<close>. A function that talks to the kernel returns an option,
  \<open>None\<close> if it never returns; \<open>daemon_cleanup\<close> does, and so does whatever calls it.

  Locals that the code leaves uninitialised are read from \<open>stk\<close>, what the stack holds at that
  point of the run, about which nothing is assumed but the sizes (\<open>frame_ok\<close>).
\<close>

definition EPOLL_MAXEVENTS :: int where "EPOLL_MAXEVENTS = 64"
definition PRUNE_INTERVAL :: int where "PRUNE_INTERVAL = 5"
definition MAX_DYNAMIC_RULES :: nat where "MAX_DYNAMIC_RULES = 256"

definition EPOLLIN :: u32 where "EPOLLIN = 1"
definition EPOLLET :: u32 where "EPOLLET = 0x80000000"

record world = nl +
  w_replay :: replay_table
  w_rates :: rate_table

record dynamic_rule =
  dr_handle :: u64
  dr_family :: byte
  dr_expiry :: time_t
  dr_active :: bool
  dr_addr :: sockaddr_storage

record daemon =
  d_cfg :: config
  udp_fds :: "int list"
  num_udp_fds :: nat
  epoll_fd :: int
  signal_fd :: int
  maxevents :: int
  last_prune :: time_t
  rules :: "dynamic_rule list"
  num_rules :: nat

record frame =
  fr_src_ip :: ip_addr_t
  fr_addrbuf :: sockaddr_storage
  fr_buf :: "byte list"
  fr_src :: sockaddr_storage

type_synonym stack = "syscall list \<Rightarrow> frame"

definition log_msg :: "env \<Rightarrow> config \<Rightarrow> int \<Rightarrow> string \<Rightarrow> 'a os_scheme \<Rightarrow> 'a os_scheme" where
  "log_msg env cfg priority msg w = sys_do env (Log (if foreground cfg then Stderr else Syslog) priority msg) w"

section \<open>The secret file\<close>

text \<open>The bytes of the file without the line ends and blanks at their end.\<close>

fun trim_loop :: "byte list \<Rightarrow> nat \<Rightarrow> nat" where
  "trim_loop buf 0 = 0"
| "trim_loop buf (Suc len) = (if buf ! len \<in> {10, 13, 32} then trim_loop buf len else Suc len)"

definition string_of_bytes :: "byte list \<Rightarrow> string" where
  "string_of_bytes bs = map (\<lambda>b. char_of (unat b)) (takeWhile (\<lambda>b. b \<noteq> 0) bs)"

definition read_secret_file :: "env \<Rightarrow> string \<Rightarrow> config \<Rightarrow> 'a os_scheme \<Rightarrow> config option \<times> 'a os_scheme" where
  "read_secret_file env path cfg w =
     (let (r, w) = sys env (Stat path) w in
      if ret r \<noteq> 0 then (None, w)
      else
        let (r, w) = sys env (Open path) w; fd = ret r in
        if fd < 0 then (None, w)
        else
          let (r, w) = sys env (Read fd 4095) w in
          if ret r < 0 then (None, sys_do env (Close fd) w)
          else
            let w = sys_do env (Close fd) w;
                buf = take (nat (ret r)) (data r);
                buf = take (trim_loop buf (length buf)) buf
            in case secret_decode (Some (string_of_bytes buf)) SECRET_SIZE of
                 None \<Rightarrow> (None, w)
               | Some (out, enc) \<Rightarrow>
                   (Some (cfg\<lparr>cfg_secret := poke 0 out (cfg_secret cfg), secret_len := length out\<rparr>), w))"

section \<open>The rules that are open\<close>

definition rule_track :: "daemon \<Rightarrow> u64 \<Rightarrow> byte \<Rightarrow> time_t \<Rightarrow> sockaddr_storage option \<Rightarrow> daemon" where
  "rule_track d handle f expiry adr =
     (case find (\<lambda>i. \<not> dr_active (rules d ! i)) [0..<MAX_DYNAMIC_RULES] of
        None \<Rightarrow> d
      | Some i \<Rightarrow>
          let e = (rules d ! i)\<lparr>dr_handle := handle, dr_family := f, dr_expiry := expiry, dr_active := True\<rparr>;
              e = (case adr of None \<Rightarrow> e | Some a \<Rightarrow> e\<lparr>dr_addr := a\<rparr>)
          in d\<lparr>rules := (rules d)[i := e], num_rules := if num_rules d \<le> i then i + 1 else num_rules d\<rparr>)"

text \<open>The second loop of \<open>rule_prune\<close>, over the slots in use.\<close>

fun prune_loop :: "env \<Rightarrow> time_t \<Rightarrow> nat list \<Rightarrow> daemon \<Rightarrow> 'a nl_scheme \<Rightarrow> (daemon \<times> 'a nl_scheme) option" where
  "prune_loop env now [] d w = Some (d, w)"
| "prune_loop env now (i # is) d w =
     (let e = rules d ! i in
      if \<not> dr_active e then prune_loop env now is d w
      else if now < dr_expiry e then do {
        (h, w) \<leftarrow> netlink_rule_insert env (dr_addr e) (target_port (d_cfg d)) (Some (cfg_iface (d_cfg d))) w;
        prune_loop env now is (if h \<noteq> 0 then d\<lparr>rules := (rules d)[i := e\<lparr>dr_handle := h\<rparr>]\<rparr> else d) w
      }
      else prune_loop env now is (d\<lparr>rules := (rules d)[i := e\<lparr>dr_active := False\<rparr>]\<rparr>) w)"

definition rule_expired :: "daemon \<Rightarrow> time_t \<Rightarrow> nat \<Rightarrow> bool" where
  "rule_expired d now i \<longleftrightarrow> dr_active (rules d ! i) \<and> dr_expiry (rules d ! i) \<le> now"

definition rule_prune :: "env \<Rightarrow> daemon \<Rightarrow> time_t \<Rightarrow> 'a nl_scheme \<Rightarrow> (daemon \<times> 'a nl_scheme) option" where
  "rule_prune env d now w =
     (if list_ex (rule_expired d now) [0..<num_rules d]
      then do { (_, w) \<leftarrow> netlink_flush_chain env w; prune_loop env now [0..<num_rules d] d w }
      else Some (d, w))"

section \<open>Shutting down\<close>

definition close_fd :: "env \<Rightarrow> int \<Rightarrow> 'a os_scheme \<Rightarrow> 'a os_scheme" where
  "close_fd env fd w = (if 0 \<le> fd then sys_do env (Close fd) w else w)"

fun close_udp :: "env \<Rightarrow> nat list \<Rightarrow> daemon \<Rightarrow> 'a os_scheme \<Rightarrow> daemon \<times> 'a os_scheme" where
  "close_udp env [] d w = (d, w)"
| "close_udp env (i # is) d w =
     (if 0 \<le> udp_fds d ! i
      then close_udp env is (d\<lparr>udp_fds := (udp_fds d)[i := -1]\<rparr>) (sys_do env (Close (udp_fds d ! i)) w)
      else close_udp env is d w)"

definition zero_rule :: dynamic_rule where
  "zero_rule = \<lparr>dr_handle = 0, dr_family = 0, dr_expiry = 0, dr_active = False, dr_addr = replicate 128 0\<rparr>"

definition zero_rules :: "dynamic_rule list" where
  "zero_rules = replicate MAX_DYNAMIC_RULES zero_rule"

definition daemon_cleanup :: "env \<Rightarrow> daemon \<Rightarrow> 'a nl_scheme \<Rightarrow> (daemon \<times> 'a nl_scheme) option" where
  "daemon_cleanup env d w =
     (let w = close_fd env (signal_fd d) w;
          d = (if 0 \<le> signal_fd d then d\<lparr>signal_fd := -1\<rparr> else d);
          w = close_fd env (epoll_fd d) w;
          d = (if 0 \<le> epoll_fd d then d\<lparr>epoll_fd := -1\<rparr> else d);
          (d, w) = close_udp env [0..<num_udp_fds d] d w;
          d = d\<lparr>num_udp_fds := 0, rules := zero_rules, num_rules := 0\<rparr>
      in do {
           w \<leftarrow> netlink_cleanup env w;
           Some (d, if foreground (d_cfg d) then w else sys_do env Closelog w)
         })"

text \<open>The error exit of the set-up functions: report, clean up, return -1.\<close>

definition setup_fail :: "env \<Rightarrow> string \<Rightarrow> daemon \<Rightarrow> config \<Rightarrow> 'a nl_scheme \<Rightarrow> (int \<times> daemon \<times> 'a nl_scheme) option" where
  "setup_fail env msg d cfg w = do {
     (d, w) \<leftarrow> daemon_cleanup env d (log_msg env cfg LOG_ERR msg w);
     Some (-1, d, w)
   }"

section \<open>Setting up\<close>

definition iface_arg :: "config \<Rightarrow> string option" where
  "iface_arg cfg = (if cfg_iface cfg \<noteq> [] then Some (cfg_iface cfg) else None)"

text \<open>A step that must succeed, and what follows it.\<close>

definition setup_step :: "env \<Rightarrow> string \<Rightarrow> daemon \<Rightarrow> config \<Rightarrow> (int \<times> 'a nl_scheme) option
    \<Rightarrow> ('a nl_scheme \<Rightarrow> (int \<times> daemon \<times> 'a nl_scheme) option) \<Rightarrow> (int \<times> daemon \<times> 'a nl_scheme) option" where
  "setup_step env msg d cfg m k = do {
     (r, w) \<leftarrow> m;
     if r \<noteq> 0 then setup_fail env msg d cfg w else k w
   }"

definition daemon_setup_netlink :: "env \<Rightarrow> daemon \<Rightarrow> config \<Rightarrow> 'a nl_scheme \<Rightarrow> (int \<times> daemon \<times> 'a nl_scheme) option" where
  "daemon_setup_netlink env d cfg w =
     setup_step env ''netlink_init failed'' d cfg (netlink_init env w) (\<lambda>w. do {
       (r, w) \<leftarrow> netlink_flush_chain env w;
       let w = (if r \<noteq> 0 then log_msg env cfg LOG_WARNING ''netlink_flush_chain failed'' w else w);
       setup_step env ''netlink_add_established_rule failed'' d cfg (netlink_add_established_rule env (iface_arg cfg) w) (\<lambda>w.
       setup_step env ''netlink_add_jump_allowed failed'' d cfg (netlink_add_jump_allowed env w) (\<lambda>w.
       setup_step env ''netlink_add_default_drop failed'' d cfg (netlink_add_default_drop env (target_port cfg) (iface_arg cfg) w)
         (\<lambda>w. Some (0, d, w))))
     })"

fun open_ports :: "env \<Rightarrow> nat list \<Rightarrow> daemon \<Rightarrow> config \<Rightarrow> 'a nl_scheme \<Rightarrow> (int \<times> daemon \<times> 'a nl_scheme) option" where
  "open_ports env [] d cfg w = Some (0, d, w)"
| "open_ports env (i # is) d cfg w =
     (let (fd, w) = udp_open env (la_addr (ports cfg ! i)) (la_addrlen (ports cfg ! i)) w;
          d = d\<lparr>udp_fds := (udp_fds d)[i := fd]\<rparr> in
      if fd < 0 then setup_fail env ''udp_open failed'' d cfg w
      else
        let d = d\<lparr>num_udp_fds := i + 1\<rparr>;
            (r, w) = sys env (Epoll_add (epoll_fd d) fd (EPOLLIN OR EPOLLET)) w in
        if ret r \<noteq> 0 then setup_fail env ''epoll_ctl ADD udp failed'' d cfg w
        else open_ports env is d cfg w)"

definition daemon_setup_epoll :: "env \<Rightarrow> daemon \<Rightarrow> config \<Rightarrow> 'a nl_scheme \<Rightarrow> (int \<times> daemon \<times> 'a nl_scheme) option" where
  "daemon_setup_epoll env d cfg w =
     (let (r, w) = sys env Epoll_create w;
          d = d\<lparr>epoll_fd := ret r\<rparr> in
      if epoll_fd d < 0 then setup_fail env ''epoll_create1 failed'' d cfg w
      else do {
        (r, d, w) \<leftarrow> open_ports env [0..<num_ports cfg] d cfg w;
        if r \<noteq> 0 then Some (-1, d, w)
        else
          let w = sys_do env Block_signals w;
              (r, w) = sys env Signalfd w;
              d = d\<lparr>signal_fd := ret r\<rparr> in
          if signal_fd d < 0 then setup_fail env ''signalfd failed'' d cfg w
          else
            let (r, w) = sys env (Epoll_add (epoll_fd d) (signal_fd d) EPOLLIN) w in
            if ret r \<noteq> 0 then setup_fail env ''epoll_ctl ADD signalfd failed'' d cfg w
            else Some (0, d, w)
      })"

definition rd64 :: "nat \<Rightarrow> byte list \<Rightarrow> u64" where
  "rd64 i b = ucast (rd32 i b) OR push_bit 32 (ucast (rd32 (i + 4) b))"

definition daemon_setup :: "env \<Rightarrow> daemon \<Rightarrow> config \<Rightarrow> 'a nl_scheme \<Rightarrow> (int \<times> daemon \<times> 'a nl_scheme) option" where
  "daemon_setup env d cfg w =
     (let d = d\<lparr>d_cfg := cfg, udp_fds := replicate MAX_PORTS (-1), num_udp_fds := 0, epoll_fd := -1, signal_fd := -1\<rparr>;
          (r, w) = sys env Clock_monotonic w;
          d = d\<lparr>last_prune := ret r, rules := zero_rules, num_rules := 0\<rparr>;
          (r, w) = sys env Getrlimit_nofile w;
          d = d\<lparr>maxevents := if ret r = 0 \<and> rd64 0 (data r) < word_of_int EPOLL_MAXEVENTS
                              then uint (rd64 0 (data r)) else EPOLL_MAXEVENTS\<rparr>;
          w = (if foreground cfg then w else sys_do env Openlog w)
      in do {
           (r, d, w) \<leftarrow> daemon_setup_netlink env d cfg w;
           if r \<noteq> 0 then Some (-1, d, w)
           else do {
             (r, d, w) \<leftarrow> daemon_setup_epoll env d cfg w;
             if r \<noteq> 0 then Some (-1, d, w) else Some (0, d, w)
           }
         })"

section \<open>Events\<close>

definition daemon_handle_signal :: "env \<Rightarrow> daemon \<Rightarrow> 'a os_scheme \<Rightarrow> int \<times> 'a os_scheme" where
  "daemon_handle_signal env d w =
     (let (r, w) = sys env (Read (signal_fd d) 128) w
      in (1, if 0 < ret r
             then sys_do env (Log_signal (if foreground (d_cfg d) then Stderr else Syslog) (rd32 0 (data r))) w
             else w))"

definition IN6_IS_ADDR_V4MAPPED :: "byte list \<Rightarrow> bool" where
  "IN6_IS_ADDR_V4MAPPED a \<longleftrightarrow> take 12 a = replicate 10 0 @ [255, 255]"

text \<open>The port, the address key and the address the rule is made for.\<close>

definition normalize_src :: "sockaddr_storage \<Rightarrow> sockaddr_storage \<Rightarrow> ip_addr_t \<Rightarrow> u16 \<times> ip_addr_t \<times> sockaddr_storage" where
  "normalize_src src buf ip =
     (if ss_family src = AF_INET then (ntohs (sin_port src), ip, src)
      else if IN6_IS_ADDR_V4MAPPED (sin6_addr src) then
        let in4 = poke 0 (replicate 16 0) buf;
            in4 = poke 0 (le16_bytes AF_INET) in4;
            in4 = poke 2 (sin_port src) in4;
            in4 = poke 4 (drop 12 (sin6_addr src)) in4;
            ip = ip\<lparr>family := AF_INET, addr := poke 4 (replicate 12 0) (poke 0 (drop 12 (sin6_addr src)) (addr ip))\<rparr>
        in (ntohs (sin_port src), ip, in4)
      else (ntohs (sin_port src), ip, src))"

definition handle_one_packet ::
    "env \<Rightarrow> stack \<Rightarrow> byte list \<Rightarrow> int \<Rightarrow> sockaddr_storage \<Rightarrow> daemon \<Rightarrow> world \<Rightarrow> (daemon \<times> world) option" where
  "handle_one_packet env stk buf len src d w =
     (let src_ip = ip_from_sockaddr src (fr_src_ip (stk (trace w)));
          (src_port, src_ip, rule_addr) = normalize_src src (fr_addrbuf (stk (trace w))) src_ip;
          cfg = d_cfg d;
          (r, w) = sys env Time w;
          now = ret r in
      if rate_limit_check (w_rates w) src_ip now \<noteq> 0
      then Some (d, log_msg env cfg LOG_WARNING ''rate limited, dropping'' w)
      else
        case auth_parse (Some (take (nat len) buf)) of
          None \<Rightarrow>
            let w = log_msg env cfg LOG_WARNING ''auth_parse failed'' w
            in Some (d, w\<lparr>w_rates := rate_limit_fail (w_rates w) src_ip now (rate_limit cfg)\<rparr>)
        | Some token \<Rightarrow>
            let (v, replay) = auth_validate (w_replay w) (take (secret_len cfg) (cfg_secret cfg)) token
                  (daemon_params src_ip now) (ret (env (trace w) Time)) in
            if v \<noteq> 0 then
              let w = log_msg env cfg LOG_WARNING ''auth_validate failed'' w
              in Some (d, w\<lparr>w_rates := rate_limit_fail (w_rates w) src_ip now (rate_limit cfg)\<rparr>)
            else
              let w = sys_do env Time w;
                  w = w\<lparr>w_replay := replay\<rparr>;
                  w = w\<lparr>w_rates := rate_limit_success (w_rates w) src_ip\<rparr>
              in do {
                   (rule_handle, w) \<leftarrow> netlink_rule_insert env rule_addr (target_port cfg) (iface_arg cfg) w;
                   if rule_handle = 0 then Some (d, log_msg env cfg LOG_ERR ''netlink_rule_insert failed'' w)
                   else
                     let d = rule_track d rule_handle (ucast (ss_family rule_addr)) (now + uint (cfg_timeout cfg)) (Some rule_addr)
                     in Some (d, sys_do env (Log_accepted (if foreground cfg then Stderr else Syslog) src_ip src_port rule_handle) w)
                 })"

text \<open>The packets of one socket, until a receive returns nothing.\<close>

partial_function (option) recv_loop ::
    "env \<Rightarrow> stack \<Rightarrow> int \<Rightarrow> byte list \<Rightarrow> sockaddr_storage \<Rightarrow> daemon \<Rightarrow> world \<Rightarrow> (daemon \<times> world) option" where
  "recv_loop env stk fd buf src d w = do {
     (r, w) \<leftarrow> udp_recv env fd buf src (Some 128) w;
     if 0 < r_n r then do {
       (d, w) \<leftarrow> handle_one_packet env stk (r_buf r) (r_n r) (r_src r) d w;
       recv_loop env stk fd (r_buf r) (r_src r) d w
     }
     else Some (d, w)
   }"

fun event_loop :: "env \<Rightarrow> stack \<Rightarrow> int list \<Rightarrow> daemon \<Rightarrow> world \<Rightarrow> (int \<times> daemon \<times> world) option" where
  "event_loop env stk [] d w = Some (0, d, w)"
| "event_loop env stk (fd # fds) d w =
     (if fd = signal_fd d then let (r, w) = daemon_handle_signal env d w in Some (r, d, w)
      else
        let udp_fd = (case find (\<lambda>u. fd = u) (take (num_udp_fds d) (udp_fds d)) of Some u \<Rightarrow> u | None \<Rightarrow> -1) in
        if 0 \<le> udp_fd then do {
          (d, w) \<leftarrow> recv_loop env stk udp_fd (fr_buf (stk (trace w))) (fr_src (stk (trace w))) d w;
          event_loop env stk fds d w
        }
        else event_loop env stk fds d w)"

definition daemon_process :: "env \<Rightarrow> stack \<Rightarrow> daemon \<Rightarrow> world \<Rightarrow> (int \<times> daemon \<times> world) option" where
  "daemon_process env stk d w =
     (let (r, w) = sys env (Epoll_wait (epoll_fd d) (maxevents d) 1000) w; nfds = ret r in
      if nfds < 0 then Some (if errno w = EINTR then 0 else -1, d, w)
      else
        let (ts, w) = sys env Clock_monotonic w;
            (tm, w) = sys env Time w;
            now = ret tm
        in do {
             (d, w) \<leftarrow>
               (if PRUNE_INTERVAL \<le> ret ts - last_prune d
                then let d = d\<lparr>last_prune := ret ts\<rparr>;
                         w = w\<lparr>w_replay := auth_replay_prune (w_replay w) now 3600\<rparr>
                     in rule_prune env d now w
                else Some (d, w));
             event_loop env stk (take (nat nfds) (ready r)) d w
           })"

section \<open>The program\<close>

partial_function (option) run_loop :: "env \<Rightarrow> stack \<Rightarrow> config \<Rightarrow> daemon \<Rightarrow> world \<Rightarrow> (daemon \<times> world) option" where
  "run_loop env stk cfg d w = do {
     (r, d, w) \<leftarrow> daemon_process env stk d w;
     if r = 0 then (if test_mode cfg then Some (d, w) else run_loop env stk cfg d w) else Some (d, w)
   }"

definition daemon_run :: "env \<Rightarrow> target \<Rightarrow> stack \<Rightarrow> daemon \<Rightarrow> config \<Rightarrow> world \<Rightarrow> (int \<times> world) option" where
  "daemon_run env tgt stk d cfg w = do {
     (r, d, w) \<leftarrow> daemon_setup env d cfg w;
     if r \<noteq> 0 then Some (1, w)
     else
       let (r, w) = drop_privileges env (cfg_user cfg) (cfg_group cfg) (foreground cfg) w in
       if r \<noteq> 0 then do { (d, w) \<leftarrow> daemon_cleanup env d w; Some (1, w) }
       else
         let (_, w) = install_seccomp env tgt (foreground cfg) w
         in do {
              (d, w) \<leftarrow> run_loop env stk cfg d w;
              (d, w) \<leftarrow> daemon_cleanup env d w;
              Some (0, w)
            }
   }"

definition default_config :: config where
  "default_config = \<lparr>ports = replicate MAX_PORTS \<lparr>la_addr = replicate 128 0, la_addrlen = 0\<rparr>, num_ports = 0,
     target_port = 22, cfg_secret = replicate SECRET_SIZE 0, secret_len = 0, cfg_timeout = 30,
     cfg_user = ''nobody'', cfg_group = ''nogroup'', cfg_iface = [], secret_file = [], foreground = False,
     test_mode = False, rate_limit = \<lparr>min_block = 300, max_block = 86400, max_fails = 5, fail_window = 60\<rparr>\<rparr>"

definition daemon_main :: "env \<Rightarrow> target \<Rightarrow> stack \<Rightarrow> daemon \<Rightarrow> gai \<Rightarrow> (char \<times> string) list \<Rightarrow> world \<Rightarrow> (int \<times> world) option" where
  "daemon_main env tgt stk d gai os w =
     (case parse_daemon_args gai default_config os of
        Opt_exit \<Rightarrow> Some (0, w)
      | Opt_error \<Rightarrow> Some (1, w)
      | Opt_ok cfg \<Rightarrow>
          let (res, w) = (if secret_file cfg \<noteq> [] then read_secret_file env (secret_file cfg) cfg w else (Some cfg, w))
          in case res of None \<Rightarrow> Some (1, w) | Some cfg \<Rightarrow> daemon_run env tgt stk d cfg w)"

end
