(* ===== verification/Firewall.thy ===== *)
theory Firewall
  imports Netlink
begin

text \<open>
  The firewall's side of \<^verbatim>\<open>src/netlink.c\<close>: every operation as the list of abstract messages it
  sends. \<open>encodes\<close> gives the bytes of a message, up to its sequence number and port;
  \<open>talks ms w w'\<close> says that between two states exactly the messages \<open>ms\<close> were sent, in this order,
  and nothing was done besides but waiting for the replies.

  \<open>established_loop\<close>, \<open>jump_loop\<close> and \<open>drop_loop\<close> share a contract, the locale \<open>rule_family\<close>.
\<close>

datatype fw_msg =
    Create_table byte
  | Delete_table byte
  | Flush string byte
  | Established byte "string option"
  | Jump byte
  | Drop_port byte u16 "string option"
  | Accept sockaddr_storage u16 "string option"

definition command_msg :: "u16 \<Rightarrow> u16 \<Rightarrow> byte \<Rightarrow> attr list \<Rightarrow> byte list \<Rightarrow> bool" where
  "command_msg type flags f as b \<longleftrightarrow> (\<exists>sq pid. b = nft_batch (sq + 1) pid (nft_command type flags f sq pid as))"

definition new_rule :: "byte \<Rightarrow> attr list \<Rightarrow> byte list \<Rightarrow> bool" where
  "new_rule = command_msg NFT_MSG_NEWRULE NEWRULE_FLAGS"

fun encodes :: "fw_msg \<Rightarrow> byte list \<Rightarrow> bool" where
  "encodes (Create_table f) b \<longleftrightarrow> (\<exists>sq pid. b = batch_frame NFNL_MSG_BATCH_BEGIN sq pid
     @ family_commands f (sq + 1) pid @ batch_frame NFNL_MSG_BATCH_END (sq + 4) pid)"
| "encodes (Delete_table f) b \<longleftrightarrow>
     command_msg NFT_MSG_DELTABLE (NLM_F_REQUEST OR NLM_F_ACK) f [Leaf NFTA_TABLE_NAME (cstr TABLE_NAME)] b"
| "encodes (Flush chain f) b \<longleftrightarrow> command_msg NFT_MSG_DELRULE (NLM_F_REQUEST OR NLM_F_ACK) f (rule_place chain) b"
| "encodes (Established f iface) b \<longleftrightarrow> new_rule f (established_rule iface) b"
| "encodes (Jump f) b \<longleftrightarrow> new_rule f jump_rule b"
| "encodes (Drop_port f port iface) b \<longleftrightarrow> new_rule f (drop_rule port iface) b"
| "encodes (Accept ra port iface) b \<longleftrightarrow> new_rule (ucast (ss_family ra)) (accept_rule ra port iface) b"

lemma sys_do_nl [simp]: "g_fd (sys_do env c w) = g_fd w" "g_portid (sys_do env c w) = g_portid w"
    "nl.more (sys_do env c w) = nl.more w"
  by (simp_all add: sys_do_eq)

section \<open>What was sent\<close>

definition sent_msgs :: "syscall list \<Rightarrow> byte list list" where
  "sent_msgs cs = concat (map (\<lambda>c. case c of Sendto _ b _ \<Rightarrow> [b] | _ \<Rightarrow> []) cs)"

lemma sent_msgs_simps [simp]:
  "sent_msgs [] = []" "sent_msgs (cs @ ds) = sent_msgs cs @ sent_msgs ds"
  "sent_msgs (Sendto fd b a # cs) = b # sent_msgs cs"
  by (simp_all add: sent_msgs_def)

lemma sent_msgs_other [simp]: "\<not> is_send c \<Longrightarrow> sent_msgs (c # cs) = sent_msgs cs"
  by (cases c) (simp_all add: sent_msgs_def)

lemma sent_msgs_waits: "waits fd cs \<Longrightarrow> sent_msgs cs = []"
  by (induction cs) auto

definition talk :: "int \<Rightarrow> fw_msg list \<Rightarrow> syscall list \<Rightarrow> bool" where
  "talk fd ms cs \<longleftrightarrow> list_all2 encodes ms (sent_msgs cs)
     \<and> set cs \<subseteq> {Poll fd 100, Recv fd BUF_SIZE} \<union> range (\<lambda>b. Sendto fd b nl_addr)"

lemma talk_Nil [simp]: "talk fd [] []"
  by (simp add: talk_def)

lemma talk_append: "talk fd ms cs \<Longrightarrow> talk fd ns ds \<Longrightarrow> talk fd (ms @ ns) (cs @ ds)"
  by (auto simp: talk_def list_all2_appendI)

definition talks :: "fw_msg list \<Rightarrow> 'a nl_scheme \<Rightarrow> 'a nl_scheme \<Rightarrow> bool" where
  "talks ms w w' \<longleftrightarrow> (\<exists>cs. trace w' = trace w @ cs \<and> talk (g_fd w) ms cs)
     \<and> g_fd w' = g_fd w \<and> g_portid w' = g_portid w \<and> nl.more w' = nl.more w"

lemma talks_Nil [simp]: "talks [] w w"
  by (auto simp: talks_def)

lemma talks_trans: "talks ms u v \<Longrightarrow> talks ns v w \<Longrightarrow> talks (ms @ ns) u w"
  by (fastforce simp: talks_def intro: talk_append)

lemma talks_count [simp]: "talks ms w (w'\<lparr>g_next_handle := n\<rparr>) \<longleftrightarrow> talks ms w w'"
  by (simp add: talks_def)

lemma sent_talks:
  assumes "sent b w w'" and "encodes m b"
  shows "talks [m] w w'"
proof -
  obtain cs where cs: "trace w' = trace w @ Sendto (g_fd w) b nl_addr # cs" "waits (g_fd w) cs"
    using assms(1) by (auto simp: sent_def)
  then have "talk (g_fd w) [m] (Sendto (g_fd w) b nl_addr # cs)"
    using assms(2) sent_msgs_waits [OF cs(2)] by (auto simp: talk_def waits_def)
  then show ?thesis using cs(1) sent_fields [OF assms(1)] by (auto simp: talks_def)
qed

lemma command_talks:
  assumes "send_command env type flags f as w = Some (r, w')"
    and "\<And>b. command_msg type flags f as b \<Longrightarrow> encodes m b"
  shows "talks [m] w w'" and "r = 0 \<or> r = -1" and "g_next_handle w' = g_next_handle w"
proof -
  note s = send_command_sent [OF assms(1)]
  have "command_msg type flags f as (nft_batch (g_seq w + 1 + 1) (g_portid w) (nft_command type flags f (g_seq w + 1) (g_portid w) as))"
    unfolding command_msg_def by blast
  then have "encodes m (nft_batch (g_seq w + 2) (g_portid w) (nft_command type flags f (g_seq w + 1) (g_portid w) as))"
    using assms(2) by (simp add: add.assoc)
  then show "talks [m] w w'" "r = 0 \<or> r = -1" "g_next_handle w' = g_next_handle w"
    using s sent_talks sent_fields(3) by blast+
qed

section \<open>Rules for each family\<close>

definition iface_ok :: "string option \<Rightarrow> bool" where
  "iface_ok iface \<longleftrightarrow> (\<forall>s. iface = Some s \<longrightarrow> length s < 16)"

text \<open>
  The contract of the three loops: a rule is sent for one family after the other and counted,
  and a failure ends the loop.
\<close>

locale rule_family =
  fixes env :: env
    and loop :: "byte list \<Rightarrow> 'a nl_scheme \<Rightarrow> (int \<times> 'a nl_scheme) option"
    and rule :: "attr list" and msg :: "byte \<Rightarrow> fw_msg" and fits :: bool
  assumes no_family: "loop [] w = Some (0, w)"
    and step: "fits \<Longrightarrow> loop (f # fs) w = then_count (send_command env NFT_MSG_NEWRULE NEWRULE_FLAGS f rule w) (loop fs)"
    and msg: "new_rule f rule b \<Longrightarrow> encodes (msg f) b"
begin

lemma loop_talks:
  assumes "loop fs w = Some (r, w')" and "fits"
  shows "\<exists>k. talks (map msg (take k fs)) w w'
    \<and> (r = 0 \<and> k = length fs \<and> g_next_handle w' = g_next_handle w + of_nat (length fs) \<or> r = -1)"
  using assms
proof (induction fs arbitrary: w)
  case Nil
  then show ?case by (simp add: no_family)
next
  case (Cons f fs)
  obtain q w1 where q: "send_command env NFT_MSG_NEWRULE NEWRULE_FLAGS f rule w = Some (q, w1)"
    and rest: "(if q \<noteq> 0 then Some (-1, w1) else loop fs (w1\<lparr>g_next_handle := g_next_handle w1 + 1\<rparr>)) = Some (r, w')"
    using Cons.prems by (auto simp: step then_count_def bind_eq_Some_conv)
  have t: "talks [msg f] w w1" "g_next_handle w1 = g_next_handle w"
    using command_talks(1,3) [OF q, of "msg f"] msg by (auto simp: new_rule_def)
  show ?case
  proof (cases "q = 0")
    case False
    then have "w' = w1" "r = -1" using rest by auto
    then show ?thesis using t(1) by (intro exI [of _ 1]) simp
  next
    case True
    then obtain k where k: "talks (map msg (take k fs)) (w1\<lparr>g_next_handle := g_next_handle w1 + 1\<rparr>) w'"
      "r = 0 \<and> k = length fs \<and> g_next_handle w' = g_next_handle w1 + 1 + of_nat (length fs) \<or> r = -1"
      using Cons.IH [of "w1\<lparr>g_next_handle := g_next_handle w1 + 1\<rparr>"] rest Cons.prems(2) by auto
    have "talks ([msg f] @ map msg (take k fs)) w w'"
      using talks_trans [of "[msg f]" w "w1\<lparr>g_next_handle := g_next_handle w1 + 1\<rparr>"] t(1) k(1) by simp
    then show ?thesis using k(2) t(2) by (intro exI [of _ "Suc k"]) auto
  qed
qed

lemma loop_returns:
  assumes "finitely_many_replies env n" and "fits"
  shows "\<exists>r w'. loop fs w = Some (r, w')"
proof (induction fs arbitrary: w)
  case Nil
  then show ?case by (simp add: no_family)
next
  case (Cons f fs)
  obtain q w1 where "send_command env NFT_MSG_NEWRULE NEWRULE_FLAGS f rule w = Some (q, w1)"
    using send_command_returns [OF assms(1)] by blast
  then show ?case using Cons.IH by (simp add: step [OF assms(2)] then_count_def)
qed

end

lemma fits_buffers:
  assumes "iface_ok iface"
  shows "\<And>s. iface = Some s \<Longrightarrow> length s < 1000" "length (enc_attrs (established_rule iface)) \<le> 4000"
    "length (enc_attrs (drop_rule port iface)) \<le> 4000"
proof -
  have i: "\<And>s. iface = Some s \<Longrightarrow> length s < 16" using assms by (simp add: iface_ok_def)
  then show "\<And>s. iface = Some s \<Longrightarrow> length s < 1000" by fastforce
  have "ss_wf (replicate 128 0)" by (simp add: ss_wf_def)
  then have "length (enc_attrs (drop_rule port iface)) \<le> 600" "length (enc_attrs (established_rule iface)) \<le> 600"
    using rules_fit(2,3) [where iface = iface] i by blast+
  then show "length (enc_attrs (established_rule iface)) \<le> 4000" "length (enc_attrs (drop_rule port iface)) \<le> 4000"
    by linarith+
qed

interpretation established: rule_family env "established_loop env iface" "established_rule iface"
    "\<lambda>f. Established f iface" "iface_ok iface" for env iface
proof unfold_locales
  show "established_loop env iface (f # fs) w =
      then_count (send_command env NFT_MSG_NEWRULE NEWRULE_FLAGS f (established_rule iface) w) (established_loop env iface fs)"
    if "iface_ok iface" for f fs and w :: "'a nl_scheme"
    by (rule established_command) (simp_all add: fits_buffers [OF that])
qed simp_all

interpretation jump: rule_family env "jump_loop env" jump_rule Jump True for env
  by unfold_locales (simp, rule jump_command, simp)

lemma then_count_bind: "do { (r, w) \<leftarrow> then_count m (\<lambda>w. Some (0, w)); if r \<noteq> 0 then Some (-1, w) else k w } = then_count m k"
  by (cases m) (auto simp: then_count_def)

interpretation drop_rules: rule_family env "drop_loop env port iface" "drop_rule port iface"
    "\<lambda>f. Drop_port f port iface" "iface_ok iface" for env port iface
  by unfold_locales (simp_all add: drop_command fits_buffers then_count_bind)

section \<open>The other operations\<close>

lemma flush_talks:
  assumes "flush_loop env fs w = Some (r, w')"
  shows "r = 0 \<and> talks (map (Flush ALLOWED_NAME) fs) w w' \<and> g_next_handle w' = g_next_handle w"
  using assms
proof (induction fs arbitrary: w)
  case (Cons f fs)
  then obtain q w1 where q: "send_command env NFT_MSG_DELRULE (NLM_F_REQUEST OR NLM_F_ACK) f (rule_place ALLOWED_NAME) w = Some (q, w1)"
    and rest: "flush_loop env fs w1 = Some (r, w')"
    unfolding flush_command by (auto simp: bind_eq_Some_conv)
  have "talks [Flush ALLOWED_NAME f] w w1" "g_next_handle w1 = g_next_handle w"
    using command_talks(1,3) [OF q, of "Flush ALLOWED_NAME f"] by simp_all
  then show ?case using Cons.IH [OF rest] talks_trans [of "[Flush ALLOWED_NAME f]" w w1] by simp
qed simp

lemma rule_insert_talks:
  assumes "netlink_rule_insert env src port iface w = Some (h, w')" and "ss_wf src" and "iface_ok iface"
    and "ucast (ss_family src) = (ucast AF_INET :: byte) \<or> ucast (ss_family src) = (ucast AF_INET6 :: byte)"
  shows "talks [Accept src port iface] w w'"
    and "h = 0 \<or> h = g_next_handle w \<and> g_next_handle w' = g_next_handle w + 1"
proof -
  obtain w1 where s: "sent (nft_batch (g_seq w + 2) (g_portid w)
        (nft_command NFT_MSG_NEWRULE NEWRULE_FLAGS (ucast (ss_family src)) (g_seq w + 1) (g_portid w) (accept_rule src port iface))) w w1"
    and r: "h = 0 \<and> w' = w1 \<or> h = g_next_handle w \<and> w' = w1\<lparr>g_next_handle := g_next_handle w + 1\<rparr>"
    using rule_insert_sends [OF assms(1,2) _ assms(4)] assms(3) by (auto simp: iface_ok_def)
  have "encodes (Accept src port iface) (nft_batch (g_seq w + 1 + 1) (g_portid w)
        (nft_command NFT_MSG_NEWRULE NEWRULE_FLAGS (ucast (ss_family src)) (g_seq w + 1) (g_portid w) (accept_rule src port iface)))"
    unfolding encodes.simps new_rule_def command_msg_def by blast
  then have "talks [Accept src port iface] w w1" using sent_talks [OF s] by (simp add: add.assoc)
  then show "talks [Accept src port iface] w w'" using r by auto
  show "h = 0 \<or> h = g_next_handle w \<and> g_next_handle w' = g_next_handle w + 1" using r by auto
qed

lemma delete_table_talks:
  assumes "netlink_delete_table env f w = Some w'"
  shows "talks [Delete_table f] w w'"
  using assms command_talks(1) [of env NFT_MSG_DELTABLE "NLM_F_REQUEST OR NLM_F_ACK" f _ w _ _ "Delete_table f"]
  by (auto simp: delete_table_command bind_eq_Some_conv)

lemma create_family_talks:
  assumes "netlink_create_family_batch env f w = Some (r, w')"
  shows "talks [Create_table f] w w'" and "r = 0 \<or> r = -1"
proof -
  let ?b = "batch_frame NFNL_MSG_BATCH_BEGIN (g_seq w + 1) (g_portid w)
         @ family_commands f (g_seq w + 1 + 1) (g_portid w) @ batch_frame NFNL_MSG_BATCH_END (g_seq w + 1 + 4) (g_portid w)"
  have s: "sent ?b w w' \<and> (r = 0 \<or> r = -1)"
    using assms unfolding create_family_bytes using send_batch_sent sent_seq by (fastforce simp: add.assoc)
  have "encodes (Create_table f) ?b" unfolding encodes.simps by blast
  then show "talks [Create_table f] w w'" "r = 0 \<or> r = -1" using s sent_talks by blast+
qed

section \<open>Starting and stopping\<close>

definition init_msgs :: "fw_msg list" where
  "init_msgs = map Delete_table fam @ map Create_table fam"

lemma nl_close_fields [simp]:
  "g_fd (nl_close env w) = -1" "trace (nl_close env w) = trace w @ [Close (g_fd w)]" "nl.more (nl_close env w) = nl.more w"
  by (simp_all add: nl_close_def Let_def sys_do_eq)

text \<open>
  A successful start opens the socket and replaces both tables; after a failure the socket is
  closed and nothing else can be sent.
\<close>

lemma netlink_init_success:
  assumes "netlink_init env w = Some (0, w')"
  shows "\<exists>cs. trace w' = trace w @ [Socket AF_NETLINK SOCK_RAW_CLOEXEC NETLINK_NETFILTER, Bind (g_fd w') nl_addr, Getsockname (g_fd w')] @ cs
      \<and> talk (g_fd w') init_msgs cs"
    and "0 \<le> g_fd w'" and "g_next_handle w' = 6" and "nl.more w' = nl.more w"
proof -
  define fd where "fd = ret (env (trace w) (Socket AF_NETLINK SOCK_RAW_CLOEXEC NETLINK_NETFILTER))"
  define w1 where "w1 = (sys_do env (Socket AF_NETLINK SOCK_RAW_CLOEXEC NETLINK_NETFILTER) w)\<lparr>g_fd := fd, g_seq := 0\<rparr>"
  define w2 where "w2 = sys_do env (Bind fd nl_addr) w1"
  define w3 where "w3 = (sys_do env (Getsockname fd) w2)\<lparr>g_portid := rd32 4 (poke 0 (take 12 (peer (env (trace w2) (Getsockname fd)))) nl_addr)\<rparr>"
  have f: "g_fd w1 = fd" "g_fd w2 = fd" "g_fd w3 = fd" "nl.more w3 = nl.more w"
    "trace w3 = trace w @ [Socket AF_NETLINK SOCK_RAW_CLOEXEC NETLINK_NETFILTER, Bind fd nl_addr, Getsockname fd]"
    by (simp_all add: w1_def w2_def w3_def)
  have "0 \<le> fd" and "do {
      w \<leftarrow> netlink_delete_table env (ucast AF_INET) w3;
      w \<leftarrow> netlink_delete_table env (ucast AF_INET6) w;
      (r, w) \<leftarrow> netlink_create_family_batch env (ucast AF_INET) w;
      if r \<noteq> 0 then Some (-1, nl_close env w)
      else do {
        (r, w) \<leftarrow> netlink_create_family_batch env (ucast AF_INET6) w;
        if r \<noteq> 0 then Some (-1, nl_close env w) else Some (0 :: int, w\<lparr>g_next_handle := 6\<rparr>)
      }
    } = Some (0, w')"
    using assms unfolding netlink_init_def Let_def sys_eq prod.case
    by (auto simp: fd_def [symmetric] w1_def w2_def w3_def split: if_splits)
  then obtain a b c d where "netlink_delete_table env (ucast AF_INET) w3 = Some a" "netlink_delete_table env (ucast AF_INET6) a = Some b"
    "netlink_create_family_batch env (ucast AF_INET) b = Some (0, c)" "netlink_create_family_batch env (ucast AF_INET6) c = Some (0, d)"
    "w' = d\<lparr>g_next_handle := 6\<rparr>" "0 \<le> fd"
    by (auto simp: bind_eq_Some_conv split: if_splits)
  then have "talks (([Delete_table (ucast AF_INET)] @ [Delete_table (ucast AF_INET6)]) @ ([Create_table (ucast AF_INET)] @ [Create_table (ucast AF_INET6)])) w3 w'"
    by (simp only: talks_count) (intro talks_trans; (rule delete_table_talks | rule create_family_talks(1)))
  then have t: "talks init_msgs w3 w'" by (simp add: init_msgs_def fam_def)
  have w': "w' = d\<lparr>g_next_handle := 6\<rparr>" by fact
  show "\<exists>cs. trace w' = trace w @ [Socket AF_NETLINK SOCK_RAW_CLOEXEC NETLINK_NETFILTER, Bind (g_fd w') nl_addr, Getsockname (g_fd w')] @ cs
      \<and> talk (g_fd w') init_msgs cs" and "0 \<le> g_fd w'" and "nl.more w' = nl.more w"
    using t f \<open>0 \<le> fd\<close> by (auto simp: talks_def)
  show "g_next_handle w' = 6" by (simp add: w')
qed

lemma netlink_init_result:
  assumes "netlink_init env w = Some (r, w')"
  shows "r = 0 \<or> r = -1 \<and> g_fd w' < 0"
  using assms unfolding netlink_init_def Let_def sys_eq prod.case
  by (auto simp: bind_eq_Some_conv nl_close_def Let_def split: if_splits)

definition cleanup_msgs :: "fw_msg list" where
  "cleanup_msgs = concat (map (\<lambda>f. [Flush CHAIN_NAME f, Delete_table f]) fam)"

lemma cleanup_command:
  "cleanup_loop env (f # fs) w = do {
     (_, w) \<leftarrow> send_command env NFT_MSG_DELRULE (NLM_F_REQUEST OR NLM_F_ACK) f (rule_place CHAIN_NAME) w;
     w \<leftarrow> netlink_delete_table env f w;
     cleanup_loop env fs w
   }"
proof -
  have "length (enc_attrs (rule_place CHAIN_NAME)) \<le> 4000"
    by (simp add: length_rule_place CHAIN_NAME_def align4_def)
  from built_command [OF place_builder this refl, where env = env and w = w and type = NFT_MSG_DELRULE
      and flags = "NLM_F_REQUEST OR NLM_F_ACK" and f = f] show ?thesis
    by (simp add: CHAIN_NAME_def also_then_def split_beta Let_def)
qed

lemma cleanup_loop_talks:
  assumes "cleanup_loop env fs w = Some w'"
  shows "talks (concat (map (\<lambda>f. [Flush CHAIN_NAME f, Delete_table f]) fs)) w w'"
  using assms
proof (induction fs arbitrary: w)
  case (Cons f fs)
  then obtain q a b where a: "send_command env NFT_MSG_DELRULE (NLM_F_REQUEST OR NLM_F_ACK) f (rule_place CHAIN_NAME) w = Some (q, a)"
    and b: "netlink_delete_table env f a = Some b" and rest: "cleanup_loop env fs b = Some w'"
    unfolding cleanup_command by (auto simp: bind_eq_Some_conv)
  have "talks [Flush CHAIN_NAME f] w a" using command_talks(1) [OF a, of "Flush CHAIN_NAME f"] by simp
  from talks_trans [OF talks_trans [OF this delete_table_talks [OF b]] Cons.IH [OF rest]] show ?case by simp
qed simp

text \<open>Stopping deletes both tables and closes the socket, once.\<close>

lemma netlink_cleanup_calls:
  assumes "netlink_cleanup env w = Some w'"
  shows "if g_fd w < 0 then w' = w
    else \<exists>cs. trace w' = trace w @ cs @ [Close (g_fd w)] \<and> talk (g_fd w) cleanup_msgs cs \<and> g_fd w' = -1 \<and> nl.more w' = nl.more w"
proof (cases "g_fd w < 0")
  case False
  then obtain v where v: "cleanup_loop env fam w = Some v" "w' = nl_close env v"
    using assms by (auto simp: netlink_cleanup_def bind_eq_Some_conv)
  from cleanup_loop_talks [OF v(1)] show ?thesis using False v(2) by (auto simp: talks_def cleanup_msgs_def)
qed (use assms in \<open>simp add: netlink_cleanup_def\<close>)

section \<open>Returning\<close>

lemma delete_table_returns:
  assumes "finitely_many_replies env n"
  shows "\<exists>w'. netlink_delete_table env f w = Some w'"
proof -
  obtain q a where "send_command env NFT_MSG_DELTABLE (NLM_F_REQUEST OR NLM_F_ACK) f [Leaf NFTA_TABLE_NAME (cstr TABLE_NAME)] w = Some (q, a)"
    using send_command_returns [OF assms] by blast
  then show ?thesis by (simp add: delete_table_command)
qed

lemma create_family_returns: "finitely_many_replies env n \<Longrightarrow> \<exists>r w'. netlink_create_family_batch env f w = Some (r, w')"
  unfolding create_family_bytes by (rule send_batch_returns)

lemma netlink_init_returns:
  assumes "finitely_many_replies env n"
  shows "\<exists>r w'. netlink_init env w = Some (r, w')"
proof -
  have "\<exists>x y. do {
      w \<leftarrow> netlink_delete_table env (ucast AF_INET) v;
      w \<leftarrow> netlink_delete_table env (ucast AF_INET6) w;
      (r, w) \<leftarrow> netlink_create_family_batch env (ucast AF_INET) w;
      if r \<noteq> 0 then Some (-1, nl_close env w)
      else do {
        (r, w) \<leftarrow> netlink_create_family_batch env (ucast AF_INET6) w;
        if r \<noteq> 0 then Some (-1 :: int, nl_close env w) else Some (0, w\<lparr>g_next_handle := 6\<rparr>)
      }
    } = Some (x, y)" for v :: "'a nl_scheme"
  proof -
    obtain a where a: "netlink_delete_table env (ucast AF_INET) v = Some a" using delete_table_returns [OF assms] by blast
    obtain b where b: "netlink_delete_table env (ucast AF_INET6) a = Some b" using delete_table_returns [OF assms] by blast
    obtain q c where c: "netlink_create_family_batch env (ucast AF_INET) b = Some (q, c)" using create_family_returns [OF assms] by blast
    obtain p e where "netlink_create_family_batch env (ucast AF_INET6) c = Some (p, e)" using create_family_returns [OF assms] by blast
    then show ?thesis by (simp add: a b c)
  qed
  then show ?thesis unfolding netlink_init_def Let_def sys_eq prod.case by auto
qed

lemma netlink_cleanup_returns:
  assumes "finitely_many_replies env n"
  shows "\<exists>w'. netlink_cleanup env w = Some w'"
proof -
  have ret: "\<exists>w'. cleanup_loop env fs w = Some w'" for fs
  proof (induction fs arbitrary: w)
    case (Cons f fs)
    obtain q a where "send_command env NFT_MSG_DELRULE (NLM_F_REQUEST OR NLM_F_ACK) f (rule_place CHAIN_NAME) w = Some (q, a)"
      using send_command_returns [OF assms] by blast
    moreover obtain b where "netlink_delete_table env f a = Some b" using delete_table_returns [OF assms] by blast
    ultimately show ?case unfolding cleanup_command using Cons.IH [of b] by simp
  qed simp
  obtain v where "cleanup_loop env fam w = Some v" using ret by blast
  then show ?thesis by (simp add: netlink_cleanup_def)
qed

end
