(* ===== verification/Authorization.thy ===== *)
theory Authorization
  imports Daemon Firewall
begin

text \<open>
  What opens the firewall. \<open>authorized\<close> says of a trace that it holds the receipt of a packet whose
  sender knows the secret: six digits that are the token of a counter at most one step from
  the clock. \<open>loop_ext\<close> says of the calls between two traces that everything they tell
  the firewall is a flush of the allowed addresses or an accept rule for a sender authorized by then.
\<close>

lemma sys_do_fields [simp]:
  "w_replay (sys_do env c w) = w_replay w" "w_rates (sys_do env c w) = w_rates w"
  by (simp_all add: sys_do_eq)

lemma log_msg_fields [simp]:
  "w_replay (log_msg env cfg p s w) = w_replay w" "w_rates (log_msg env cfg p s w) = w_rates w"
  "trace (log_msg env cfg p s u) = trace u @ [Log (if foreground cfg then Stderr else Syslog) p s]"
  by (simp_all add: log_msg_def)

section \<open>The sender\<close>

definition ip_source :: "sockaddr_storage \<Rightarrow> bool" where
  "ip_source src \<longleftrightarrow> ss_wf src \<and> (ss_family src = AF_INET \<or> ss_family src = AF_INET6)"

definition v4_key :: "byte list \<Rightarrow> ip_addr_t" where
  "v4_key a = \<lparr>family = AF_INET, addr = a @ replicate 12 0\<rparr>"

text \<open>The address a rule is for, and the sender an address stands for, mapped addresses included.\<close>

definition rule_ip :: "sockaddr_storage \<Rightarrow> ip_addr_t" where
  "rule_ip ra = (if ss_family ra = AF_INET then v4_key (sin_addr ra) else \<lparr>family = AF_INET6, addr = sin6_addr ra\<rparr>)"

definition sender_ip :: "byte list \<Rightarrow> ip_addr_t" where
  "sender_ip p =
     (if ss_family p = AF_INET then v4_key (sin_addr p)
      else if IN6_IS_ADDR_V4MAPPED (sin6_addr p) then v4_key (drop 12 (sin6_addr p))
      else \<lparr>family = AF_INET6, addr = sin6_addr p\<rparr>)"

definition frame_ok :: "frame \<Rightarrow> bool" where
  "frame_ok fr \<longleftrightarrow> ip_wf (fr_src_ip fr) \<and> ss_wf (fr_addrbuf fr) \<and> length (fr_buf fr) = 256 \<and> ss_wf (fr_src fr)"

definition packet_source :: "frame \<Rightarrow> sockaddr_storage \<Rightarrow> u16 \<times> ip_addr_t \<times> sockaddr_storage" where
  "packet_source fr src = normalize_src src (fr_addrbuf fr) (ip_from_sockaddr src (fr_src_ip fr))"

lemma ss_family_le16: "ss_family (le16_bytes f @ r) = f"
  by (simp add: ss_family_def le16_bytes_def byte_simps)

lemma mapped_rule_addr:
  assumes "ss_wf buf" and "length prt = 2" and "length a = 4"
  shows "poke 4 a (poke 2 prt (poke 0 (le16_bytes AF_INET) (poke 0 (replicate 16 0) buf)))
    = le16_bytes AF_INET @ prt @ a @ replicate 8 0 @ drop 16 buf"
  using assms by (simp add: poke_def ss_wf_def)

lemma packet_source_key:
  assumes src: "ip_source src" and fr: "frame_ok fr" and eq: "packet_source fr src = (port, ip, ra)"
  shows "ip_source ra" and "ip = rule_ip ra" and "ip = sender_ip src"
proof -
  have wf: "ss_wf src" "ip_wf (fr_src_ip fr)" "ss_wf (fr_addrbuf fr)" using src fr by (auto simp: ip_source_def frame_ok_def)
  have "ip_source ra \<and> ip = rule_ip ra \<and> ip = sender_ip src"
  proof (cases "ss_family src = AF_INET")
    case True
    then have "ra = src" "ip = v4_key (sin_addr src)"
      using eq ip_from_sockaddr_inet [OF wf(1,2) True] by (auto simp: packet_source_def normalize_src_def v4_key_def)
    then show ?thesis using True src by (simp add: rule_ip_def sender_ip_def)
  next
    case False
    then have six: "ss_family src = AF_INET6" using src by (auto simp: ip_source_def)
    note ip = ip_from_sockaddr_inet6 [OF wf(1,2) six]
    show ?thesis
    proof (cases "IN6_IS_ADDR_V4MAPPED (sin6_addr src)")
      case True
      define a where "a = drop 12 (sin6_addr src)"
      have len: "length a = 4" "length (sin_port src) = 2"
        using length_sin6_addr [OF wf(1)] wf(1) by (simp_all add: a_def sin_port_def ss_wf_def)
      have ra: "ra = le16_bytes AF_INET @ sin_port src @ a @ replicate 8 0 @ drop 16 (fr_addrbuf fr)"
        using eq True False mapped_rule_addr [OF wf(3) len(2,1)] by (simp add: packet_source_def normalize_src_def Let_def a_def)
      have key: "ip = v4_key a"
        using eq True False len wf(1) by (auto simp: packet_source_def normalize_src_def Let_def ip a_def v4_key_def poke_def)
      have fam: "ss_family ra = AF_INET" unfolding ra by (rule ss_family_le16)
      have "sin_addr ra = a" using len by (simp add: ra sin_addr_def)
      moreover have "ss_wf ra" using len wf(3) by (simp add: ra ss_wf_def)
      ultimately show ?thesis
        using key fam True False by (simp add: ip_source_def rule_ip_def sender_ip_def a_def)
    next
      case no: False
      then have "ra = src" "ip = \<lparr>family = AF_INET6, addr = sin6_addr src\<rparr>"
        using eq False by (auto simp: packet_source_def normalize_src_def ip)
      then show ?thesis using no False src by (simp add: rule_ip_def sender_ip_def)
    qed
  qed
  then show "ip_source ra" "ip = rule_ip ra" "ip = sender_ip src" by auto
qed

section \<open>One packet\<close>

definition secret_of :: "config \<Rightarrow> byte list" where
  "secret_of cfg = take (secret_len cfg) (cfg_secret cfg)"

lemma handle_packet_cases:
  assumes h: "handle_one_packet env stk buf len src d w = Some (d', w')"
    and src: "packet_source (stk (trace w)) src = (port, ip, ra)"
  obtains (refused) msg rates where "d' = d"
      and "w' = (log_msg env (d_cfg d) LOG_WARNING msg (sys_do env Time w))\<lparr>w_rates := rates\<rparr>"
      and "rates = w_rates w \<or> rates = rate_limit_fail (w_rates w) ip (ret (env (trace w) Time)) (rate_limit (d_cfg d))"
  | (accepted) token replay h w2 where "rate_limit_check (w_rates w) ip (ret (env (trace w) Time)) = 0"
      and "auth_parse (Some (take (nat len) buf)) = Some token"
      and "auth_validate (w_replay w) (secret_of (d_cfg d)) token (daemon_params ip (ret (env (trace w) Time)))
             (ret (env (trace w @ [Time]) Time)) = (0, replay)"
      and "netlink_rule_insert env ra (target_port (d_cfg d)) (iface_arg (d_cfg d))
             ((sys_do env Time (sys_do env Time w))\<lparr>w_replay := replay, w_rates := rate_limit_success (w_rates w) ip\<rparr>) = Some (h, w2)"
      and "h = 0 \<and> d' = d \<and> w' = log_msg env (d_cfg d) LOG_ERR ''netlink_rule_insert failed'' w2
         \<or> h \<noteq> 0 \<and> d' = rule_track d h (ucast (ss_family ra)) (ret (env (trace w) Time) + uint (cfg_timeout (d_cfg d))) (Some ra)
           \<and> w' = sys_do env (Log_accepted (if foreground (d_cfg d) then Stderr else Syslog) ip port h) w2"
proof -
  have src': "normalize_src src (fr_addrbuf (stk (trace w))) (ip_from_sockaddr src (fr_src_ip (stk (trace w)))) = (port, ip, ra)"
    using src by (simp add: packet_source_def)
  define w1 where "w1 = sys_do env Time w"
  have w1: "trace w1 = trace w @ [Time]" "w_rates w1 = w_rates w" "w_replay w1 = w_replay w"
    by (simp_all add: w1_def)
  define now where "now = ret (env (trace w) Time)"
  note unf = handle_one_packet_def [of env stk buf len src d w] src' prod.case Let_def sys_eq w1_def [symmetric]
    now_def [symmetric] secret_of_def [symmetric]
  consider "rate_limit_check (w_rates w1) ip now \<noteq> 0"
    | "rate_limit_check (w_rates w1) ip now = 0" "auth_parse (Some (take (nat len) buf)) = None"
    | token v replay where "rate_limit_check (w_rates w1) ip now = 0" "auth_parse (Some (take (nat len) buf)) = Some token"
      "auth_validate (w_replay w1) (secret_of (d_cfg d)) token (daemon_params ip now) (ret (env (trace w1) Time)) = (v, replay)"
    by (metis surj_pair option.exhaust)
  then show thesis
  proof cases
    case 1
    then have eq: "d' = d" "w' = log_msg env (d_cfg d) LOG_WARNING ''rate limited, dropping'' w1"
      using h unfolding unf by auto
    show ?thesis by (rule refused [where msg = "''rate limited, dropping''" and rates = "w_rates w"]) (simp_all add: eq w1_def log_msg_def sys_do_eq)
  next
    case 2
    then show ?thesis
      using h unfolding unf by (intro refused [where msg = "''auth_parse failed''"
          and rates = "rate_limit_fail (w_rates w) ip now (rate_limit (d_cfg d))"]) (auto simp: w1_def now_def)
  next
    case (3 token v replay)
    show ?thesis
    proof (cases "v = 0")
      case False
      then show ?thesis
        using h 3 unfolding unf by (intro refused [where msg = "''auth_validate failed''"
          and rates = "rate_limit_fail (w_rates w) ip now (rate_limit (d_cfg d))"]) (auto simp: w1_def now_def)
    next
      case True
      define w3 where "w3 = (sys_do env Time w1)\<lparr>w_replay := replay, w_rates := rate_limit_success (w_rates w) ip\<rparr>"
      have "(sys_do env Time w1)\<lparr>w_replay := replay\<rparr>\<lparr>w_rates := rate_limit_success (w_rates ((sys_do env Time w1)\<lparr>w_replay := replay\<rparr>)) ip\<rparr> = w3"
        by (simp add: w3_def w1_def sys_do_eq)
      with h 3 True have "do {
           (rule_handle, w) \<leftarrow> netlink_rule_insert env ra (target_port (d_cfg d)) (iface_arg (d_cfg d)) w3;
           if rule_handle = 0 then Some (d, log_msg env (d_cfg d) LOG_ERR ''netlink_rule_insert failed'' w)
           else Some (rule_track d rule_handle (ucast (ss_family ra)) (now + uint (cfg_timeout (d_cfg d))) (Some ra),
                 sys_do env (Log_accepted (if foreground (d_cfg d) then Stderr else Syslog) ip port rule_handle) w)
         } = Some (d', w')"
        unfolding unf by simp
      then obtain h2 w2 where "netlink_rule_insert env ra (target_port (d_cfg d)) (iface_arg (d_cfg d)) w3 = Some (h2, w2)"
        and "h2 = 0 \<and> d' = d \<and> w' = log_msg env (d_cfg d) LOG_ERR ''netlink_rule_insert failed'' w2
         \<or> h2 \<noteq> 0 \<and> d' = rule_track d h2 (ucast (ss_family ra)) (now + uint (cfg_timeout (d_cfg d))) (Some ra)
           \<and> w' = sys_do env (Log_accepted (if foreground (d_cfg d) then Stderr else Syslog) ip port h2) w2"
        by (auto simp: bind_eq_Some_conv split: if_splits)
      then show ?thesis using 3 True accepted [where token = token and replay = replay and h = h2 and ?w2.0 = w2] by (simp add: w1 w3_def w1_def now_def)
    qed
  qed
qed

section \<open>Authorized senders\<close>

definition authorized :: "env \<Rightarrow> byte list \<Rightarrow> syscall list \<Rightarrow> sockaddr_storage \<Rightarrow> bool" where
  "authorized env secret tr ra \<longleftrightarrow>
     (\<exists>pre fd token c. prefix (pre @ [Recvfrom fd 256, Time]) tr
        \<and> (let r = env pre (Recvfrom fd 256); now = ret (env (pre @ [Recvfrom fd 256]) Time)
           in 0 < ret r \<and> auth_parse (Some (data r)) = Some token
              \<and> unat token = rfc4226_hotp secret c 6 \<and> \<bar>uint c - now div 30\<bar> \<le> 1
              \<and> rule_ip ra = sender_ip (peer r)))"

lemma authorized_mono: "authorized env secret tr ra \<Longrightarrow> authorized env secret (tr @ cs) ra"
  unfolding authorized_def by (blast intro: prefix_prefix)

text \<open>
  What the system promises: a receive returns the number of bytes it wrote, no more than there is
  room for, with the address of an IPv4 or IPv6 sender; the wall clock is not negative.
\<close>

definition ip_peer :: "byte list \<Rightarrow> bool" where
  "ip_peer p \<longleftrightarrow> length p = 16 \<and> ss_family p = AF_INET \<or> length p = 28 \<and> ss_family p = AF_INET6"

definition udp_kernel :: "env \<Rightarrow> bool" where
  "udp_kernel env \<longleftrightarrow>
     (\<forall>tr fd n. let r = env tr (Recvfrom fd n) in
        0 \<le> ret r \<longrightarrow> length (data r) = nat (ret r) \<and> length (data r) \<le> n \<and> ip_peer (peer r))"

definition clock_env :: "env \<Rightarrow> bool" where
  "clock_env env \<longleftrightarrow> (\<forall>tr. clock_ok (ret (env tr Time)))"

lemma peer_stored:
  assumes "ip_peer p" and "ss_wf src"
  shows "ip_source (poke 0 (take 128 p) src)" and "sender_ip (poke 0 (take 128 p) src) = sender_ip p"
proof -
  define q where "q = poke 0 (take 128 p) src"
  have q: "q = p @ drop (length p) src" using assms by (auto simp: q_def poke_def ip_peer_def)
  have fam: "ss_family q = ss_family p" using assms(1) by (auto simp: q ss_family_def nth_append ip_peer_def)
  have four: "ss_family p = AF_INET \<Longrightarrow> sin_addr q = sin_addr p" using assms(1) by (auto simp: q sin_addr_def ip_peer_def)
  have six: "ss_family p = AF_INET6 \<Longrightarrow> sin6_addr q = sin6_addr p"
    using assms(1) by (auto simp: q sin6_addr_def ip_peer_def AF_defs)
  have "ss_wf q" using assms by (auto simp: q ss_wf_def ip_peer_def)
  then show "ip_source (poke 0 (take 128 p) src)" using assms(1) fam unfolding q_def [symmetric] by (auto simp: ip_source_def ip_peer_def)
  show "sender_ip (poke 0 (take 128 p) src) = sender_ip p"
    using assms(1) fam four six unfolding q_def [symmetric] by (auto simp: sender_ip_def ip_peer_def AF_defs)
qed

text \<open>A receive that brings something leaves the packet and its sender in the buffers.\<close>

lemma received:
  assumes "udp_kernel env" and "udp_recv env fd buf src (Some 128) w = Some (r, w')" and "length buf = 256" and "ss_wf src"
  obtains pre where "extends w w'" and "trace w' = pre @ [Recvfrom fd 256]" and "os.more w' = os.more w"
    and "\<exists>k. calls_since w w' = replicate k (Recvfrom fd 256)"
    and "length (r_buf r) = 256" and "ss_wf (r_src r)"
    and "0 < r_n r \<Longrightarrow> r_n r = ret (env pre (Recvfrom fd 256)) \<and> take (nat (r_n r)) (r_buf r) = data (env pre (Recvfrom fd 256))
       \<and> ip_source (r_src r) \<and> sender_ip (r_src r) = sender_ip (peer (env pre (Recvfrom fd 256)))"
proof -
  obtain k where w': "w' = attempts env fd 256 (Suc k) w"
    and res: "let a = env (trace w @ replicate k (Recvfrom fd 256)) (Recvfrom fd 256)
       in if 0 \<le> ret a
          then r_n r = ret a \<and> r_buf r = poke 0 (take 256 (data a)) buf
            \<and> r_src r = poke 0 (take 128 (peer a)) src
          else r_n r = -1 \<and> r_buf r = buf \<and> r_src r = src"
    using udp_recv_result [OF assms(2)] unfolding assms(3) option.case by blast
  define pre where "pre = trace w @ replicate k (Recvfrom fd 256)"
  define a where "a = env pre (Recvfrom fd 256)"
  have tr: "trace w' = pre @ [Recvfrom fd 256]"
    unfolding w' trace_attempts pre_def by (simp add: replicate_append_same)
  have more: "os.more (attempts env fd 256 j v) = os.more v" for j and v :: "'a os_scheme"
    by (induction j arbitrary: v) (simp_all add: attempts_Suc)
  have a: "0 \<le> ret a \<Longrightarrow> length (data a) = nat (ret a) \<and> length (data a) \<le> 256 \<and> ip_peer (peer a)"
    using assms(1) unfolding udp_kernel_def a_def Let_def by blast
  show thesis
  proof (rule that [of pre])
    show "extends w w'" "trace w' = pre @ [Recvfrom fd 256]" "os.more w' = os.more w"
      using tr more by (simp_all add: extends_def pre_def w')
    have "calls_since w w' = replicate (Suc k) (Recvfrom fd 256)"
      using tr by (simp add: calls_since_def pre_def replicate_append_same)
    then show "\<exists>k. calls_since w w' = replicate k (Recvfrom fd 256)" by blast
    show "length (r_buf r) = 256" "ss_wf (r_src r)"
      using res a assms(3,4) by (auto simp: Let_def ss_wf_def a_def pre_def split: if_splits)
    show "r_n r = ret (env pre (Recvfrom fd 256)) \<and> take (nat (r_n r)) (r_buf r) = data (env pre (Recvfrom fd 256))
       \<and> ip_source (r_src r) \<and> sender_ip (r_src r) = sender_ip (peer (env pre (Recvfrom fd 256)))" if pos: "0 < r_n r"
    proof -
      have r: "0 \<le> ret a" "r_n r = ret a" "r_buf r = poke 0 (data a) buf" "r_src r = poke 0 (take 128 (peer a)) src"
        using res pos a unfolding Let_def pre_def [symmetric] a_def [symmetric] by (auto split: if_splits)
      then show ?thesis using a assms(3,4) peer_stored [of "peer a" src] by (simp add: a_def [symmetric] poke_def)
    qed
  qed
qed

lemma matched_counter_token:
  assumes "matched_counter secret token (daemon_params ip clock) = Some c" and "clock_ok clock"
  shows "unat token = rfc4226_hotp secret c 6"
proof -
  have "find (\<lambda>c. totp_generate secret c 6 = token) (map word_of_int (window (daemon_params ip clock))) = Some c"
    using assms(1) unfolding matched_counter_def window_scan_window [OF daemon_params_ok [OF assms(2)]]
    by (simp add: daemon_params_def)
  from find_map_Some [OF this] have "hotp secret c 6 = token" by (auto simp: totp_generate_def)
  then show ?thesis unfolding hotp_eq_iff by (simp add: token_digits_def)
qed

section \<open>What the loop tells the firewall\<close>

definition loop_msg :: "(sockaddr_storage \<Rightarrow> bool) \<Rightarrow> config \<Rightarrow> fw_msg \<Rightarrow> bool" where
  "loop_msg P cfg m \<longleftrightarrow> (\<exists>f \<in> set fam. m = Flush ALLOWED_NAME f)
     \<or> (\<exists>ra. P ra \<and> m = Accept ra (target_port cfg) (iface_arg cfg))"

definition fw_call :: "(sockaddr_storage \<Rightarrow> bool) \<Rightarrow> config \<Rightarrow> syscall \<Rightarrow> bool" where
  "fw_call P cfg c \<longleftrightarrow> (case c of Sendto fd b to \<Rightarrow> \<exists>m. loop_msg P cfg m \<and> encodes m b | _ \<Rightarrow> True)"

text \<open>Every call between two traces is one of a turn, and what it tells the firewall was allowed
  when it was made.\<close>

definition loop_ext :: "env \<Rightarrow> config \<Rightarrow> syscall list \<Rightarrow> syscall list \<Rightarrow> bool" where
  "loop_ext env cfg tr tr' \<longleftrightarrow> (\<exists>cs. tr' = tr @ cs
     \<and> (\<forall>xs c ys. cs = xs @ c # ys \<longrightarrow> turn_call c \<and> fw_call (authorized env (secret_of cfg) (tr @ xs)) cfg c))"

lemma fw_call_other: "\<not> is_send c \<Longrightarrow> fw_call P cfg c"
  by (cases c) (auto simp: fw_call_def)

lemma loop_ext_refl [simp]: "loop_ext env cfg tr tr"
  by (simp add: loop_ext_def)

lemma loop_ext_trans:
  assumes "loop_ext env cfg a b" and "loop_ext env cfg b c"
  shows "loop_ext env cfg a c"
proof -
  obtain us where us: "b = a @ us" "\<And>xs c ys. us = xs @ c # ys \<Longrightarrow> turn_call c \<and> fw_call (authorized env (secret_of cfg) (a @ xs)) cfg c"
    using assms(1) by (auto simp: loop_ext_def)
  obtain vs where vs: "c = b @ vs" "\<And>xs c ys. vs = xs @ c # ys \<Longrightarrow> turn_call c \<and> fw_call (authorized env (secret_of cfg) (b @ xs)) cfg c"
    using assms(2) by (auto simp: loop_ext_def)
  have "turn_call x \<and> fw_call (authorized env (secret_of cfg) (a @ xs)) cfg x" if split: "us @ vs = xs @ x # ys" for xs x ys
  proof -
    from split consider zs where "us = xs @ x # zs" | zs where "xs = us @ zs" "vs = zs @ x # ys"
      by (auto simp: append_eq_append_conv2 append_eq_Cons_conv)
    then show ?thesis using us vs(2) by cases auto
  qed
  then show ?thesis using us(1) vs(1) unfolding loop_ext_def by (intro exI [of _ "us @ vs"]) auto
qed

lemma loop_ext_calls:
  assumes "\<forall>c \<in> set cs. turn_call c \<and> \<not> is_send c"
  shows "loop_ext env cfg tr (tr @ cs)"
  using assms fw_call_other by (auto simp: loop_ext_def)

lemma loop_ext_talks:
  assumes "talks ms w w'" and "\<And>m. m \<in> set ms \<Longrightarrow> loop_msg (authorized env (secret_of cfg) (trace w)) cfg m"
  shows "loop_ext env cfg (trace w) (trace w')"
proof -
  obtain cs where cs: "trace w' = trace w @ cs" "list_all2 encodes ms (sent_msgs cs)"
    "set cs \<subseteq> {Poll (g_fd w) 100, Recv (g_fd w) BUF_SIZE} \<union> range (\<lambda>b. Sendto (g_fd w) b nl_addr)"
    using assms(1) by (auto simp: talks_def talk_def)
  have send: "fw_call (authorized env (secret_of cfg) (trace w @ xs)) cfg (Sendto fd b to)" if "Sendto fd b to \<in> set cs" for fd b to xs
  proof -
    have "b \<in> set (sent_msgs cs)" using that by (force simp: sent_msgs_def)
    then obtain m where "m \<in> set ms" "encodes m b" using cs(2) by (metis in_set_conv_nth list_all2_conv_all_nth)
    moreover have "loop_msg (authorized env (secret_of cfg) (trace w @ xs)) cfg m"
      using assms(2) [OF \<open>m \<in> set ms\<close>] authorized_mono [of env "secret_of cfg" "trace w"] by (auto simp: loop_msg_def)
    ultimately show ?thesis by (auto simp: fw_call_def)
  qed
  have "turn_call c \<and> fw_call (authorized env (secret_of cfg) (trace w @ xs)) cfg c" if "c \<in> set cs" for c xs
  proof (cases "is_send c")
    case True
    then obtain fd b to where "c = Sendto fd b to" by (cases c) auto
    then show ?thesis using send that by simp
  next
    case False
    then show ?thesis using cs(3) that fw_call_other by auto
  qed
  then show ?thesis using cs(1) by (auto simp: loop_ext_def)
qed

lemma loop_ext_turn_calls: "loop_ext env cfg tr tr' \<Longrightarrow> \<exists>cs. tr' = tr @ cs \<and> (\<forall>c \<in> set cs. turn_call c)"
  unfolding loop_ext_def by (metis in_set_conv_decomp)

text \<open>An empty interface name adds no match, so it may stand for none.\<close>

lemma accept_iface [simp]: "encodes (Accept ra port (Some (cfg_iface cfg))) = encodes (Accept ra port (iface_arg cfg))"
  by (intro ext) (simp add: iface_arg_def accept_rule_def iifname_exprs_def)

end
