(* ===== verification/Rules.thy ===== *)
theory Rules
  imports Authorization "HOL-Library.Multiset"
begin

text \<open>
  The table of open rules (\<open>rule_track\<close> and \<open>rule_prune\<close> in \<^verbatim>\<open>src/main.c\<close>). \<open>open_rules\<close> is the table
  seen as the collection of what is open, without its slots; \<open>rule_prune_talks\<close> is what the
  firewall is told when rules expire.
\<close>

section \<open>The table\<close>

definition rules_ok :: "daemon \<Rightarrow> bool" where
  "rules_ok d \<longleftrightarrow> length (rules d) = 256 \<and> num_rules d \<le> 256 \<and> (\<forall>i < 256. dr_active (rules d ! i) \<longrightarrow> i < num_rules d)"

definition open_rules :: "daemon \<Rightarrow> dynamic_rule list" where
  "open_rules d = filter dr_active (rules d)"

definition mk_rule :: "u64 \<Rightarrow> byte \<Rightarrow> time_t \<Rightarrow> sockaddr_storage \<Rightarrow> dynamic_rule" where
  "mk_rule h f x a = \<lparr>dr_handle = h, dr_family = f, dr_expiry = x, dr_active = True, dr_addr = a\<rparr>"

lemma mk_rule_fields [simp]:
  "dr_handle (mk_rule h f x a) = h" "dr_family (mk_rule h f x a) = f" "dr_expiry (mk_rule h f x a) = x"
  "dr_active (mk_rule h f x a)" "dr_addr (mk_rule h f x a) = a"
  by (simp_all add: mk_rule_def)

lemma rule_track_cases:
  assumes "rules_ok d"
  obtains (full) "\<forall>i < 256. dr_active (rules d ! i)" and "rule_track d h f x (Some a) = d"
  | (slot) i where "i < 256" and "\<not> dr_active (rules d ! i)"
      and "rule_track d h f x (Some a) = d\<lparr>rules := (rules d)[i := mk_rule h f x a], num_rules := max (num_rules d) (i + 1)\<rparr>"
proof (cases "find (\<lambda>i. \<not> dr_active (rules d ! i)) [0..<MAX_DYNAMIC_RULES]")
  case None
  then have "\<forall>i < MAX_DYNAMIC_RULES. dr_active (rules d ! i)" by (simp add: find_None_iff)
  then have "\<forall>i < 256. dr_active (rules d ! i)" by (simp only: MAX_DYNAMIC_RULES_def)
  moreover have "rule_track d h f x (Some a) = d" using None by (simp add: rule_track_def)
  ultimately show ?thesis by (rule full)
next
  case (Some i)
  then have "i < MAX_DYNAMIC_RULES" "\<not> dr_active (rules d ! i)" by (auto simp: find_Some_iff)
  then have i: "i < 256" "\<not> dr_active (rules d ! i)" by (simp_all add: MAX_DYNAMIC_RULES_def)
  have e: "(rules d ! i)\<lparr>dr_handle := h, dr_family := f, dr_expiry := x, dr_active := True, dr_addr := a\<rparr> = mk_rule h f x a"
    by (cases "rules d ! i") (simp add: mk_rule_def)
  have n: "(if num_rules d \<le> i then i + 1 else num_rules d) = max (num_rules d) (i + 1)" by (simp add: max_def)
  have "rule_track d h f x (Some a) = d\<lparr>rules := (rules d)[i := mk_rule h f x a], num_rules := max (num_rules d) (i + 1)\<rparr>"
    unfolding rule_track_def Some option.case Let_def e n ..
  with i show ?thesis by (rule slot)
qed

lemma rule_track_setup [simp]:
  "d_cfg (rule_track d h f x a) = d_cfg d" "udp_fds (rule_track d h f x a) = udp_fds d"
  "num_udp_fds (rule_track d h f x a) = num_udp_fds d" "epoll_fd (rule_track d h f x a) = epoll_fd d"
  "signal_fd (rule_track d h f x a) = signal_fd d" "maxevents (rule_track d h f x a) = maxevents d"
  "last_prune (rule_track d h f x a) = last_prune d"
  by (simp_all add: rule_track_def Let_def split: option.split)

lemma rule_track_ok:
  assumes "rules_ok d"
  shows "rules_ok (rule_track d h f x (Some a))"
  using assms
proof (cases rule: rule_track_cases [where h = h and f = f and x = x and a = a])
  case (slot i)
  then show ?thesis using assms by (auto simp: rules_ok_def nth_list_update)
qed (use assms in simp)

lemma mset_filter_update:
  assumes "i < length xs" and "\<not> P (xs ! i)" and "P y"
  shows "mset (filter P (xs[i := y])) = add_mset y (mset (filter P xs))"
proof -
  have "xs = take i xs @ xs ! i # drop (Suc i) xs" using assms(1) by (rule id_take_nth_drop)
  then have "filter P xs = filter P (take i xs) @ filter P (drop (Suc i) xs)"
    using assms(2) by (metis filter.simps(2) filter_append)
  moreover have "filter P (xs[i := y]) = filter P (take i xs) @ y # filter P (drop (Suc i) xs)"
    using assms(1,3) by (simp add: upd_conv_take_nth_drop)
  ultimately show ?thesis by simp
qed

text \<open>A rule that is tracked is open from then on, unless 256 rules are.\<close>

lemma rule_track_open:
  assumes "rules_ok d"
  shows "if length (open_rules d) = 256 then rule_track d h f x (Some a) = d
    else mset (open_rules (rule_track d h f x (Some a))) = add_mset (mk_rule h f x a) (mset (open_rules d))"
  using assms
proof (cases rule: rule_track_cases [where h = h and f = f and x = x and a = a])
  case full
  then have "\<forall>e \<in> set (rules d). dr_active e" using assms by (auto simp: rules_ok_def set_conv_nth)
  then have "open_rules d = rules d" by (simp add: open_rules_def)
  then show ?thesis using full assms by (simp add: rules_ok_def)
next
  case (slot i)
  have "length (open_rules d) < length (rules d)"
    unfolding open_rules_def using slot(1,2) assms by (intro length_filter_less [of "rules d ! i"]) (auto simp: rules_ok_def)
  then show ?thesis
    using slot assms mset_filter_update [of i "rules d" dr_active "mk_rule h f x a"] by (simp add: rules_ok_def open_rules_def)
qed

definition all_open :: "(dynamic_rule \<Rightarrow> bool) \<Rightarrow> daemon \<Rightarrow> bool" where
  "all_open P d \<longleftrightarrow> (\<forall>e \<in> set (open_rules d). P e)"

lemma rule_track_all_open:
  assumes "rules_ok d" and "all_open P d" and "P (mk_rule h f x a)"
  shows "all_open P (rule_track d h f x (Some a))"
proof -
  have "set (open_rules (rule_track d h f x (Some a))) \<subseteq> insert (mk_rule h f x a) (set (open_rules d))"
    using rule_track_open [OF assms(1), of h f x a] by (metis insert_iff set_mset_add_mset_insert set_mset_mset subsetI)
  then show ?thesis using assms(2,3) by (auto simp: all_open_def)
qed

section \<open>Pruning the table\<close>

text \<open>What pruning keeps of a rule: everything but the handle.\<close>

definition rule_view :: "dynamic_rule \<Rightarrow> byte \<times> time_t \<times> bool \<times> sockaddr_storage" where
  "rule_view e = (dr_family e, dr_expiry e, dr_active e, dr_addr e)"

definition pruned :: "time_t \<Rightarrow> dynamic_rule \<Rightarrow> dynamic_rule \<Rightarrow> bool" where
  "pruned now e e' \<longleftrightarrow> rule_view e' = rule_view (if dr_expiry e \<le> now then e\<lparr>dr_active := False\<rparr> else e)"

lemma prune_loop_rules:
  assumes "prune_loop env now is d w = Some (d', w')" and "distinct is" and "set is \<subseteq> {..<length (rules d)}"
  shows "d' = d\<lparr>rules := rules d'\<rparr> \<and> length (rules d') = length (rules d)
    \<and> (\<forall>i < length (rules d). if i \<in> set is \<and> dr_active (rules d ! i) then pruned now (rules d ! i) (rules d' ! i)
         else rules d' ! i = rules d ! i)"
  using assms
proof (induction "is" arbitrary: d w)
  case (Cons i "is")
  define e where "e = rules d ! i"
  have i: "i < length (rules d)" "i \<notin> set is" "distinct is" "set is \<subseteq> {..<length (rules d)}" using Cons.prems by auto
  have step: "d' = d\<lparr>rules := rules d'\<rparr> \<and> length (rules d') = length (rules d)
    \<and> (\<forall>j < length (rules d). if j \<in> set (i # is) \<and> dr_active (rules d ! j) then pruned now (rules d ! j) (rules d' ! j)
         else rules d' ! j = rules d ! j)"
    if rec: "prune_loop env now is (d\<lparr>rules := (rules d)[i := e2]\<rparr>) w2 = Some (d', w')"
      and e2: "if dr_active e then pruned now e e2 else e2 = e" for e2 w2
    using Cons.IH [OF rec] i e2 by (auto simp: e_def nth_list_update split: if_splits)
  consider "\<not> dr_active e" | "dr_active e" "now < dr_expiry e" | "dr_active e" "dr_expiry e \<le> now" by linarith
  then show ?case
  proof cases
    case 1
    have "d\<lparr>rules := (rules d)[i := e]\<rparr> = d" by (simp add: e_def)
    then show ?thesis using Cons.prems(1) 1 step [of e w] by (simp add: e_def)
  next
    case 2
    then obtain h w2 where "prune_loop env now is (if h \<noteq> 0 then d\<lparr>rules := (rules d)[i := e\<lparr>dr_handle := h\<rparr>]\<rparr> else d) w2 = Some (d', w')"
      using Cons.prems(1) unfolding e_def prune_loop.simps Let_def by (force simp: bind_eq_Some_conv)
    moreover have "d\<lparr>rules := (rules d)[i := e]\<rparr> = d" by (simp add: e_def)
    ultimately show ?thesis
      using 2 step [of "if h \<noteq> 0 then e\<lparr>dr_handle := h\<rparr> else e" w2] by (auto simp: pruned_def rule_view_def split: if_splits)
  next
    case 3
    then have "prune_loop env now is (d\<lparr>rules := (rules d)[i := e\<lparr>dr_active := False\<rparr>]\<rparr>) w = Some (d', w')"
      using Cons.prems(1) by (simp add: e_def Let_def)
    then show ?thesis by (rule step) (use 3 in \<open>simp add: pruned_def\<close>)
  qed
qed simp

lemma filter_pruned:
  assumes "list_all2 (\<lambda>e e'. if dr_active e then pruned now e e' else e' = e) xs ys"
  shows "map rule_view (filter dr_active ys) = map rule_view (filter (\<lambda>e. now < dr_expiry e) (filter dr_active xs))"
  using assms
proof (induction rule: list_all2_induct)
  case (Cons x xs y ys)
  then show ?case by (auto simp: pruned_def rule_view_def split: if_splits)
qed simp

definition prune_ops :: "daemon \<Rightarrow> time_t \<Rightarrow> bool" where
  "prune_ops d now \<longleftrightarrow> (\<exists>e \<in> set (open_rules d). dr_expiry e \<le> now)"

lemma some_expired:
  assumes "rules_ok d"
  shows "list_ex (rule_expired d now) [0..<num_rules d] \<longleftrightarrow> prune_ops d now"
proof -
  have "(\<exists>i < num_rules d. rule_expired d now i) \<longleftrightarrow> (\<exists>i < length (rules d). rule_expired d now i)"
    using assms unfolding rules_ok_def rule_expired_def by (metis order.strict_trans2)
  also have "\<dots> \<longleftrightarrow> prune_ops d now"
    unfolding prune_ops_def open_rules_def rule_expired_def filter_set [symmetric] by (auto simp: in_set_conv_nth)
  finally show ?thesis by (auto simp: list_ex_iff)
qed

text \<open>
  After pruning, the open rules are those that were open and not expired, in their order, with
  the same addresses and expiries; the table stays well-formed.
\<close>

lemma rule_prune_open:
  assumes "rules_ok d" and "rule_prune env d now w = Some (d', w')"
  shows "rules_ok d'" and "map rule_view (open_rules d') = map rule_view (filter (\<lambda>e. now < dr_expiry e) (open_rules d))"
    and "d' = d\<lparr>rules := rules d'\<rparr>"
proof -
  have all: "rules_ok d' \<and> map rule_view (open_rules d') = map rule_view (filter (\<lambda>e. now < dr_expiry e) (open_rules d))
    \<and> d' = d\<lparr>rules := rules d'\<rparr>"
  proof (cases "prune_ops d now")
    case False
    then have "filter (\<lambda>e. now < dr_expiry e) (open_rules d) = open_rules d"
      by (intro filter_True) (auto simp: prune_ops_def)
    then show ?thesis using False assms some_expired [OF assms(1), of now] by (simp add: rule_prune_def)
  next
    case True
    then obtain w1 where "prune_loop env now [0..<num_rules d] d w1 = Some (d', w')"
      using assms some_expired [OF assms(1), of now] by (auto simp: rule_prune_def bind_eq_Some_conv)
    then have d': "d' = d\<lparr>rules := rules d'\<rparr> \<and> length (rules d') = length (rules d)
      \<and> (\<forall>i < length (rules d). if i \<in> set [0..<num_rules d] \<and> dr_active (rules d ! i) then pruned now (rules d ! i) (rules d' ! i)
         else rules d' ! i = rules d ! i)"
      using assms(1) by (intro prune_loop_rules) (auto simp: rules_ok_def)
    have pt: "list_all2 (\<lambda>e e'. if dr_active e then pruned now e e' else e' = e) (rules d) (rules d')"
      using d' assms(1) by (auto simp: list_all2_conv_all_nth rules_ok_def)
    have act: "dr_active (rules d' ! i) \<Longrightarrow> dr_active (rules d ! i)" if "i < 256" for i
      using list_all2_nthD [OF pt, of i] that assms(1) by (auto simp: rules_ok_def pruned_def rule_view_def split: if_splits)
    have num: "num_rules d' = num_rules d" using arg_cong [OF conjunct1 [OF d'], of num_rules] by simp
    have "rules_ok d'" using conjunct1 [OF conjunct2 [OF d']] act assms(1) num by (auto simp: rules_ok_def)
    then show ?thesis using conjunct1 [OF d'] filter_pruned [OF pt] unfolding open_rules_def by blast
  qed
  then show "rules_ok d'" "map rule_view (open_rules d') = map rule_view (filter (\<lambda>e. now < dr_expiry e) (open_rules d))"
    "d' = d\<lparr>rules := rules d'\<rparr>" by blast+
qed

section \<open>What the firewall is told\<close>

text \<open>The message for an open rule.\<close>

definition accept_of :: "config \<Rightarrow> dynamic_rule \<Rightarrow> fw_msg" where
  "accept_of cfg e = Accept (dr_addr e) (target_port cfg) (iface_arg cfg)"

definition sources_ok :: "daemon \<Rightarrow> bool" where
  "sources_ok d = all_open (\<lambda>e. ip_source (dr_addr e)) d"

lemma ip_source_family:
  "ip_source ra \<Longrightarrow> ucast (ss_family ra) = (ucast AF_INET :: byte) \<or> ucast (ss_family ra) = (ucast AF_INET6 :: byte)"
  by (auto simp: ip_source_def)

lemma iface_arg_ok: "config_ok cfg \<Longrightarrow> iface_ok (Some (cfg_iface cfg)) \<and> iface_ok (iface_arg cfg)"
  by (simp add: config_ok_def iface_ok_def iface_arg_def)

lemma reinsert_talks:
  assumes "netlink_rule_insert env ra (target_port cfg) (Some (cfg_iface cfg)) w = Some (h, w')"
    and "ip_source ra" and "config_ok cfg"
  shows "talks [Accept ra (target_port cfg) (iface_arg cfg)] w w'"
proof -
  have "talks [Accept ra (target_port cfg) (Some (cfg_iface cfg))] w w'"
    using assms iface_arg_ok ip_source_family by (intro rule_insert_talks) (auto simp: ip_source_def)
  then show ?thesis by (simp add: talks_def talk_def list_all2_Cons1)
qed

lemma prune_loop_talks:
  assumes "prune_loop env now is d w = Some (d', w')" and "distinct is" and "config_ok (d_cfg d)"
    and "\<And>i. i \<in> set is \<Longrightarrow> dr_active (rules d ! i) \<Longrightarrow> ip_source (dr_addr (rules d ! i))"
  shows "talks (map (\<lambda>i. accept_of (d_cfg d) (rules d ! i)) (filter (\<lambda>i. dr_active (rules d ! i) \<and> now < dr_expiry (rules d ! i)) is)) w w'"
  using assms
proof (induction "is" arbitrary: d w)
  case (Cons i "is")
  define e where "e = rules d ! i"
  have rec: "talks (map (\<lambda>i. accept_of (d_cfg d) (rules d ! i)) (filter (\<lambda>i. dr_active (rules d ! i) \<and> now < dr_expiry (rules d ! i)) is)) w2 w'"
    if "prune_loop env now is (d\<lparr>rules := (rules d)[i := e2]\<rparr>) w2 = Some (d', w')" for e2 w2
  proof -
    have same: "(rules d)[i := e2] ! j = rules d ! j" if "j \<in> set is" for j
      using that Cons.prems(2) by (intro nth_list_update_neq) auto
    have "talks (map (\<lambda>j. accept_of (d_cfg d) ((rules d)[i := e2] ! j))
        (filter (\<lambda>j. dr_active ((rules d)[i := e2] ! j) \<and> now < dr_expiry ((rules d)[i := e2] ! j)) is)) w2 w'"
      using Cons.IH [OF that] Cons.prems(2-4) same by simp
    moreover have "map (\<lambda>j. accept_of (d_cfg d) ((rules d)[i := e2] ! j))
        (filter (\<lambda>j. dr_active ((rules d)[i := e2] ! j) \<and> now < dr_expiry ((rules d)[i := e2] ! j)) is)
      = map (\<lambda>j. accept_of (d_cfg d) (rules d ! j)) (filter (\<lambda>j. dr_active (rules d ! j) \<and> now < dr_expiry (rules d ! j)) is)"
      by (intro map_cong filter_cong) (simp_all add: same)
    ultimately show ?thesis by simp
  qed
  have id: "d\<lparr>rules := (rules d)[i := e]\<rparr> = d" by (simp add: e_def)
  consider "\<not> dr_active e" | "dr_active e" "now < dr_expiry e" | "dr_active e" "dr_expiry e \<le> now" by linarith
  then show ?case
  proof cases
    case 1
    then show ?thesis using Cons.prems(1) rec [of e w] id by (simp add: e_def)
  next
    case 2
    then obtain h w2 where ins: "netlink_rule_insert env (dr_addr e) (target_port (d_cfg d)) (Some (cfg_iface (d_cfg d))) w = Some (h, w2)"
      and p: "prune_loop env now is (if h \<noteq> 0 then d\<lparr>rules := (rules d)[i := e\<lparr>dr_handle := h\<rparr>]\<rparr> else d) w2 = Some (d', w')"
      using Cons.prems(1) unfolding e_def prune_loop.simps Let_def by (force simp: bind_eq_Some_conv)
    have "talks [accept_of (d_cfg d) e] w w2"
      unfolding accept_of_def using reinsert_talks [OF ins] 2(1) Cons.prems(3,4) by (simp add: e_def)
    from talks_trans [OF this rec [of "if h \<noteq> 0 then e\<lparr>dr_handle := h\<rparr> else e"]] show ?thesis
      using p id 2 by (auto simp: e_def split: if_splits)
  next
    case 3
    then have "prune_loop env now is (d\<lparr>rules := (rules d)[i := e\<lparr>dr_active := False\<rparr>]\<rparr>) w = Some (d', w')"
      using Cons.prems(1) by (simp add: e_def Let_def)
    from rec [OF this] 3 show ?thesis by (simp add: e_def)
  qed
qed simp

lemma open_slots:
  assumes "rules_ok d"
  shows "map ((!) (rules d)) (filter (\<lambda>i. dr_active (rules d ! i) \<and> Q (rules d ! i)) [0..<num_rules d]) = filter Q (open_rules d)"
proof -
  have n: "num_rules d \<le> length (rules d)" using assms by (simp add: rules_ok_def)
  have idle: "\<not> dr_active e" if "e \<in> set (drop (num_rules d) (rules d))" for e
  proof -
    from that obtain i where "e = rules d ! (num_rules d + i)" "num_rules d + i < 256"
      using assms by (auto simp: rules_ok_def in_set_conv_nth)
    then show ?thesis using assms by (auto simp: rules_ok_def)
  qed
  have "map ((!) (rules d)) [0..<num_rules d] = take (num_rules d) (rules d)"
    using n by (simp add: list_eq_iff_nth_eq)
  then have "map ((!) (rules d)) (filter (\<lambda>i. dr_active (rules d ! i) \<and> Q (rules d ! i)) [0..<num_rules d])
      = filter (\<lambda>e. dr_active e \<and> Q e) (take (num_rules d) (rules d))"
    using filter_map [of "\<lambda>e. dr_active e \<and> Q e" "(!) (rules d)" "[0..<num_rules d]"] by (simp add: comp_def)
  moreover have "filter dr_active (rules d) = filter dr_active (take (num_rules d) (rules d))"
    using filter_append [of dr_active "take (num_rules d) (rules d)" "drop (num_rules d) (rules d)"] idle
    by (simp add: filter_empty_conv)
  ultimately show ?thesis by (simp add: open_rules_def conj_commute)
qed

text \<open>
  When a rule has expired, the allowed addresses of both families are flushed and the rules that
  stay open are inserted again, in the order of the table; otherwise nothing is sent.
\<close>

lemma rule_prune_talks:
  assumes "rule_prune env d now w = Some (d', w')" and "rules_ok d" and "sources_ok d" and "config_ok (d_cfg d)"
  shows "if prune_ops d now
    then talks (map (Flush ALLOWED_NAME) fam @ map (accept_of (d_cfg d)) (filter (\<lambda>e. now < dr_expiry e) (open_rules d))) w w'
    else w' = w \<and> d' = d"
proof (cases "prune_ops d now")
  case True
  then obtain r w1 where f: "flush_loop env fam w = Some (r, w1)" and p: "prune_loop env now [0..<num_rules d] d w1 = Some (d', w')"
    using assms some_expired [OF assms(2), of now] by (auto simp: rule_prune_def netlink_flush_chain_def bind_eq_Some_conv)
  have src: "ip_source (dr_addr (rules d ! i))" if "i \<in> set [0..<num_rules d]" "dr_active (rules d ! i)" for i
    using assms(2,3) that by (auto simp: sources_ok_def all_open_def open_rules_def rules_ok_def)
  have "talks (map (\<lambda>i. accept_of (d_cfg d) (rules d ! i))
      (filter (\<lambda>i. dr_active (rules d ! i) \<and> now < dr_expiry (rules d ! i)) [0..<num_rules d])) w1 w'"
    using prune_loop_talks [OF p] assms(4) src by simp
  then have "talks (map (accept_of (d_cfg d)) (filter (\<lambda>e. now < dr_expiry e) (open_rules d))) w1 w'"
    unfolding open_slots [OF assms(2), symmetric] by (simp add: comp_def)
  then show ?thesis using True flush_talks [OF f] talks_trans by fastforce
qed (use assms some_expired [OF assms(2), of now] in \<open>simp add: rule_prune_def\<close>)

end
