(* ===== verification/Event_Loop.thy ===== *)
theory Event_Loop
  imports Rules
begin

text \<open>
  The event loop (\<open>daemon_process\<close> in \<^verbatim>\<open>src/main.c\<close>). \<open>loop_inv\<close> is its invariant and \<open>advance\<close>
  what a part of it does to the state: it keeps the invariant and what was set up, and every call
  it makes is a call of the loop that tells the firewall nothing but what the invariant allows.
  \<open>loop_reachable\<close> is the loop as a transition system; the last section says when it returns.
\<close>

definition tables_ok :: "world \<Rightarrow> bool" where
  "tables_ok w \<longleftrightarrow> length (w_replay w) = 64 \<and> length (w_rates w) = 64"

definition loop_inv :: "env \<Rightarrow> daemon \<Rightarrow> world \<Rightarrow> bool" where
  "loop_inv env d w \<longleftrightarrow> rules_ok d \<and> config_ok (d_cfg d) \<and> tables_ok w
     \<and> all_open (\<lambda>e. ip_source (dr_addr e) \<and> authorized env (secret_of (d_cfg d)) (trace w) (dr_addr e)) d"

definition same_setup :: "daemon \<Rightarrow> daemon \<Rightarrow> bool" where
  "same_setup d d' \<longleftrightarrow> d_cfg d' = d_cfg d \<and> udp_fds d' = udp_fds d \<and> num_udp_fds d' = num_udp_fds d
     \<and> epoll_fd d' = epoll_fd d \<and> signal_fd d' = signal_fd d \<and> maxevents d' = maxevents d"

definition advance :: "env \<Rightarrow> daemon \<Rightarrow> world \<Rightarrow> daemon \<Rightarrow> world \<Rightarrow> bool" where
  "advance env d w d' w' \<longleftrightarrow> loop_inv env d' w' \<and> same_setup d d' \<and> g_fd w' = g_fd w
     \<and> loop_ext env (d_cfg d) (trace w) (trace w')"

lemma advance_refl: "loop_inv env d w \<Longrightarrow> advance env d w d w"
  by (simp add: advance_def same_setup_def)

lemma advance_trans: "advance env d w d1 w1 \<Longrightarrow> advance env d1 w1 d2 w2 \<Longrightarrow> advance env d w d2 w2"
  using loop_ext_trans by (fastforce simp: advance_def same_setup_def)

lemma all_open_mono: "all_open P d \<Longrightarrow> (\<And>e. P e \<Longrightarrow> Q e) \<Longrightarrow> all_open Q d"
  by (auto simp: all_open_def)

lemma advance_calls:
  assumes "loop_inv env d w" and "tables_ok w'" and "g_fd w' = g_fd w" and "loop_ext env (d_cfg d) (trace w) (trace w')"
  shows "advance env d w d w'"
proof -
  obtain cs where "trace w' = trace w @ cs" using assms(4) by (auto simp: loop_ext_def)
  then have "loop_inv env d w'"
    using assms(1,2) unfolding loop_inv_def by (auto intro: authorized_mono elim!: all_open_mono)
  then show ?thesis using assms(3,4) by (simp add: advance_def same_setup_def)
qed

lemma more_tables:
  assumes "nl.more w' = nl.more w"
  shows "w_replay w' = w_replay w" "w_rates w' = w_rates w"
  using assms by (cases w; cases w'; simp)+

lemma talks_tables: "talks ms w w' \<Longrightarrow> tables_ok w' \<longleftrightarrow> tables_ok w"
  using more_tables [of w' w] by (auto simp: talks_def tables_ok_def)

lemma length_auth_validate: "auth_validate t secret token p clock = (r, t') \<Longrightarrow> length t' = length t"
  by (auto simp: auth_validate_def auth_record_seq_store table_store_def split: option.splits if_splits slot.splits)

lemma length_replay_prune [simp]: "length (auth_replay_prune t now age) = length t"
proof -
  have "length (fold (\<lambda>i t. if re_used (t ! i) \<and> now - last_seen (t ! i) > age
                 then t[i := (t ! i)\<lparr>re_used := False\<rparr>] else t) is t) = length t" for "is"
    by (induction "is" arbitrary: t) auto
  then show ?thesis by (simp add: auth_replay_prune_def)
qed

section \<open>A packet\<close>

text \<open>What \<open>handle_one_packet\<close> is called on: a packet that was just received.\<close>

definition just_received :: "env \<Rightarrow> int \<Rightarrow> byte list \<Rightarrow> int \<Rightarrow> sockaddr_storage \<Rightarrow> syscall list \<Rightarrow> bool" where
  "just_received env fd buf len src tr \<longleftrightarrow> (\<exists>pre. tr = pre @ [Recvfrom fd 256]
     \<and> (let r = env pre (Recvfrom fd 256) in 0 < len \<and> len = ret r \<and> take (nat len) buf = data r
        \<and> ip_source src \<and> sender_ip src = sender_ip (peer r)))"

lemma accepted_authorized:
  assumes "just_received env fd buf len src tr" and "clock_env env"
    and "auth_parse (Some (take (nat len) buf)) = Some token"
    and "auth_validate t secret token (daemon_params (sender_ip src) (ret (env tr Time))) clock = (0, t')"
    and "rule_ip ra = sender_ip src"
  shows "authorized env secret (tr @ [Time]) ra"
proof -
  obtain pre where pre: "tr = pre @ [Recvfrom fd 256]" "0 < ret (env pre (Recvfrom fd 256))"
    "take (nat len) buf = data (env pre (Recvfrom fd 256))" "sender_ip src = sender_ip (peer (env pre (Recvfrom fd 256)))"
    using assms(1) by (auto simp: just_received_def Let_def)
  obtain c where c: "matched_counter secret token (daemon_params (sender_ip src) (ret (env tr Time))) = Some c"
    using auth_validate_accepts [OF assms(4)] by blast
  have clk: "clock_ok (ret (env tr Time))" using assms(2) by (simp add: clock_env_def)
  have "\<bar>uint c - ret (env tr Time) div 30\<bar> \<le> 1" using matched_in_window [OF c clk] by linarith
  then show ?thesis
    using pre assms(3,5) matched_counter_token [OF c clk] unfolding authorized_def Let_def
    by (intro exI [of _ pre] exI [of _ fd] exI [of _ token] exI [of _ c]) simp
qed

lemma packet_advance:
  assumes inv: "loop_inv env d w" and rcv: "just_received env fd buf len src (trace w)"
    and sys: "clock_env env" "frame_ok (stk (trace w))" and h: "handle_one_packet env stk buf len src d w = Some (d', w')"
  shows "advance env d w d' w'"
proof -
  obtain port ip ra where ps: "packet_source (stk (trace w)) src = (port, ip, ra)" by (cases "packet_source (stk (trace w)) src")
  have isrc: "ip_source src" using rcv by (auto simp: just_received_def Let_def)
  note key = packet_source_key [OF isrc sys(2) ps]
  from h ps show ?thesis
  proof (cases rule: handle_packet_cases)
    case (refused msg rates)
    then have "tables_ok w'" using inv by (auto simp: loop_inv_def tables_ok_def)
    moreover have "loop_ext env (d_cfg d) (trace w) (trace w')"
      using loop_ext_calls [of "[Time, Log (if foreground (d_cfg d) then Stderr else Syslog) LOG_WARNING msg]"] refused(2) by simp
    moreover have "g_fd w' = g_fd w" using refused(2) by (simp add: log_msg_def)
    ultimately show ?thesis using advance_calls [OF inv] refused(1) by simp
  next
    case (accepted token replay h w2)
    define w1 where "w1 = (sys_do env Time (sys_do env Time w))\<lparr>w_replay := replay, w_rates := rate_limit_success (w_rates w) ip\<rparr>"
    have auth: "authorized env (secret_of (d_cfg d)) (trace w @ [Time]) ra"
      using accepted_authorized [OF rcv sys(1) accepted(2)] accepted(3) key(2,3) by simp
    have tr1: "trace w1 = (trace w @ [Time]) @ [Time]" by (simp add: w1_def)
    have ins: "netlink_rule_insert env ra (target_port (d_cfg d)) (iface_arg (d_cfg d)) w1 = Some (h, w2)"
      using accepted(4) by (simp add: w1_def)
    have t: "talks [Accept ra (target_port (d_cfg d)) (iface_arg (d_cfg d))] w1 w2"
      using ins key(1) inv iface_arg_ok ip_source_family
      by (intro rule_insert_talks) (auto simp: ip_source_def loop_inv_def)
    have "tables_ok w1" using inv length_auth_validate [OF accepted(3)] by (simp add: w1_def loop_inv_def tables_ok_def)
    then have tb: "tables_ok w2" using talks_tables [OF t] by simp
    have e1: "loop_ext env (d_cfg d) (trace w) (trace w1)"
      using loop_ext_calls [of "[Time, Time]"] by (simp add: tr1)
    have e2: "loop_ext env (d_cfg d) (trace w1) (trace w2)"
      using authorized_mono [OF auth, of "[Time]"] by (intro loop_ext_talks [OF t]) (auto simp: loop_msg_def tr1)
    have e3: "loop_ext env (d_cfg d) (trace w2) (trace w')" and tb': "tables_ok w'"
      using accepted(5) loop_ext_calls [of "[_]"] tb by (auto simp: tables_ok_def)
    have "g_fd w2 = g_fd w" using t by (simp add: talks_def w1_def)
    then have fd: "g_fd w' = g_fd w" using accepted(5) by (auto simp: log_msg_def)
    have adv: "advance env d w d w'"
      using advance_calls [OF inv tb' fd] loop_ext_trans [OF e1 loop_ext_trans [OF e2 e3]] by blast
    obtain cs where cs: "trace w' = (trace w @ [Time]) @ cs" using e2 e3 tr1 by (auto simp: loop_ext_def)
    from accepted(5) show ?thesis
    proof (elim disjE conjE)
      assume "d' = d"
      then show ?thesis using adv by simp
    next
      assume d': "d' = rule_track d h (ucast (ss_family ra)) (ret (env (trace w) Time) + uint (cfg_timeout (d_cfg d))) (Some ra)"
      have "loop_inv env d' w'"
        using adv key(1) authorized_mono [OF auth, of cs] unfolding advance_def loop_inv_def d' cs
        by (auto intro: rule_track_ok rule_track_all_open)
      then show ?thesis using adv by (simp add: advance_def same_setup_def d')
    qed
  qed
qed

section \<open>The loop\<close>

definition sys_ok :: "env \<Rightarrow> stack \<Rightarrow> bool" where
  "sys_ok env stk \<longleftrightarrow> udp_kernel env \<and> clock_env env \<and> (\<forall>tr. frame_ok (stk tr))"

lemma recv_advance:
  assumes "loop_inv env d w" and "udp_kernel env" and "udp_recv env fd buf src (Some 128) w = Some (r, w')"
    and "length buf = 256" and "ss_wf src"
  shows "advance env d w d w'" and "length (r_buf r) = 256" and "ss_wf (r_src r)"
    and "0 < r_n r \<Longrightarrow> just_received env fd (r_buf r) (r_n r) (r_src r) (trace w')"
proof -
  obtain pre k where r: "extends w w'" "trace w' = pre @ [Recvfrom fd 256]" "os.more w' = os.more w"
    "calls_since w w' = replicate k (Recvfrom fd 256)" "length (r_buf r) = 256" "ss_wf (r_src r)"
    "0 < r_n r \<Longrightarrow> r_n r = ret (env pre (Recvfrom fd 256)) \<and> take (nat (r_n r)) (r_buf r) = data (env pre (Recvfrom fd 256))
       \<and> ip_source (r_src r) \<and> sender_ip (r_src r) = sender_ip (peer (env pre (Recvfrom fd 256)))"
    using received [OF assms(2-5)] by metis
  have "trace w' = trace w @ replicate k (Recvfrom fd 256)" using r(1,4) by (auto simp: extends_def calls_since_def)
  then have e: "loop_ext env (d_cfg d) (trace w) (trace w')" by (simp add: loop_ext_calls)
  have "tables_ok w'" using assms(1) r(3) by (cases w; cases w') (simp add: loop_inv_def tables_ok_def)
  moreover have "g_fd w' = g_fd w" using r(3) by (cases w; cases w') simp
  ultimately show "advance env d w d w'" using e by (rule advance_calls [OF assms(1)])
  show "length (r_buf r) = 256" "ss_wf (r_src r)" by fact+
  show "just_received env fd (r_buf r) (r_n r) (r_src r) (trace w')" if "0 < r_n r"
    using r(2) r(7) [OF that] that by (auto simp: just_received_def Let_def)
qed

lemma recv_loop_advance:
  assumes "recv_loop env stk fd buf src d w = Some (d', w')" and "sys_ok env stk"
    and "loop_inv env d w" and "length buf = 256" and "ss_wf src"
  shows "advance env d w d' w'"
proof -
  have "sys_ok env stk \<longrightarrow> loop_inv env d w \<longrightarrow> length buf = 256 \<longrightarrow> ss_wf src \<longrightarrow> advance env d w (fst (d', w')) (snd (d', w'))"
  proof (rule recv_loop.raw_induct [where P = "\<lambda>env stk fd buf src d w dw.
      sys_ok env stk \<longrightarrow> loop_inv env d w \<longrightarrow> length buf = 256 \<longrightarrow> ss_wf src \<longrightarrow> advance env d w (fst dw) (snd dw)", OF _ assms(1)],
      intro impI)
    fix f env stk fd buf src d w dw
    assume IH: "\<And>env stk fd buf src d w dw. f env stk fd buf src d w = Some dw \<Longrightarrow>
        sys_ok env stk \<longrightarrow> loop_inv env d w \<longrightarrow> length buf = 256 \<longrightarrow> ss_wf src \<longrightarrow> advance env d w (fst dw) (snd dw)"
      and eq: "do {
         (r, w) \<leftarrow> udp_recv env fd buf src (Some 128) w;
         if 0 < r_n r then do {
           (d, w) \<leftarrow> handle_one_packet env stk (r_buf r) (r_n r) (r_src r) d w;
           f env stk fd (r_buf r) (r_src r) d w
         }
         else Some (d, w)
       } = Some dw"
      and pre: "sys_ok env stk" "loop_inv env d w" "length buf = 256" "ss_wf src"
    obtain r w1 where u: "udp_recv env fd buf src (Some 128) w = Some (r, w1)"
      and rest: "(if 0 < r_n r then do {
           (d, w) \<leftarrow> handle_one_packet env stk (r_buf r) (r_n r) (r_src r) d w1;
           f env stk fd (r_buf r) (r_src r) d w
         }
         else Some (d, w1)) = Some dw"
      using eq by (auto simp: bind_eq_Some_conv)
    have ok: "udp_kernel env" "clock_env env" "frame_ok (stk (trace w1))" using pre(1) by (simp_all add: sys_ok_def)
    note a = recv_advance [OF pre(2) ok(1) u pre(3,4)]
    show "advance env d w (fst dw) (snd dw)"
    proof (cases "0 < r_n r")
      case False
      then show ?thesis using rest a(1) by auto
    next
      case True
      then obtain d2 w2 where h: "handle_one_packet env stk (r_buf r) (r_n r) (r_src r) d w1 = Some (d2, w2)"
        and rec: "f env stk fd (r_buf r) (r_src r) d2 w2 = Some dw"
        using rest by (auto simp: bind_eq_Some_conv)
      have "loop_inv env d w1" using a(1) by (simp add: advance_def)
      from packet_advance [OF this a(4) [OF True] ok(2,3) h] have b: "advance env d w1 d2 w2" .
      then have "loop_inv env d2 w2" by (simp add: advance_def)
      then have "advance env d2 w2 (fst dw) (snd dw)" using IH [OF rec] pre(1) a(2,3) by blast
      then show ?thesis using advance_trans [OF advance_trans [OF a(1) b]] by blast
    qed
  qed
  then show ?thesis using assms by simp
qed

lemma signal_calls:
  "\<exists>cs. trace (snd (daemon_handle_signal env d w)) = trace w @ cs \<and> (\<forall>c \<in> set cs. turn_call c \<and> \<not> is_send c)"
  "tables_ok v \<Longrightarrow> tables_ok (snd (daemon_handle_signal env d v))"
  by (auto simp: daemon_handle_signal_def sys_eq Let_def tables_ok_def)

lemma event_loop_advance:
  assumes "event_loop env stk fds d w = Some (r, d', w')" and "sys_ok env stk" and "loop_inv env d w"
  shows "advance env d w d' w'"
  using assms(1,3)
proof (induction fds arbitrary: d w)
  case Nil
  then show ?case by (simp add: advance_refl)
next
  case (Cons fd fds)
  have fr: "frame_ok (stk (trace w))" using assms(2) by (simp add: sys_ok_def)
  consider (signal) "fd = signal_fd d" | (packets) u d1 w1 where "recv_loop env stk u (fr_buf (stk (trace w))) (fr_src (stk (trace w))) d w = Some (d1, w1)"
      "event_loop env stk fds d1 w1 = Some (r, d', w')"
    | (other) "event_loop env stk fds d w = Some (r, d', w')"
    using Cons.prems(1) by (auto simp: Let_def bind_eq_Some_conv split: if_splits)
  then show ?case
  proof cases
    case signal
    then have d: "d' = d" "w' = snd (daemon_handle_signal env d w)" using Cons.prems(1) by (auto simp: split_beta)
    have "tables_ok w" using Cons.prems(2) by (simp add: loop_inv_def)
    moreover have "g_fd w' = g_fd w" by (simp add: d(2) daemon_handle_signal_def sys_eq Let_def)
    ultimately show ?thesis using advance_calls [OF Cons.prems(2)] loop_ext_calls signal_calls(1) [of env d w] signal_calls(2) [of w env d] d by metis
  next
    case packets
    have "advance env d w d1 w1"
      using fr by (intro recv_loop_advance [OF packets(1) assms(2) Cons.prems(2)]) (simp_all add: frame_ok_def)
    moreover from this have "advance env d1 w1 d' w'" using Cons.IH [OF packets(2)] by (simp add: advance_def)
    ultimately show ?thesis by (rule advance_trans)
  next
    case other
    then show ?thesis using Cons by blast
  qed
qed

lemma prune_advance:
  assumes inv: "loop_inv env d w" and p: "rule_prune env d now w = Some (d', w')"
  shows "advance env d w d' w'"
proof -
  have ok: "rules_ok d" "config_ok (d_cfg d)" "sources_ok d"
    using inv by (auto simp: loop_inv_def sources_ok_def all_open_def)
  note o = rule_prune_open [OF ok(1) p]
  define A where "A = (\<lambda>tr ra. ip_source ra \<and> authorized env (secret_of (d_cfg d)) tr ra)"
  have A: "all_open (\<lambda>e. A (trace w) (dr_addr e)) d" using inv by (simp add: A_def loop_inv_def)
  have e: "loop_ext env (d_cfg d) (trace w) (trace w') \<and> tables_ok w' \<and> g_fd w' = g_fd w"
  proof (cases "prune_ops d now")
    case True
    then have t: "talks (map (Flush ALLOWED_NAME) fam @ map (accept_of (d_cfg d)) (filter (\<lambda>e. now < dr_expiry e) (open_rules d))) w w'"
      using rule_prune_talks [OF p ok(1,3,2)] by simp
    have "loop_ext env (d_cfg d) (trace w) (trace w')"
      by (rule loop_ext_talks [OF t]) (use A in \<open>auto simp: loop_msg_def accept_of_def all_open_def A_def\<close>)
    then show ?thesis using talks_tables [OF t] t inv by (simp add: loop_inv_def talks_def)
  next
    case False
    then show ?thesis using rule_prune_talks [OF p ok(1,3,2)] inv by (simp add: loop_inv_def)
  qed
  have "A (trace w) (dr_addr x)" if "x \<in> set (open_rules d')" for x
  proof -
    have "rule_view x \<in> set (map rule_view (open_rules d'))" using that by simp
    then obtain y where "y \<in> set (open_rules d)" "rule_view x = rule_view y" unfolding o(2) by auto
    then show ?thesis using A by (auto simp: all_open_def rule_view_def)
  qed
  then have "all_open (\<lambda>e. A (trace w) (dr_addr e)) d'" by (simp add: all_open_def)
  moreover obtain cs where "trace w' = trace w @ cs" using e by (auto simp: loop_ext_def)
  moreover have cfg: "d_cfg d' = d_cfg d" using arg_cong [OF o(3), of d_cfg] by simp
  moreover have su: "same_setup d d'"
    using cfg arg_cong [OF o(3), of udp_fds] arg_cong [OF o(3), of num_udp_fds] arg_cong [OF o(3), of epoll_fd]
      arg_cong [OF o(3), of signal_fd] arg_cong [OF o(3), of maxevents] by (simp add: same_setup_def)
  ultimately have "loop_inv env d' w'"
    using e ok o(1) unfolding loop_inv_def A_def by (auto intro: authorized_mono elim!: all_open_mono)
  then show ?thesis using e su by (simp add: advance_def)
qed

text \<open>One turn of the loop.\<close>

lemma process_advance:
  assumes p: "daemon_process env stk d w = Some (r, d', w')" and sys: "sys_ok env stk" and inv: "loop_inv env d w"
  shows "advance env d w d' w'"
proof -
  define e where "e = env (trace w) (Epoll_wait (epoll_fd d) (maxevents d) 1000)"
  define w1 where "w1 = sys_do env (Epoll_wait (epoll_fd d) (maxevents d) 1000) w"
  define w2 where "w2 = sys_do env Time (sys_do env Clock_monotonic w1)"
  define now where "now = ret (env (trace w1 @ [Clock_monotonic]) Time)"
  have tb: "tables_ok w1" "tables_ok w2" "tables_ok (w2\<lparr>w_replay := auth_replay_prune (w_replay w2) now 3600\<rparr>)"
    using inv by (auto simp: w1_def w2_def loop_inv_def tables_ok_def)
  have a1: "advance env d w d w1"
    using loop_ext_calls [of "[Epoll_wait (epoll_fd d) (maxevents d) 1000]"] by (intro advance_calls [OF inv tb(1)]) (simp_all add: w1_def)
  have ext: "loop_ext env (d_cfg d) (trace w) (trace w2)"
    using loop_ext_calls [of "[Epoll_wait (epoll_fd d) (maxevents d) 1000, Clock_monotonic, Time]"] by (simp add: w1_def w2_def)
  note unf = p [unfolded daemon_process_def Let_def sys_eq prod.case, folded e_def w1_def, folded w2_def]
  show ?thesis
  proof (cases "ret e < 0")
    case True
    then show ?thesis using unf a1 by auto
  next
    case False
    have "\<exists>d1 w3. advance env d w d1 w3 \<and> event_loop env stk (take (nat (ret e)) (ready e)) d1 w3 = Some (r, d', w')"
    proof (cases "PRUNE_INTERVAL \<le> ret (env (trace w1) Clock_monotonic) - last_prune d")
      case True
      define d0 where "d0 = d\<lparr>last_prune := ret (env (trace w1) Clock_monotonic)\<rparr>"
      obtain d1 w3 where rp: "rule_prune env d0 now (w2\<lparr>w_replay := auth_replay_prune (w_replay w2) now 3600\<rparr>) = Some (d1, w3)"
        and ev: "event_loop env stk (take (nat (ret e)) (ready e)) d1 w3 = Some (r, d', w')"
        using unf False True by (auto simp: now_def d0_def bind_eq_Some_conv w2_def)
      have "advance env d w d (w2\<lparr>w_replay := auth_replay_prune (w_replay w2) now 3600\<rparr>)"
        using ext by (intro advance_calls [OF inv tb(3)]) (simp_all add: w1_def w2_def)
      then have "advance env d w d0 (w2\<lparr>w_replay := auth_replay_prune (w_replay w2) now 3600\<rparr>)"
        by (simp add: d0_def advance_def same_setup_def loop_inv_def rules_ok_def all_open_def open_rules_def)
      moreover from this have "advance env d0 (w2\<lparr>w_replay := auth_replay_prune (w_replay w2) now 3600\<rparr>) d1 w3"
        using prune_advance [OF _ rp] by (simp add: advance_def)
      ultimately show ?thesis using ev advance_trans by blast
    next
      case no: False
      have "event_loop env stk (take (nat (ret e)) (ready e)) d w2 = Some (r, d', w')"
        using unf False no by (simp add: w2_def)
      moreover have "g_fd w2 = g_fd w" by (simp add: w1_def w2_def)
      ultimately show ?thesis using advance_calls [OF inv tb(2) _ ext] by blast
    qed
    then obtain d1 w3 where "advance env d w d1 w3" "event_loop env stk (take (nat (ret e)) (ready e)) d1 w3 = Some (r, d', w')" by blast
    then show ?thesis using event_loop_advance [OF _ sys] advance_trans by (metis advance_def)
  qed
qed

section \<open>Turns\<close>

text \<open>The states at the head of the loop, from the state in which it is entered.\<close>

inductive loop_reachable :: "env \<Rightarrow> stack \<Rightarrow> daemon \<Rightarrow> world \<Rightarrow> daemon \<Rightarrow> world \<Rightarrow> bool"
  for env stk d0 w0 where
  enter: "loop_reachable env stk d0 w0 d0 w0"
| turn: "loop_reachable env stk d0 w0 d' w'"
    if "loop_reachable env stk d0 w0 d w" "daemon_process env stk d w = Some (0, d', w')"

lemma reachable_advance:
  assumes "loop_reachable env stk d0 w0 d w" and "sys_ok env stk" and "loop_inv env d0 w0"
  shows "advance env d0 w0 d w"
  using assms(1)
proof induction
  case enter
  then show ?case using assms(3) by (rule advance_refl)
next
  case (turn d w d' w')
  then show ?case using process_advance [OF turn(2) assms(2)] advance_trans by (metis advance_def)
qed

lemma run_loop_advance:
  assumes "run_loop env stk cfg d w = Some (d', w')" and "sys_ok env stk" and "loop_inv env d w"
  shows "advance env d w d' w'"
proof -
  have "sys_ok env stk \<longrightarrow> loop_inv env d w \<longrightarrow> advance env d w (fst (d', w')) (snd (d', w'))"
  proof (rule run_loop.raw_induct [where P = "\<lambda>env stk cfg d w dw.
      sys_ok env stk \<longrightarrow> loop_inv env d w \<longrightarrow> advance env d w (fst dw) (snd dw)", OF _ assms(1)], intro impI)
    fix f env stk cfg d w dw
    assume IH: "\<And>env stk cfg d w dw. f env stk cfg d w = Some dw \<Longrightarrow>
        sys_ok env stk \<longrightarrow> loop_inv env d w \<longrightarrow> advance env d w (fst dw) (snd dw)"
      and eq: "do {
         (r, d, w) \<leftarrow> daemon_process env stk d w;
         if r = 0 then (if test_mode cfg then Some (d, w) else f env stk cfg d w) else Some (d, w)
       } = Some dw"
      and pre: "sys_ok env stk" "loop_inv env d w"
    obtain r d1 w1 where p: "daemon_process env stk d w = Some (r, d1, w1)"
      and rest: "dw = (d1, w1) \<or> f env stk cfg d1 w1 = Some dw"
      using eq by (auto simp: bind_eq_Some_conv split: if_splits)
    note a = process_advance [OF p pre]
    from rest show "advance env d w (fst dw) (snd dw)"
      using a advance_trans [OF a] IH [of env stk cfg d1 w1 dw] pre(1) by (auto simp: advance_def)
  qed
  then show ?thesis using assms by simp
qed

section \<open>Returning\<close>

fun is_wait :: "syscall \<Rightarrow> bool" where
  "is_wait (Epoll_wait e n t) = True"
| "is_wait _ = False"

fun is_recvfrom :: "syscall \<Rightarrow> bool" where
  "is_recvfrom (Recvfrom fd n) = True"
| "is_recvfrom _ = False"

definition recvs_since_wait :: "syscall list \<Rightarrow> nat" where
  "recvs_since_wait tr = length (filter is_recvfrom (takeWhile (\<lambda>c. \<not> is_wait c) (rev tr)))"

text \<open>
  The sockets are drained after finitely many receives: some number of them after the last wait, a
  receive reports that nothing is there.
\<close>

definition drains :: "env \<Rightarrow> nat \<Rightarrow> bool" where
  "drains env m \<longleftrightarrow> (\<forall>tr fd. m \<le> recvs_since_wait tr \<longrightarrow>
     (let r = env tr (Recvfrom fd 256) in ret r \<le> 0 \<and> (ret r < 0 \<longrightarrow> err r \<noteq> EINTR)))"

lemma recvs_grow:
  assumes "\<forall>c \<in> set cs. \<not> is_wait c"
  shows "recvs_since_wait (tr @ cs) = recvs_since_wait tr + length (filter is_recvfrom cs)"
proof -
  have "takeWhile (\<lambda>c. \<not> is_wait c) (rev cs @ rev tr) = rev cs @ takeWhile (\<lambda>c. \<not> is_wait c) (rev tr)"
    by (rule takeWhile_append2) (use assms in simp)
  then show ?thesis by (simp add: recvs_since_wait_def rev_filter [symmetric])
qed

lemma recvs_recv [simp]: "recvs_since_wait (tr @ [Recvfrom fd n]) = Suc (recvs_since_wait tr)"
  by (simp add: recvs_since_wait_def)

lemma udp_recv_drains:
  assumes "drains env m" and "length buf = 256"
  shows "\<exists>r w'. udp_recv env fd buf src sl w = Some (r, w')"
proof (induction "m - recvs_since_wait (trace w)" arbitrary: w rule: less_induct)
  case less
  show ?case
  proof (cases "interrupted env fd 256 w")
    case True
    then have "\<not> m \<le> recvs_since_wait (trace w)"
      using assms(1) unfolding drains_def interrupted_def by (fastforce simp: Let_def)
    then have "\<exists>r w'. udp_recv env fd buf src sl (sys_do env (Recvfrom fd 256) w) = Some (r, w')"
      by (intro less) simp
    then show ?thesis using udp_recv_interrupted [of env fd buf w] True assms(2) by simp
  next
    case False
    then show ?thesis using udp_recv_returns [of 0 env fd buf w src sl] assms(2) by auto
  qed
qed

lemma packet_returns:
  assumes "finitely_many_replies env n" and "ip_source src" and "frame_ok (stk (trace w))" and "config_ok (d_cfg d)"
  shows "\<exists>d' w'. handle_one_packet env stk buf len src d w = Some (d', w')"
proof -
  obtain port ip ra where ps: "packet_source (stk (trace w)) src = (port, ip, ra)" by (cases "packet_source (stk (trace w)) src")
  have ra: "ss_wf ra" using packet_source_key(1) [OF assms(2,3) ps] by (simp add: ip_source_def)
  have ins: "\<exists>h w'. netlink_rule_insert env ra (target_port (d_cfg d)) (iface_arg (d_cfg d)) v = Some (h, w')" for v :: world
    by (rule rule_insert_returns [OF assms(1) ra]) (use iface_arg_ok [OF assms(4)] in \<open>simp add: iface_ok_def\<close>)
  have src: "normalize_src src (fr_addrbuf (stk (trace w))) (ip_from_sockaddr src (fr_src_ip (stk (trace w)))) = (port, ip, ra)"
    using ps by (simp add: packet_source_def)
  show ?thesis
  proof (cases "auth_parse (Some (take (nat len) buf))")
    case None
    then show ?thesis unfolding handle_one_packet_def Let_def sys_eq src prod.case by simp
  next
    case (Some token)
    obtain v replay where av: "auth_validate (w_replay w) (take (secret_len (d_cfg d)) (cfg_secret (d_cfg d))) token
        (daemon_params ip (ret (env (trace w) Time))) (ret (env (trace w @ [Time]) Time)) = (v, replay)"
      by (meson surj_pair)
    obtain h w2 where "netlink_rule_insert env ra (target_port (d_cfg d)) (iface_arg (d_cfg d))
        ((sys_do env Time (sys_do env Time w))\<lparr>w_replay := replay, w_rates := rate_limit_success (w_rates w) ip\<rparr>) = Some (h, w2)"
      using ins by blast
    then show ?thesis by (simp add: handle_one_packet_def src sys_eq Some Let_def av)
  qed
qed

lemma packet_no_wait:
  assumes "handle_one_packet env stk buf len src d w = Some (d', w')" and "ip_source src" and "frame_ok (stk (trace w))"
    and "config_ok (d_cfg d)"
  shows "\<exists>cs. trace w' = trace w @ cs \<and> (\<forall>c \<in> set cs. \<not> is_wait c)"
proof -
  obtain port ip ra where ps: "packet_source (stk (trace w)) src = (port, ip, ra)" by (cases "packet_source (stk (trace w)) src")
  from assms(1) ps show ?thesis
  proof (cases rule: handle_packet_cases)
    case (refused msg rates)
    then show ?thesis by simp
  next
    case (accepted token replay h w2)
    have "talks [Accept ra (target_port (d_cfg d)) (iface_arg (d_cfg d))]
        ((sys_do env Time (sys_do env Time w))\<lparr>w_replay := replay, w_rates := rate_limit_success (w_rates w) ip\<rparr>) w2"
      using accepted(4) packet_source_key(1) [OF assms(2,3) ps] iface_arg_ok [OF assms(4)] ip_source_family
      by (intro rule_insert_talks) (auto simp: ip_source_def)
    then obtain cs where cs: "trace w2 = trace w @ [Time, Time] @ cs"
      "set cs \<subseteq> {Poll (g_fd w) 100, Recv (g_fd w) BUF_SIZE} \<union> range (\<lambda>b. Sendto (g_fd w) b nl_addr)"
      by (auto simp: talks_def talk_def)
    have "\<not> is_wait c" if "c \<in> set cs" for c using cs(2) that by auto
    then show ?thesis using accepted(5) cs(1) by (elim disjE) auto
  qed
qed

lemma recv_loop_returns:
  assumes "finitely_many_replies env n" and "drains env m" and "sys_ok env stk" and "loop_inv env d w"
    and "length buf = 256" and "ss_wf src"
  shows "\<exists>d' w'. recv_loop env stk fd buf src d w = Some (d', w')"
  using assms(4-6)
proof (induction "m - recvs_since_wait (trace w)" arbitrary: d w buf src rule: less_induct)
  case less
  have ok: "udp_kernel env" "clock_env env" "\<And>tr. frame_ok (stk tr)" using assms(3) by (simp_all add: sys_ok_def)
  obtain r w1 where u: "udp_recv env fd buf src (Some 128) w = Some (r, w1)"
    using udp_recv_drains [OF assms(2) less.prems(2)] by blast
  note a = recv_advance [OF less.prems(1) ok(1) u less.prems(2,3)]
  show ?case
  proof (cases "0 < r_n r")
    case False
    then show ?thesis by (subst recv_loop.simps) (simp add: u)
  next
    case True
    have jr: "just_received env fd (r_buf r) (r_n r) (r_src r) (trace w1)" by (rule a(4) [OF True])
    then have src: "ip_source (r_src r)" by (auto simp: just_received_def Let_def)
    have inv1: "loop_inv env d w1" using a(1) by (simp add: advance_def)
    then have cfg: "config_ok (d_cfg d)" by (simp add: loop_inv_def)
    obtain d2 w2 where h: "handle_one_packet env stk (r_buf r) (r_n r) (r_src r) d w1 = Some (d2, w2)"
      using packet_returns [where stk = stk and w = w1, OF assms(1) src ok(3) cfg] by blast
    have inv2: "loop_inv env d2 w2" using packet_advance [where stk = stk, OF inv1 jr ok(2) ok(3) h] by (simp add: advance_def)
    obtain k where tr: "trace w1 = trace w @ replicate (Suc k) (Recvfrom fd 256)"
      and pos: "0 < ret (env (trace w @ replicate k (Recvfrom fd 256)) (Recvfrom fd 256))"
      using udp_recv_result [OF u] True unfolding less.prems(2) by (fastforce simp: trace_attempts Let_def split: if_splits)
    have grow: "recvs_since_wait (trace w @ replicate j (Recvfrom fd 256)) = recvs_since_wait (trace w) + j" for j
      by (subst recvs_grow) simp_all
    have "recvs_since_wait (trace w) + Suc k \<le> recvs_since_wait (trace w2)"
      using packet_no_wait [OF h src ok(3) cfg] recvs_grow grow [of "Suc k"] unfolding tr by (metis le_add1)
    moreover have "\<not> m \<le> recvs_since_wait (trace w @ replicate k (Recvfrom fd 256))"
      using assms(2) pos unfolding drains_def Let_def by (meson not_less)
    ultimately have "m - recvs_since_wait (trace w2) < m - recvs_since_wait (trace w)" by (simp add: grow)
    then obtain d3 w3 where "recv_loop env stk fd (r_buf r) (r_src r) d2 w2 = Some (d3, w3)"
      using less.hyps inv2 a(2,3) by blast
    then show ?thesis using True by (subst recv_loop.simps) (simp add: u h)
  qed
qed

lemma event_loop_returns:
  assumes "finitely_many_replies env n" and "drains env m" and "sys_ok env stk" and "loop_inv env d w"
  shows "\<exists>r d' w'. event_loop env stk fds d w = Some (r, d', w')"
  using assms(4)
proof (induction fds arbitrary: d w)
  case (Cons fd fds)
  have fr: "length (fr_buf (stk (trace w))) = 256" "ss_wf (fr_src (stk (trace w)))"
    using assms(3) by (simp_all add: sys_ok_def frame_ok_def)
  have "\<exists>r d' w'. do {
      (d, w) \<leftarrow> recv_loop env stk u (fr_buf (stk (trace w))) (fr_src (stk (trace w))) d w;
      event_loop env stk fds d w
    } = Some (r, d', w')" for u
  proof -
    obtain d1 w1 where r: "recv_loop env stk u (fr_buf (stk (trace w))) (fr_src (stk (trace w))) d w = Some (d1, w1)"
      using recv_loop_returns [OF assms(1-3) Cons.prems fr] by blast
    then have "loop_inv env d1 w1" using recv_loop_advance [OF r assms(3) Cons.prems fr] by (simp add: advance_def)
    then show ?thesis using Cons.IH r by simp
  qed
  then show ?case using Cons by (auto simp: split_beta Let_def)
qed simp

lemma prune_returns:
  fixes w :: "'a nl_scheme"
  assumes "finitely_many_replies env n" and "rules_ok d" and "sources_ok d" and "config_ok (d_cfg d)"
  shows "\<exists>d' w'. rule_prune env d now w = Some (d', w')"
proof -
  have rec: "\<exists>d' w'. prune_loop env now is d w = Some (d', w')"
    if "config_ok (d_cfg d)" "distinct is" "\<And>i. i \<in> set is \<Longrightarrow> dr_active (rules d ! i) \<Longrightarrow> ss_wf (dr_addr (rules d ! i))"
    for "is" d and w :: "'a nl_scheme"
    using that
  proof (induction "is" arbitrary: d w)
    case (Cons i "is")
    have same: "(rules d)[i := e] ! j = rules d ! j" if "j \<in> set is" for j e
      using that Cons.prems(2) by (intro nth_list_update_neq) auto
    have nxt: "\<exists>d' w'. prune_loop env now is (d\<lparr>rules := (rules d)[i := e]\<rparr>) v = Some (d', w')" for e and v :: "'a nl_scheme"
      using Cons.prems by (intro Cons.IH) (simp_all add: same)
    have nxt0: "\<exists>d' w'. prune_loop env now is d v = Some (d', w')" for v :: "'a nl_scheme" using Cons by auto
    have "\<exists>h w'. netlink_rule_insert env (dr_addr (rules d ! i)) (target_port (d_cfg d)) (Some (cfg_iface (d_cfg d))) w = Some (h, w')"
      if "dr_active (rules d ! i)"
      using that Cons.prems(1,3) by (intro rule_insert_returns [OF assms(1)]) (auto simp: config_ok_def)
    then show ?case using nxt nxt0 by (fastforce simp: Let_def)
  qed simp
  have "\<exists>d' w'. prune_loop env now [0..<num_rules d] d v = Some (d', w')" for v :: "'a nl_scheme"
  proof (rule rec [OF assms(4)])
    show "ss_wf (dr_addr (rules d ! i))" if "i \<in> set [0..<num_rules d]" "dr_active (rules d ! i)" for i
      using that assms(2,3) by (auto simp: sources_ok_def all_open_def open_rules_def rules_ok_def ip_source_def)
  qed simp
  moreover obtain w1 where "netlink_flush_chain env w = Some (0, w1)" using flush_returns [OF assms(1)] by blast
  ultimately show ?thesis by (simp add: rule_prune_def)
qed

text \<open>Every turn of the loop returns.\<close>

lemma process_returns:
  assumes "finitely_many_replies env n" and "drains env m" and "sys_ok env stk" and "loop_inv env d w"
  shows "\<exists>r d' w'. daemon_process env stk d w = Some (r, d', w')"
proof -
  define w1 where "w1 = sys_do env (Epoll_wait (epoll_fd d) (maxevents d) 1000) w"
  define w2 where "w2 = sys_do env Time (sys_do env Clock_monotonic w1)"
  have ext: "loop_ext env (d_cfg d) (trace w) (trace w2)"
    using loop_ext_calls [of "[Epoll_wait (epoll_fd d) (maxevents d) 1000, Clock_monotonic, Time]"] by (simp add: w1_def w2_def)
  have inv: "loop_inv env (d\<lparr>last_prune := x\<rparr>) (w2\<lparr>w_replay := t\<rparr>)" "loop_inv env d w2" if "length t = 64" for x t
  proof -
    have "tables_ok (w2\<lparr>w_replay := t\<rparr>)" "tables_ok w2"
      using that assms(4) by (auto simp: loop_inv_def tables_ok_def w1_def w2_def)
    then have "advance env d w d (w2\<lparr>w_replay := t\<rparr>)" "advance env d w d w2"
      using ext by (auto intro!: advance_calls [OF assms(4)] simp: w1_def w2_def)
    then show "loop_inv env (d\<lparr>last_prune := x\<rparr>) (w2\<lparr>w_replay := t\<rparr>)" "loop_inv env d w2"
      by (auto simp: advance_def loop_inv_def rules_ok_def all_open_def open_rules_def)
  qed
  have "\<exists>d' w'. rule_prune env (d\<lparr>last_prune := x\<rparr>) now (w2\<lparr>w_replay := t\<rparr>) = Some (d', w') \<and> loop_inv env d' w'"
    if "length t = 64" for x t now
  proof -
    note i = inv(1) [OF that, of x]
    obtain d' w' where "rule_prune env (d\<lparr>last_prune := x\<rparr>) now (w2\<lparr>w_replay := t\<rparr>) = Some (d', w')"
      using prune_returns [OF assms(1), of "d\<lparr>last_prune := x\<rparr>" now "w2\<lparr>w_replay := t\<rparr>"] i by (auto simp: loop_inv_def sources_ok_def all_open_def)
    then show ?thesis using prune_advance [OF i] by (auto simp: advance_def)
  qed
  moreover have "length (auth_replay_prune (w_replay w2) now 3600) = 64" for now
    using assms(4) by (simp add: loop_inv_def tables_ok_def w1_def w2_def)
  ultimately have prune: "\<exists>d' w'. rule_prune env (d\<lparr>last_prune := x\<rparr>) now (w2\<lparr>w_replay := auth_replay_prune (w_replay w2) now 3600\<rparr>) = Some (d', w')
      \<and> loop_inv env d' w'" for x now by blast
  have ev: "loop_inv env d1 w3 \<Longrightarrow> \<exists>r d' w'. event_loop env stk fds d1 w3 = Some (r, d', w')" for d1 w3 fds
    using event_loop_returns [OF assms(1-3)] .
  have inv2: "loop_inv env d w2" using inv(2) [of "replicate 64 undefined"] by simp
  define e where "e = env (trace w) (Epoll_wait (epoll_fd d) (maxevents d) 1000)"
  define ts where "ts = ret (env (trace w1) Clock_monotonic)"
  define now where "now = ret (env (trace (sys_do env Clock_monotonic w1)) Time)"
  have eq: "daemon_process env stk d w =
      (if ret e < 0 then Some (if errno w1 = EINTR then 0 else -1, d, w1)
       else do {
         (d, w) \<leftarrow> (if PRUNE_INTERVAL \<le> ts - last_prune d
           then rule_prune env (d\<lparr>last_prune := ts\<rparr>) now (w2\<lparr>w_replay := auth_replay_prune (w_replay w2) now 3600\<rparr>)
           else Some (d, w2));
         event_loop env stk (take (nat (ret e)) (ready e)) d w
       })"
    unfolding daemon_process_def Let_def sys_eq prod.case w1_def [symmetric] e_def [symmetric] ts_def [symmetric]
      now_def [symmetric] w2_def [symmetric] ..
  obtain d1 w3 where "rule_prune env (d\<lparr>last_prune := ts\<rparr>) now (w2\<lparr>w_replay := auth_replay_prune (w_replay w2) now 3600\<rparr>) = Some (d1, w3)"
    "loop_inv env d1 w3" using prune by blast
  then show ?thesis
    using ev [of d1 w3 "take (nat (ret e)) (ready e)"] ev [OF inv2, of "take (nat (ret e)) (ready e)"] unfolding eq by auto
qed

end
