(* ===== verification/Lifecycle.thy ===== *)
theory Lifecycle
  imports Event_Loop
begin

text \<open>
  The life of the daemon around its loop (\<open>daemon_setup\<close>, \<open>daemon_cleanup\<close>, \<open>daemon_run\<close> in
  \<^verbatim>\<open>src/main.c\<close>): what a successful set-up tells the firewall and leaves in the state, what cleaning
  up closes, and what is left of a set-up that fails.
\<close>

section \<open>Calls that send nothing\<close>

definition quiet :: "'a nl_scheme \<Rightarrow> 'a nl_scheme \<Rightarrow> bool" where
  "quiet w w' \<longleftrightarrow> (\<exists>cs. trace w' = trace w @ cs \<and> sent_msgs cs = []) \<and> os.more w' = os.more w"

lemma quiet_refl [simp]: "quiet w w"
  by (auto simp: quiet_def)

lemma quiet_trans: "quiet u v \<Longrightarrow> quiet v w \<Longrightarrow> quiet u w"
  by (fastforce simp: quiet_def)

lemma quiet_sys: "\<not> is_send c \<Longrightarrow> quiet w (sys_do env c w)"
  by (simp add: quiet_def)

lemma quiet_sys_trans: "quiet u w \<Longrightarrow> \<not> is_send c \<Longrightarrow> quiet u (sys_do env c w)"
  using quiet_trans quiet_sys by blast

lemma quiet_nl:
  assumes "quiet w w'"
  shows "g_fd w' = g_fd w" "g_portid w' = g_portid w" "g_next_handle w' = g_next_handle w" "nl.more w' = nl.more w"
  using assms by (cases w; cases w'; simp add: quiet_def)+

lemma udp_open_quiet: "udp_open env adr len w = (fd, w') \<Longrightarrow> quiet w w'"
  by (auto simp: udp_open_def sys_eq Let_def split: if_splits intro!: quiet_sys_trans)

section \<open>Cleaning up\<close>

text \<open>Every descriptor that is open is closed, the tables are deleted, and nothing is left open.\<close>

definition open_fds :: "int list \<Rightarrow> int list" where
  "open_fds = filter (\<lambda>fd. 0 \<le> fd)"

lemma close_udp_calls:
  assumes "close_udp env is d w = (d', w')" and "distinct is"
  shows "trace w' = trace w @ map Close (open_fds (map ((!) (udp_fds d)) is)) \<and> os.more w' = os.more w
    \<and> d' = d\<lparr>udp_fds := udp_fds d'\<rparr> \<and> length (udp_fds d') = length (udp_fds d)
    \<and> (\<forall>j < length (udp_fds d). udp_fds d' ! j = (if j \<in> set is \<and> 0 \<le> udp_fds d ! j then -1 else udp_fds d ! j))"
  using assms
proof (induction "is" arbitrary: d w)
  case (Cons i "is")
  define d1 where "d1 = (if 0 \<le> udp_fds d ! i then d\<lparr>udp_fds := (udp_fds d)[i := -1]\<rparr> else d)"
  define w1 where "w1 = (if 0 \<le> udp_fds d ! i then sys_do env (Close (udp_fds d ! i)) w else w)"
  have rec: "close_udp env is d1 w1 = (d', w')" using Cons.prems(1) by (simp add: d1_def w1_def split: if_splits)
  have same: "map ((!) (udp_fds d1)) is = map ((!) (udp_fds d)) is"
    using Cons.prems(2) by (intro map_cong refl) (auto simp: d1_def intro!: nth_list_update_neq)
  have tr: "trace w1 = trace w @ (if 0 \<le> udp_fds d ! i then [Close (udp_fds d ! i)] else [])" "os.more w1 = os.more w"
    by (simp_all add: w1_def)
  have d1: "d1\<lparr>udp_fds := x\<rparr> = d\<lparr>udp_fds := x\<rparr>" "length (udp_fds d1) = length (udp_fds d)" for x by (simp_all add: d1_def)
  have pt: "udp_fds d1 ! j = (if j = i \<and> 0 \<le> udp_fds d ! j then -1 else udp_fds d ! j)" if "j < length (udp_fds d)" for j
    using that by (auto simp: d1_def nth_list_update)
  note IH = Cons.IH [OF rec, simplified same tr d1]
  show ?case using IH Cons.prems(2) by (auto simp: open_fds_def pt)
qed (simp add: open_fds_def)

definition cleanup_closes :: "daemon \<Rightarrow> int list" where
  "cleanup_closes d = open_fds (signal_fd d # epoll_fd d # take (num_udp_fds d) (udp_fds d))"

lemma close_fd_trace [simp]: "trace (close_fd env fd w) = trace w @ map Close (open_fds [fd])" "os.more (close_fd env fd w) = os.more w"
  by (simp_all add: close_fd_def open_fds_def)

lemma cleanup_calls:
  assumes "daemon_cleanup env d w = Some (d', w')" and "num_udp_fds d \<le> length (udp_fds d)"
  shows "\<exists>cs. trace w' = trace w @ map Close (cleanup_closes d) @ cs @ (if foreground (d_cfg d) then [] else [Closelog])
      \<and> (if g_fd w < 0 then cs = [] else \<exists>ds. cs = ds @ [Close (g_fd w)] \<and> talk (g_fd w) cleanup_msgs ds)"
    and "g_fd w' < 0" and "signal_fd d' < 0" and "epoll_fd d' < 0" and "num_udp_fds d' = 0" and "open_rules d' = []"
proof -
  define w1 where "w1 = close_fd env (epoll_fd d) (close_fd env (signal_fd d) w)"
  define d1 where "d1 = d\<lparr>signal_fd := min (signal_fd d) (-1), epoll_fd := min (epoll_fd d) (-1)\<rparr>"
  obtain d2 w2 where c: "close_udp env [0..<num_udp_fds d] d1 w1 = (d2, w2)" by (cases "close_udp env [0..<num_udp_fds d] d1 w1")
  have "map ((!) (udp_fds d1)) [0..<num_udp_fds d] = take (num_udp_fds d) (udp_fds d)"
    using assms(2) by (simp add: d1_def list_eq_iff_nth_eq)
  with close_udp_calls [OF c] have c2: "trace w2 = trace w1 @ map Close (open_fds (take (num_udp_fds d) (udp_fds d)))"
    "os.more w2 = os.more w1" "d2 = d1\<lparr>udp_fds := udp_fds d2\<rparr>" by simp_all
  have fields: "signal_fd d2 < 0" "epoll_fd d2 < 0" "d_cfg d2 = d_cfg d"
    by (subst c2(3), simp add: d1_def)+
  have cl: "daemon_cleanup env d w = (let (d, w) = close_udp env [0..<num_udp_fds d] d1 w1;
        d = d\<lparr>num_udp_fds := 0, rules := zero_rules, num_rules := 0\<rparr>
      in do { w \<leftarrow> netlink_cleanup env w; Some (d, if foreground (d_cfg d) then w else sys_do env Closelog w) })"
    unfolding daemon_cleanup_def Let_def d1_def w1_def
    by (cases "0 \<le> signal_fd d"; cases "0 \<le> epoll_fd d"; simp add: min_def)
  obtain w3 where w3: "netlink_cleanup env w2 = Some w3"
    and d': "d' = d2\<lparr>num_udp_fds := 0, rules := zero_rules, num_rules := 0\<rparr>"
    and w': "w' = (if foreground (d_cfg d) then w3 else sys_do env Closelog w3)"
    using assms(1) unfolding cl c Let_def prod.case by (auto simp: fields(3) bind_eq_Some_conv)
  have g: "g_fd w2 = g_fd w"
    using c2(2) by (cases w; cases w1; cases w2) (auto simp: w1_def close_fd_def sys_do_eq split: if_splits)
  have tr2: "trace w2 = trace w @ map Close (cleanup_closes d)"
    by (simp add: c2(1) w1_def cleanup_closes_def open_fds_def)
  note n = netlink_cleanup_calls [OF w3, unfolded g]
  show "g_fd w' < 0" using n g by (auto simp: w' split: if_splits)
  show "\<exists>cs. trace w' = trace w @ map Close (cleanup_closes d) @ cs @ (if foreground (d_cfg d) then [] else [Closelog])
      \<and> (if g_fd w < 0 then cs = [] else \<exists>ds. cs = ds @ [Close (g_fd w)] \<and> talk (g_fd w) cleanup_msgs ds)"
  proof (cases "g_fd w < 0")
    case True
    then show ?thesis using n by (simp add: w' tr2)
  next
    case False
    then obtain ds where "trace w3 = trace w2 @ ds @ [Close (g_fd w)]" "talk (g_fd w) cleanup_msgs ds" using n by auto
    then show ?thesis using False by (intro exI [of _ "ds @ [Close (g_fd w)]"]) (simp add: w' tr2)
  qed
  show "signal_fd d' < 0" "epoll_fd d' < 0" "num_udp_fds d' = 0" "open_rules d' = []"
    using fields by (auto simp: d' open_rules_def zero_rules_def zero_rule_def)
qed

lemma cleanup_returns:
  assumes "finitely_many_replies env n"
  shows "\<exists>d' w'. daemon_cleanup env d w = Some (d', w')"
proof -
  have ret: "\<exists>w'. netlink_cleanup env v = Some w'" for v :: "'a nl_scheme" by (rule netlink_cleanup_returns [OF assms])
  have all: "\<exists>d' w'. do { w \<leftarrow> netlink_cleanup env v; Some (a, f w) } = Some (d', w')" for v a and f :: "'a nl_scheme \<Rightarrow> 'a nl_scheme"
    using ret [of v] by auto
  show ?thesis unfolding daemon_cleanup_def Let_def split_beta by (rule all)
qed

section \<open>Setting up\<close>

text \<open>What the firewall is told: the tables anew, no allowed address, then the three rules.\<close>

definition setup_msgs :: "config \<Rightarrow> fw_msg list" where
  "setup_msgs cfg = init_msgs @ map (Flush ALLOWED_NAME) fam @ map (\<lambda>f. Established f (iface_arg cfg)) fam
     @ map Jump fam @ map (\<lambda>f. Drop_port f (target_port cfg) (iface_arg cfg)) fam"

lemma setup_fail_result: "setup_fail env msg d cfg w = Some (r, d', w') \<Longrightarrow>
    r = -1 \<and> daemon_cleanup env d (log_msg env cfg LOG_ERR msg w) = Some (d', w')"
  by (auto simp: setup_fail_def bind_eq_Some_conv)

lemma setup_fail_not_ok [simp]: "setup_fail env msg d cfg w \<noteq> Some (0, x)"
  by (cases x) (auto dest: setup_fail_result)

lemma setup_step_success:
  assumes "setup_step env msg d cfg m k = Some (0, x)"
  obtains w1 where "m = Some (0, w1)" and "k w1 = Some (0, x)"
proof -
  obtain r w1 where m: "m = Some (r, w1)" "(if r \<noteq> 0 then setup_fail env msg d cfg w1 else k w1) = Some (0, x)"
    using assms unfolding setup_step_def by (cases m) auto
  then have "r = 0" by (cases x) (auto dest: setup_fail_result split: if_splits)
  then show thesis using m that by simp
qed

lemma setup_netlink_success:
  assumes "daemon_setup_netlink env d cfg w = Some (0, d', w')" and "config_ok cfg"
  shows "d' = d" and "0 \<le> g_fd w'" and "g_next_handle w' = 12" and "nl.more w' = nl.more w"
    and "\<exists>cs. trace w' = trace w @ [Socket AF_NETLINK SOCK_RAW_CLOEXEC NETLINK_NETFILTER, Bind (g_fd w') nl_addr, Getsockname (g_fd w')] @ cs
      \<and> talk (g_fd w') (setup_msgs cfg) cs"
proof -
  obtain w1 where i: "netlink_init env w = Some (0, w1)" and k0: "do {
       (r, w) \<leftarrow> netlink_flush_chain env w1;
       let w = (if r \<noteq> 0 then log_msg env cfg LOG_WARNING ''netlink_flush_chain failed'' w else w);
       setup_step env ''netlink_add_established_rule failed'' d cfg (netlink_add_established_rule env (iface_arg cfg) w) (\<lambda>w.
       setup_step env ''netlink_add_jump_allowed failed'' d cfg (netlink_add_jump_allowed env w) (\<lambda>w.
       setup_step env ''netlink_add_default_drop failed'' d cfg (netlink_add_default_drop env (target_port cfg) (iface_arg cfg) w)
         (\<lambda>w. Some (0, d, w)))) } = Some (0, d', w')"
    using assms(1) unfolding daemon_setup_netlink_def by (rule setup_step_success)
  obtain r w2 where f: "netlink_flush_chain env w1 = Some (r, w2)" using k0 by (cases "netlink_flush_chain env w1") auto
  have fl: "r = 0 \<and> talks (map (Flush ALLOWED_NAME) fam) w1 w2 \<and> g_next_handle w2 = g_next_handle w1"
    using flush_talks f by (simp add: netlink_flush_chain_def)
  have k: "setup_step env ''netlink_add_established_rule failed'' d cfg (netlink_add_established_rule env (iface_arg cfg) w2) (\<lambda>w.
       setup_step env ''netlink_add_jump_allowed failed'' d cfg (netlink_add_jump_allowed env w) (\<lambda>w.
       setup_step env ''netlink_add_default_drop failed'' d cfg (netlink_add_default_drop env (target_port cfg) (iface_arg cfg) w)
         (\<lambda>w. Some (0, d, w)))) = Some (0, d', w')"
    using k0 f fl by simp
  obtain w3 w4 where e: "established_loop env (iface_arg cfg) fam w2 = Some (0, w3)" and j: "jump_loop env fam w3 = Some (0, w4)"
    and dr: "drop_loop env (target_port cfg) (iface_arg cfg) fam w4 = Some (0, w')" and d: "d' = d"
    using k unfolding netlink_add_established_rule_def netlink_add_jump_allowed_def netlink_add_default_drop_def
    by (elim setup_step_success) auto
  have ok: "iface_ok (iface_arg cfg)" using iface_arg_ok [OF assms(2)] by simp
  have fam2: "length fam = 2" by (simp add: fam_def)
  have t3: "talks (map (\<lambda>f. Established f (iface_arg cfg)) fam) w2 w3" "g_next_handle w3 = g_next_handle w2 + 2"
    using established.loop_talks [OF e ok] fam2 by auto
  have t4: "talks (map Jump fam) w3 w4" "g_next_handle w4 = g_next_handle w3 + 2"
    using jump.loop_talks [OF j] fam2 by auto
  have t5: "talks (map (\<lambda>f. Drop_port f (target_port cfg) (iface_arg cfg)) fam) w4 w'" "g_next_handle w' = g_next_handle w4 + 2"
    using drop_rules.loop_talks [OF dr ok] fam2 by auto
  from talks_trans [OF conjunct1 [OF conjunct2 [OF fl]] talks_trans [OF t3(1) talks_trans [OF t4(1) t5(1)]]]
  have t: "talks (map (Flush ALLOWED_NAME) fam @ map (\<lambda>f. Established f (iface_arg cfg)) fam
     @ map Jump fam @ map (\<lambda>f. Drop_port f (target_port cfg) (iface_arg cfg)) fam) w1 w'" .
  note ini = netlink_init_success [OF i]
  show "d' = d" by (fact d)
  show "0 \<le> g_fd w'" "nl.more w' = nl.more w" using t ini(2,4) by (simp_all add: talks_def)
  show "g_next_handle w' = 12" using ini(3) fl t3(2) t4(2) t5(2) by simp
  have g: "g_fd w' = g_fd w1" using t by (simp add: talks_def)
  obtain cs where cs: "trace w1 = trace w @ [Socket AF_NETLINK SOCK_RAW_CLOEXEC NETLINK_NETFILTER, Bind (g_fd w') nl_addr, Getsockname (g_fd w')] @ cs"
    "talk (g_fd w') init_msgs cs" using ini(1) g by auto
  obtain ds where ds: "trace w' = trace w1 @ ds" "talk (g_fd w') (map (Flush ALLOWED_NAME) fam @ map (\<lambda>f. Established f (iface_arg cfg)) fam
     @ map Jump fam @ map (\<lambda>f. Drop_port f (target_port cfg) (iface_arg cfg)) fam) ds"
    using t g by (auto simp: talks_def)
  show "\<exists>cs. trace w' = trace w @ [Socket AF_NETLINK SOCK_RAW_CLOEXEC NETLINK_NETFILTER, Bind (g_fd w') nl_addr, Getsockname (g_fd w')] @ cs
      \<and> talk (g_fd w') (setup_msgs cfg) cs"
    using cs(1) ds(1) talk_append [OF cs(2) ds(2)] by (intro exI [of _ "cs @ ds"]) (simp add: setup_msgs_def)
qed

text \<open>A socket of the daemon: handed out by the system, bound to a configured address and polled.\<close>

definition listening :: "env \<Rightarrow> config \<Rightarrow> syscall list \<Rightarrow> nat \<Rightarrow> int \<Rightarrow> bool" where
  "listening env cfg tr i fd \<longleftrightarrow> 0 \<le> fd \<and> (\<exists>pre f t p. prefix (pre @ [Socket f t p]) tr \<and> fd = ret (env pre (Socket f t p)))
     \<and> Bind fd (take (la_addrlen (ports cfg ! i)) (la_addr (ports cfg ! i))) \<in> set tr
     \<and> (\<exists>e. Epoll_add e fd (EPOLLIN OR EPOLLET) \<in> set tr)"

lemma listening_mono: "listening env cfg tr i fd \<Longrightarrow> listening env cfg (tr @ cs) i fd"
  unfolding listening_def set_append by (blast intro: prefix_prefix)

lemma udp_open_fd: "udp_open env adr len w = (fd, w') \<Longrightarrow> 0 \<le> fd \<Longrightarrow>
    (\<exists>pre f t p. prefix (pre @ [Socket f t p]) (trace w') \<and> fd = ret (env pre (Socket f t p)))
    \<and> Bind fd (take len adr) \<in> set (trace w')"
  by (auto simp: udp_open_def sys_eq Let_def intro!: exI [of _ "trace w"] split: if_splits)

lemma open_ports_success:
  assumes "open_ports env is d cfg w = Some (0, d', w')" and "is = [num_udp_fds d..<n]" and "num_udp_fds d \<le> n"
    and "n \<le> length (udp_fds d)" and "\<forall>i < num_udp_fds d. listening env cfg (trace w) i (udp_fds d ! i)"
  shows "quiet w w' \<and> d' = d\<lparr>udp_fds := udp_fds d', num_udp_fds := n\<rparr> \<and> length (udp_fds d') = length (udp_fds d)
    \<and> (\<forall>i < n. listening env cfg (trace w') i (udp_fds d' ! i))"
  using assms
proof (induction "is" arbitrary: d w)
  case Nil
  then have "[num_udp_fds d..<n] = []" by simp
  then have "n \<le> num_udp_fds d" unfolding upt_eq_Nil_conv by auto
  with Nil.prems(3) have "n = num_udp_fds d" by simp
  then show ?case using Nil by simp
next
  case (Cons i "is")
  have i: "i = num_udp_fds d" "is = [Suc (num_udp_fds d)..<n]" "num_udp_fds d < n"
    using Cons.prems(2) [symmetric] unfolding upt_eq_Cons_conv by auto
  obtain fd w1 where u: "udp_open env (la_addr (ports cfg ! i)) (la_addrlen (ports cfg ! i)) w = (fd, w1)"
    by (cases "udp_open env (la_addr (ports cfg ! i)) (la_addrlen (ports cfg ! i)) w")
  define d1 where "d1 = d\<lparr>udp_fds := (udp_fds d)[i := fd], num_udp_fds := i + 1\<rparr>"
  define w2 where "w2 = sys_do env (Epoll_add (epoll_fd d) fd (EPOLLIN OR EPOLLET)) w1"
  have fd: "0 \<le> fd" and rec: "open_ports env is d1 cfg w2 = Some (0, d', w')"
    using Cons.prems(1) by (auto simp: u Let_def sys_eq d1_def w2_def split: if_splits)
  have q: "quiet w w2" using udp_open_quiet [OF u] by (simp add: w2_def quiet_sys_trans)
  then obtain cs where cs: "trace w2 = trace w @ cs" by (auto simp: quiet_def)
  have "listening env cfg (trace w2) i fd"
    using udp_open_fd [OF u fd] fd unfolding listening_def w2_def
    by (auto intro: prefix_prefix intro!: exI [of _ "epoll_fd d"])
  then have l: "\<forall>j < num_udp_fds d1. listening env cfg (trace w2) j (udp_fds d1 ! j)"
    using Cons.prems(4,5) i listening_mono cs by (auto simp: d1_def nth_list_update less_Suc_eq)
  have "quiet w2 w' \<and> d' = d1\<lparr>udp_fds := udp_fds d', num_udp_fds := n\<rparr> \<and> length (udp_fds d') = length (udp_fds d1)
    \<and> (\<forall>i < n. listening env cfg (trace w') i (udp_fds d' ! i))"
    using Cons.prems(4) i l by (intro Cons.IH [OF rec]) (auto simp: d1_def)
  with q show ?case using quiet_trans by (auto simp: d1_def)
qed

lemma setup_epoll_success:
  assumes "daemon_setup_epoll env d cfg w = Some (0, d', w')" and "config_ok cfg" and "length (udp_fds d) = 8" and "num_udp_fds d = 0"
  shows "quiet w w'" and "0 \<le> epoll_fd d'" and "0 \<le> signal_fd d'" and "num_udp_fds d' = num_ports cfg"
    and "length (udp_fds d') = 8" and "\<forall>i < num_ports cfg. listening env cfg (trace w') i (udp_fds d' ! i)"
    and "d_cfg d' = d_cfg d" and "rules d' = rules d" and "num_rules d' = num_rules d" and "maxevents d' = maxevents d"
    and "\<exists>pre. signal_fd d' = ret (env pre Signalfd)" and "last_prune d' = last_prune d"
proof -
  define d1 where "d1 = d\<lparr>epoll_fd := ret (env (trace w) Epoll_create)\<rparr>"
  define w1 where "w1 = sys_do env Epoll_create w"
  obtain r d2 w2 where e: "0 \<le> epoll_fd d1" and o: "open_ports env [0..<num_ports cfg] d1 cfg w1 = Some (r, d2, w2)"
    and k: "(if r \<noteq> 0 then Some (-1, d2, w2)
        else
          let w = sys_do env Block_signals w2;
              (r, w) = sys env Signalfd w;
              d = d2\<lparr>signal_fd := ret r\<rparr> in
          if signal_fd d < 0 then setup_fail env ''signalfd failed'' d cfg w
          else
            let (r, w) = sys env (Epoll_add (epoll_fd d) (signal_fd d) EPOLLIN) w in
            if ret r \<noteq> 0 then setup_fail env ''epoll_ctl ADD signalfd failed'' d cfg w
            else Some (0, d, w)) = Some (0, d', w')"
    using assms(1) unfolding daemon_setup_epoll_def sys_eq Let_def prod.case d1_def [symmetric] w1_def [symmetric]
    by (cases "open_ports env [0..<num_ports cfg] d1 cfg w1") (auto split: if_splits)
  have r: "r = 0" using k by (auto split: if_splits)
  have n: "num_udp_fds d1 = 0" "length (udp_fds d1) = 8" "num_ports cfg \<le> 8" using assms(2-4) by (simp_all add: d1_def config_ok_def)
  have p: "quiet w1 w2 \<and> d2 = d1\<lparr>udp_fds := udp_fds d2, num_udp_fds := num_ports cfg\<rparr> \<and> length (udp_fds d2) = length (udp_fds d1)
    \<and> (\<forall>i < num_ports cfg. listening env cfg (trace w2) i (udp_fds d2 ! i))"
    using o r n by (intro open_ports_success) simp_all
  define fd where "fd = ret (env (trace w2 @ [Block_signals]) Signalfd)"
  have s: "0 \<le> fd" "d' = d2\<lparr>signal_fd := fd\<rparr>"
    "w' = sys_do env (Epoll_add (epoll_fd d2) fd EPOLLIN) (sys_do env Signalfd (sys_do env Block_signals w2))"
    using k unfolding r by (auto simp: sys_eq Let_def fd_def split: if_splits)
  have d': "d' = d1\<lparr>udp_fds := udp_fds d2, num_udp_fds := num_ports cfg, signal_fd := fd\<rparr>"
    unfolding s(2) by (subst conjunct1 [OF conjunct2 [OF p]]) simp
  have "quiet w w2" using p quiet_sys [of Epoll_create w env] quiet_trans by (auto simp: w1_def)
  then show "quiet w w'" by (simp add: s(3) quiet_sys_trans)
  show "0 \<le> epoll_fd d'" "0 \<le> signal_fd d'" "num_udp_fds d' = num_ports cfg"
    "length (udp_fds d') = 8"
    "d_cfg d' = d_cfg d" "rules d' = rules d" "num_rules d' = num_rules d" "maxevents d' = maxevents d" "last_prune d' = last_prune d"
    using e s(1) conjunct2 [OF conjunct2 [OF p]] n(2) unfolding d' by (simp_all add: d1_def)
  have "trace w' = trace w2 @ [Block_signals, Signalfd, Epoll_add (epoll_fd d2) fd EPOLLIN]" by (simp add: s(3))
  then show "\<forall>i < num_ports cfg. listening env cfg (trace w') i (udp_fds d' ! i)"
    using conjunct2 [OF conjunct2 [OF p]] listening_mono unfolding d' by simp
  show "\<exists>pre. signal_fd d' = ret (env pre Signalfd)" unfolding s(2) fd_def by auto
qed

text \<open>
  After a successful set-up the daemon listens on every configured address, the firewall was told
  the rules before any of these sockets was opened, and the loop's invariant holds.
\<close>

lemma setup_success:
  assumes "daemon_setup env d cfg w = Some (0, d', w')" and "config_ok cfg"
  shows "\<exists>pre cs post. trace w' = trace w @ pre @ cs @ post \<and> talk (g_fd w') (setup_msgs cfg) cs \<and> sent_msgs pre = [] \<and> sent_msgs post = []
      \<and> (\<forall>fd a. Bind fd a \<in> set pre \<longrightarrow> a = nl_addr)"
    and "d_cfg d' = cfg" and "open_rules d' = []" and "rules_ok d'" and "0 \<le> g_fd w'" and "0 \<le> epoll_fd d'" and "0 \<le> signal_fd d'"
    and "num_udp_fds d' = num_ports cfg" and "length (udp_fds d') = 8"
    and "\<forall>i < num_ports cfg. listening env cfg (trace w') i (udp_fds d' ! i)"
    and "0 \<le> maxevents d' \<and> maxevents d' \<le> 64" and "nl.more w' = nl.more w" and "g_next_handle w' = 12"
    and "\<exists>pre. signal_fd d' = ret (env pre Signalfd)" and "last_prune d' = ret (env (trace w) Clock_monotonic)"
proof -
  define lim where "lim = env (trace (sys_do env Clock_monotonic w)) Getrlimit_nofile"
  define d1 where "d1 = d\<lparr>d_cfg := cfg, udp_fds := replicate MAX_PORTS (-1), num_udp_fds := 0, epoll_fd := -1, signal_fd := -1,
     last_prune := ret (env (trace w) Clock_monotonic), rules := zero_rules, num_rules := 0,
     maxevents := if ret lim = 0 \<and> rd64 0 (data lim) < word_of_int EPOLL_MAXEVENTS then uint (rd64 0 (data lim)) else EPOLL_MAXEVENTS\<rparr>"
  define w1 where "w1 = (if foreground cfg then sys_do env Getrlimit_nofile (sys_do env Clock_monotonic w)
     else sys_do env Openlog (sys_do env Getrlimit_nofile (sys_do env Clock_monotonic w)))"
  obtain w2 where nl: "daemon_setup_netlink env d1 cfg w1 = Some (0, d1, w2)" and ep: "daemon_setup_epoll env d1 cfg w2 = Some (0, d', w')"
  proof -
    obtain r d2 w2 where a: "daemon_setup_netlink env d1 cfg w1 = Some (r, d2, w2)"
      and b: "(if r \<noteq> 0 then Some (-1 :: int, d2, w2) else do {
             (r, d, w) \<leftarrow> daemon_setup_epoll env d2 cfg w2;
             if r \<noteq> 0 then Some (-1, d, w) else Some (0, d, w) }) = Some (0, d', w')"
      using assms(1) unfolding daemon_setup_def sys_eq Let_def prod.case lim_def [symmetric] d1_def [symmetric] w1_def [symmetric]
      by (cases "daemon_setup_netlink env d1 cfg w1") auto
    have r: "r = 0" using b by (auto split: if_splits)
    have c: "daemon_setup_epoll env d2 cfg w2 = Some (0, d', w')"
      using b r by (cases "daemon_setup_epoll env d2 cfg w2") (auto split: if_splits)
    show thesis using that a c r setup_netlink_success(1) [OF _ assms(2)] by blast
  qed
  note n = setup_netlink_success [OF nl assms(2)]
  have l: "length (udp_fds d1) = 8" "num_udp_fds d1 = 0" by (simp_all add: d1_def MAX_PORTS_def)
  note e = setup_epoll_success [OF ep assms(2) l]
  note q = quiet_nl [OF e(1)]
  obtain cs where cs: "trace w2 = trace w1 @ [Socket AF_NETLINK SOCK_RAW_CLOEXEC NETLINK_NETFILTER, Bind (g_fd w2) nl_addr, Getsockname (g_fd w2)] @ cs"
    "talk (g_fd w2) (setup_msgs cfg) cs" using n(5) by blast
  obtain post where post: "trace w' = trace w2 @ post" "sent_msgs post = []" using e(1) by (auto simp: quiet_def)
  define pre where "pre = [Clock_monotonic, Getrlimit_nofile] @ (if foreground cfg then [] else [Openlog])
     @ [Socket AF_NETLINK SOCK_RAW_CLOEXEC NETLINK_NETFILTER, Bind (g_fd w2) nl_addr, Getsockname (g_fd w2)]"
  have "trace w' = trace w @ pre @ cs @ post" by (simp add: post(1) cs(1) pre_def w1_def)
  moreover have "sent_msgs pre = []" "\<forall>fd a. Bind fd a \<in> set pre \<longrightarrow> a = nl_addr" by (auto simp: pre_def)
  ultimately show "\<exists>pre cs post. trace w' = trace w @ pre @ cs @ post \<and> talk (g_fd w') (setup_msgs cfg) cs \<and> sent_msgs pre = [] \<and> sent_msgs post = []
      \<and> (\<forall>fd a. Bind fd a \<in> set pre \<longrightarrow> a = nl_addr)"
    using cs(2) post(2) q(1) by (intro exI [of _ pre] exI [of _ cs] exI [of _ post]) simp
  have z: "length zero_rules = 256" "\<And>i. i < 256 \<Longrightarrow> \<not> dr_active (zero_rules ! i)" "filter dr_active zero_rules = []"
    by (simp_all add: zero_rules_def zero_rule_def MAX_DYNAMIC_RULES_def)
  show "d_cfg d' = cfg" "open_rules d' = []" "rules_ok d'"
    using e(7-9) z by (simp_all add: d1_def open_rules_def rules_ok_def)
  show "0 \<le> g_fd w'" "nl.more w' = nl.more w" "g_next_handle w' = 12"
    using n(2-4) q by (simp_all add: w1_def)
  show "last_prune d' = ret (env (trace w) Clock_monotonic)" using e(12) by (simp add: d1_def)
  show "0 \<le> epoll_fd d'" "0 \<le> signal_fd d'" "num_udp_fds d' = num_ports cfg" "length (udp_fds d') = 8"
    "\<forall>i < num_ports cfg. listening env cfg (trace w') i (udp_fds d' ! i)" "\<exists>pre. signal_fd d' = ret (env pre Signalfd)"
    using e by blast+
  have "maxevents d' = (if ret lim = 0 \<and> rd64 0 (data lim) < 64 then uint (rd64 0 (data lim)) else 64)"
    using e(10) by (simp add: d1_def EPOLL_MAXEVENTS_def)
  then show "0 \<le> maxevents d' \<and> maxevents d' \<le> 64"
    using word_less_def [of "rd64 0 (data lim)" 64] by auto
qed

section \<open>Failing\<close>

definition all_closed :: "daemon \<Rightarrow> 'a nl_scheme \<Rightarrow> bool" where
  "all_closed d w \<longleftrightarrow> g_fd w < 0 \<and> signal_fd d < 0 \<and> epoll_fd d < 0 \<and> num_udp_fds d = 0 \<and> open_rules d = []"

lemma cleanup_closed:
  assumes "daemon_cleanup env d w = Some (d', w')" and "num_udp_fds d \<le> length (udp_fds d)"
  shows "all_closed d' w'"
  using cleanup_calls [OF assms] by (simp add: all_closed_def)

lemma setup_fail_closed:
  assumes "setup_fail env msg d cfg w = Some (r, d', w')" and "num_udp_fds d \<le> length (udp_fds d)"
  shows "r = -1 \<and> all_closed d' w'"
  using setup_fail_result [OF assms(1)] cleanup_closed [OF _ assms(2)] by blast

lemma setup_step_failure:
  assumes "setup_step env msg d cfg m k = Some (r, d', w')" and "num_udp_fds d \<le> length (udp_fds d)"
  shows "r = -1 \<and> all_closed d' w' \<or> (\<exists>w1. k w1 = Some (r, d', w'))"
  using assms by (cases m) (auto simp: setup_step_def split: if_splits dest: setup_fail_closed)

lemma setup_netlink_failure:
  assumes "daemon_setup_netlink env d cfg w = Some (r, d', w')" and "num_udp_fds d \<le> length (udp_fds d)" and "r \<noteq> 0"
  shows "r = -1 \<and> all_closed d' w'"
proof (rule ccontr)
  assume neg: "\<not> ?thesis"
  from setup_step_failure [OF assms(1) [unfolded daemon_setup_netlink_def] assms(2)] neg obtain v where "do {
       (r, w) \<leftarrow> netlink_flush_chain env v;
       let w = (if r \<noteq> 0 then log_msg env cfg LOG_WARNING ''netlink_flush_chain failed'' w else w);
       setup_step env ''netlink_add_established_rule failed'' d cfg (netlink_add_established_rule env (iface_arg cfg) w) (\<lambda>w.
       setup_step env ''netlink_add_jump_allowed failed'' d cfg (netlink_add_jump_allowed env w) (\<lambda>w.
       setup_step env ''netlink_add_default_drop failed'' d cfg (netlink_add_default_drop env (target_port cfg) (iface_arg cfg) w)
         (\<lambda>w. Some (0, d, w)))) } = Some (r, d', w')" by blast
  then obtain m where "setup_step env ''netlink_add_established_rule failed'' d cfg m (\<lambda>w.
       setup_step env ''netlink_add_jump_allowed failed'' d cfg (netlink_add_jump_allowed env w) (\<lambda>w.
       setup_step env ''netlink_add_default_drop failed'' d cfg (netlink_add_default_drop env (target_port cfg) (iface_arg cfg) w)
         (\<lambda>w. Some (0, d, w)))) = Some (r, d', w')"
    by (cases "netlink_flush_chain env v") (auto simp: Let_def)
  from setup_step_failure [OF this assms(2)] neg obtain v where "setup_step env ''netlink_add_jump_allowed failed'' d cfg (netlink_add_jump_allowed env v) (\<lambda>w.
       setup_step env ''netlink_add_default_drop failed'' d cfg (netlink_add_default_drop env (target_port cfg) (iface_arg cfg) w)
         (\<lambda>w. Some (0, d, w))) = Some (r, d', w')" by blast
  from setup_step_failure [OF this assms(2)] neg obtain v where "setup_step env ''netlink_add_default_drop failed'' d cfg
      (netlink_add_default_drop env (target_port cfg) (iface_arg cfg) v) (\<lambda>w. Some (0, d, w)) = Some (r, d', w')" by blast
  from setup_step_failure [OF this assms(2)] neg show False using assms(3) by auto
qed

lemma open_ports_failure:
  assumes "open_ports env is d cfg w = Some (r, d', w')" and "num_udp_fds d \<le> length (udp_fds d)"
    and "\<forall>i \<in> set is. i < length (udp_fds d)"
  shows "r = -1 \<and> all_closed d' w' \<or> r = 0 \<and> num_udp_fds d' \<le> length (udp_fds d')"
  using assms
proof (induction "is" arbitrary: d w)
  case (Cons i "is")
  obtain fd w1 where u: "udp_open env (la_addr (ports cfg ! i)) (la_addrlen (ports cfg ! i)) w = (fd, w1)"
    by (cases "udp_open env (la_addr (ports cfg ! i)) (la_addrlen (ports cfg ! i)) w")
  define d0 where "d0 = d\<lparr>udp_fds := (udp_fds d)[i := fd]\<rparr>"
  define d1 where "d1 = d0\<lparr>num_udp_fds := i + 1\<rparr>"
  have ok: "num_udp_fds d0 \<le> length (udp_fds d0)" "num_udp_fds d1 \<le> length (udp_fds d1)" "\<forall>i \<in> set is. i < length (udp_fds d1)"
    using Cons.prems(2,3) by (auto simp: d0_def d1_def)
  consider v msg where "setup_fail env msg d0 cfg v = Some (r, d', w')" | v msg where "setup_fail env msg d1 cfg v = Some (r, d', w')"
    | v where "open_ports env is d1 cfg v = Some (r, d', w')"
    using Cons.prems(1) by (auto simp: u Let_def sys_eq d0_def d1_def split: if_splits)
  then show ?case
    using setup_fail_closed [OF _ ok(1)] setup_fail_closed [OF _ ok(2)] Cons.IH [OF _ ok(2,3)] by cases blast+
qed auto

lemma setup_epoll_failure:
  assumes "daemon_setup_epoll env d cfg w = Some (r, d', w')" and "r \<noteq> 0" and "config_ok cfg"
    and "length (udp_fds d) = 8" and "num_udp_fds d = 0"
  shows "r = -1 \<and> all_closed d' w'"
proof -
  define d1 where "d1 = d\<lparr>epoll_fd := ret (env (trace w) Epoll_create)\<rparr>"
  define w1 where "w1 = sys_do env Epoll_create w"
  have n: "num_udp_fds d1 \<le> length (udp_fds d1)" "\<forall>i \<in> set [0..<num_ports cfg]. i < length (udp_fds d1)"
    using assms(3-5) by (auto simp: d1_def config_ok_def)
  show ?thesis
  proof (cases "epoll_fd d1 < 0")
    case True
    then have "setup_fail env ''epoll_create1 failed'' d1 cfg w1 = Some (r, d', w')"
      using assms(1) unfolding daemon_setup_epoll_def sys_eq Let_def prod.case d1_def [symmetric] w1_def [symmetric] by simp
    then show ?thesis using setup_fail_closed n(1) by blast
  next
    case False
    then obtain q d2 w2 where o: "open_ports env [0..<num_ports cfg] d1 cfg w1 = Some (q, d2, w2)"
      and k: "(if q \<noteq> 0 then Some (-1, d2, w2)
          else
            let w = sys_do env Block_signals w2;
                (r, w) = sys env Signalfd w;
                d = d2\<lparr>signal_fd := ret r\<rparr> in
            if signal_fd d < 0 then setup_fail env ''signalfd failed'' d cfg w
            else
              let (r, w) = sys env (Epoll_add (epoll_fd d) (signal_fd d) EPOLLIN) w in
              if ret r \<noteq> 0 then setup_fail env ''epoll_ctl ADD signalfd failed'' d cfg w
              else Some (0, d, w)) = Some (r, d', w')"
      using assms(1) unfolding daemon_setup_epoll_def sys_eq Let_def prod.case d1_def [symmetric] w1_def [symmetric]
      by (cases "open_ports env [0..<num_ports cfg] d1 cfg w1") auto
    note p = open_ports_failure [OF o n]
    show ?thesis
    proof (cases "q = 0")
      case True
      then have "num_udp_fds (d2\<lparr>signal_fd := x\<rparr>) \<le> length (udp_fds (d2\<lparr>signal_fd := x\<rparr>))" for x using p by simp
      from setup_fail_closed [OF _ this]
      have cl: "setup_fail env msg (d2\<lparr>signal_fd := x\<rparr>) cfg v = Some (r, d', w') \<Longrightarrow> r = -1 \<and> all_closed d' w'"
        for x msg v .
      show ?thesis using k True assms(2) unfolding sys_eq Let_def prod.case by (auto split: if_splits dest: cl)
    qed (use k p in auto)
  qed
qed

lemma setup_failure:
  assumes "daemon_setup env d cfg w = Some (r, d', w')" and "r \<noteq> 0" and "config_ok cfg"
  shows "r = -1 \<and> all_closed d' w'"
proof -
  obtain d1 w1 where l: "length (udp_fds d1) = 8" "num_udp_fds d1 = 0"
    and b: "do {
        (r, d, w) \<leftarrow> daemon_setup_netlink env d1 cfg w1;
        if r \<noteq> 0 then Some (-1 :: int, d, w)
        else do {
          (r, d, w) \<leftarrow> daemon_setup_epoll env d cfg w;
          if r \<noteq> 0 then Some (-1, d, w) else Some (0, d, w)
        } } = Some (r, d', w')"
  proof
    show "length (udp_fds (d\<lparr>d_cfg := cfg, udp_fds := replicate MAX_PORTS (-1), num_udp_fds := 0, epoll_fd := -1, signal_fd := -1,
       last_prune := x, rules := zero_rules, num_rules := 0, maxevents := y\<rparr>)) = 8" for x y by (simp add: MAX_PORTS_def)
    show "num_udp_fds (d\<lparr>d_cfg := cfg, udp_fds := replicate MAX_PORTS (-1), num_udp_fds := 0, epoll_fd := -1, signal_fd := -1,
       last_prune := x, rules := zero_rules, num_rules := 0, maxevents := y\<rparr>) = 0" for x y by simp
  qed (use assms(1) in \<open>simp add: daemon_setup_def sys_eq Let_def\<close>)
  obtain q d2 w2 where a: "daemon_setup_netlink env d1 cfg w1 = Some (q, d2, w2)" using b by (cases "daemon_setup_netlink env d1 cfg w1") auto
  show ?thesis
  proof (cases "q = 0")
    case False
    then show ?thesis using setup_netlink_failure [OF a] l b a by auto
  next
    case True
    then have "d2 = d1" using setup_netlink_success(1) [OF _ assms(3)] a by blast
    then show ?thesis using b a True assms(2)
      by (cases "daemon_setup_epoll env d1 cfg w2") (auto split: if_splits dest: setup_epoll_failure [OF _ _ assms(3) l])
  qed
qed

section \<open>Returning\<close>

lemma setup_fail_returns: "finitely_many_replies env n \<Longrightarrow> \<exists>x. setup_fail env msg d cfg w = Some x"
  using cleanup_returns [of env n d "log_msg env cfg LOG_ERR msg w"] by (auto simp: setup_fail_def)

lemma setup_step_returns:
  assumes "finitely_many_replies env n" and "\<exists>q u. m = Some (q, u)" and "\<And>u. \<exists>x. k u = Some x"
  shows "\<exists>x. setup_step env msg d cfg m k = Some x"
  using assms(2) assms(3) setup_fail_returns [OF assms(1)] by (auto simp: setup_step_def)

lemma setup_netlink_returns:
  assumes "finitely_many_replies env n" and "config_ok cfg"
  shows "\<exists>x. daemon_setup_netlink env d cfg w = Some x"
proof -
  have ok: "iface_ok (iface_arg cfg)" using iface_arg_ok [OF assms(2)] by simp
  note steps = setup_step_returns [OF assms(1) netlink_init_returns [OF assms(1)]]
    setup_step_returns [OF assms(1) established.loop_returns [OF assms(1) ok]]
    setup_step_returns [OF assms(1) jump.loop_returns [OF assms(1) TrueI]]
    setup_step_returns [OF assms(1) drop_rules.loop_returns [OF assms(1) ok]]
  define rules where "rules v = setup_step env ''netlink_add_established_rule failed'' d cfg (netlink_add_established_rule env (iface_arg cfg) v) (\<lambda>w.
       setup_step env ''netlink_add_jump_allowed failed'' d cfg (netlink_add_jump_allowed env w) (\<lambda>w.
       setup_step env ''netlink_add_default_drop failed'' d cfg (netlink_add_default_drop env (target_port cfg) (iface_arg cfg) w)
         (\<lambda>w. Some (0, d, w))))" for v :: "'a nl_scheme"
  have r: "\<exists>x. rules v = Some x" for v
    unfolding rules_def netlink_add_established_rule_def netlink_add_jump_allowed_def netlink_add_default_drop_def by (intro steps) simp
  have "\<exists>x. do {
       (r, w) \<leftarrow> netlink_flush_chain env u;
       rules (if r \<noteq> 0 then log_msg env cfg LOG_WARNING ''netlink_flush_chain failed'' w else w) } = Some x" for u
  proof -
    obtain v where "netlink_flush_chain env u = Some (0, v)" using flush_returns [OF assms(1)] by blast
    then show ?thesis using r by simp
  qed
  then show ?thesis unfolding daemon_setup_netlink_def Let_def rules_def [symmetric] by (rule steps(1))
qed

lemma open_ports_returns:
  assumes "finitely_many_replies env n"
  shows "\<exists>x. open_ports env is d cfg w = Some x"
proof (induction "is" arbitrary: d w)
  case (Cons i "is")
  have "\<exists>x. setup_fail env msg e cfg v = Some x" for msg e and v :: "'a nl_scheme" by (rule setup_fail_returns [OF assms])
  then show ?case using Cons.IH by (simp add: Let_def split_beta sys_eq)
qed simp

lemma setup_epoll_returns:
  assumes "finitely_many_replies env n"
  shows "\<exists>x. daemon_setup_epoll env d cfg w = Some x"
proof -
  have f: "\<exists>x. setup_fail env msg e cfg v = Some x" for msg e and v :: "'a nl_scheme" by (rule setup_fail_returns [OF assms])
  define d1 where "d1 = d\<lparr>epoll_fd := ret (env (trace w) Epoll_create)\<rparr>"
  obtain q d2 w2 where o: "open_ports env [0..<num_ports cfg] d1 cfg (sys_do env Epoll_create w) = Some (q, d2, w2)"
    using open_ports_returns [OF assms] by (metis prod.exhaust)
  show ?thesis unfolding daemon_setup_epoll_def Let_def sys_eq prod.case d1_def [symmetric] o bind.bind_lunit using f by simp
qed

lemma setup_returns:
  assumes "finitely_many_replies env n" and "config_ok cfg"
  shows "\<exists>r d' w'. daemon_setup env d cfg w = Some (r, d', w')"
proof -
  have "\<exists>x. do {
      (r, d, w) \<leftarrow> daemon_setup_netlink env e cfg v;
      if r \<noteq> 0 then Some (-1 :: int, d, w)
      else do {
        (r, d, w) \<leftarrow> daemon_setup_epoll env d cfg w;
        if r \<noteq> 0 then Some (-1, d, w) else Some (0, d, w)
      } } = Some x" for e and v :: "'a nl_scheme"
  proof -
    obtain q d1 w1 where a: "daemon_setup_netlink env e cfg v = Some (q, d1, w1)"
      using setup_netlink_returns [OF assms] by (metis prod.exhaust)
    obtain p d2 w2 where "daemon_setup_epoll env d1 cfg w1 = Some (p, d2, w2)"
      using setup_epoll_returns [OF assms(1)] by (metis prod.exhaust)
    then show ?thesis by (simp add: a)
  qed
  then show ?thesis unfolding daemon_setup_def Let_def sys_eq prod.case by fastforce
qed

end
