(* ===== verification/Run.thy ===== *)
theory Run
  imports Lifecycle
begin

text \<open>
  The run of the daemon (\<open>daemon_run\<close> in \<^verbatim>\<open>src/main.c\<close>) from its configuration to its end.
  \<open>loop_entry\<close> relates the state before \<open>daemon_setup\<close> to the one in which the loop is entered, after
  the privileges are given up and the filter is installed; the invariant of the loop holds there.
\<close>

text \<open>The secret read from a file fits its buffer, so the configuration stays within its bounds.\<close>

lemma read_secret_file_ok:
  assumes "read_secret_file env path cfg w = (Some cfg', w')" and "config_ok cfg"
  shows "config_ok cfg' \<and> secret_len cfg' \<le> SECRET_SIZE \<and> cfg' = cfg\<lparr>cfg_secret := cfg_secret cfg', secret_len := secret_len cfg'\<rparr>"
proof -
  obtain buf out enc where "secret_decode (Some buf) 256 = Some (out, enc)"
    and cfg': "cfg' = cfg\<lparr>cfg_secret := poke 0 out (cfg_secret cfg), secret_len := length out\<rparr>"
    using assms(1) unfolding read_secret_file_def Let_def sys_eq prod.case SECRET_SIZE_def
    by (auto split: if_splits option.splits)
  then show ?thesis using assms(2) secret_decode_cap [of "Some buf" 256 out enc] by (simp add: cfg' config_ok_def SECRET_SIZE_def)
qed

lemma default_config_ok: "options_ok default_config"
  by (simp add: options_ok_def config_ok_def rate_cfg_ok_def default_config_def opt_consts ss_wf_def)

text \<open>The state in which the loop is entered: set up, privileges given up, filter installed.\<close>

definition loop_entry :: "env \<Rightarrow> target \<Rightarrow> daemon \<Rightarrow> config \<Rightarrow> world \<Rightarrow> daemon \<Rightarrow> world \<Rightarrow> bool" where
  "loop_entry env tgt d cfg w d1 w1 \<longleftrightarrow> (\<exists>u v r. daemon_setup env d cfg w = Some (0, d1, u)
     \<and> drop_privileges env (cfg_user cfg) (cfg_group cfg) (foreground cfg) u = (0, v)
     \<and> install_seccomp env tgt (foreground cfg) v = (r, w1))"

lemma drop_privileges_keeps:
  assumes "drop_privileges env user grp fg w = (r, w')"
  shows "extends w w'" and "os.more w' = os.more w"
proof -
  have "extends w w' \<and> os.more w' = os.more w"
  proof (cases "unprivileged env (trace w)")
    case True
    then show ?thesis using drop_privileges_unprivileged [OF True, of user grp fg] assms by (auto simp: extends_def)
  next
    case False
    then show ?thesis using drop_privileges_result(3,4) [OF assms] by blast
  qed
  then show "extends w w'" "os.more w' = os.more w" by auto
qed

lemma more_nl:
  assumes "os.more w' = os.more w"
  shows "g_fd w' = g_fd w" "nl.more w' = nl.more w" "g_next_handle w' = g_next_handle w"
  using assms by (cases w; cases w'; simp)+

lemma entry_state:
  assumes "loop_entry env tgt d cfg w d1 w1" and "config_ok cfg" and "tables_ok w"
  shows "loop_inv env d1 w1" and "d_cfg d1 = cfg" and "open_rules d1 = []" and "0 \<le> g_fd w1"
    and "num_udp_fds d1 = num_ports cfg" and "length (udp_fds d1) = 8" and "extends w w1"
    and "\<exists>pre c. trace w1 = pre @ [Set_seccomp_filter (seccomp_filter tgt), c]"
    and "\<forall>i < num_ports cfg. listening env cfg (trace w1) i (udp_fds d1 ! i)"
    and "\<exists>pre. signal_fd d1 = ret (env pre Signalfd)" and "g_next_handle w1 = 12" and "nl.more w1 = nl.more w"
    and "last_prune d1 = ret (env (trace w) Clock_monotonic)"
proof -
  obtain u v r where s: "daemon_setup env d cfg w = Some (0, d1, u)"
    and p: "drop_privileges env (cfg_user cfg) (cfg_group cfg) (foreground cfg) u = (0, v)"
    and i: "install_seccomp env tgt (foreground cfg) v = (r, w1)"
    using assms(1) by (auto simp: loop_entry_def)
  note su = setup_success [OF s assms(2)]
  have m: "os.more w1 = os.more u" using install_seccomp_calls(3) [OF i] drop_privileges_keeps(2) [OF p] by simp
  have tb: "tables_ok w1" using more_tables [of w1 w] more_nl(2) [OF m] su(12) assms(3) by (simp add: tables_ok_def)
  show "loop_inv env d1 w1" using su(2-4) tb assms(2) by (simp add: loop_inv_def all_open_def)
  show "d_cfg d1 = cfg" "open_rules d1 = []" "num_udp_fds d1 = num_ports cfg" "length (udp_fds d1) = 8"
    "last_prune d1 = ret (env (trace w) Clock_monotonic)" by (rule su)+
  show "0 \<le> g_fd w1" using su(5) more_nl(1) [OF m] by simp
  obtain c where c: "trace w1 = trace v @ [Set_seccomp_filter (seccomp_filter tgt), c]"
    using i unfolding install_seccomp_def apply_filter_def msg_fail_def msg_ok_def sys_eq Let_def prod.case
    by (auto split: if_splits)
  then show "\<exists>pre c. trace w1 = pre @ [Set_seccomp_filter (seccomp_filter tgt), c]" by blast
  obtain xs where "trace u = trace w @ xs" using su(1) by blast
  moreover obtain ys where "trace v = trace u @ ys" using drop_privileges_keeps(1) [OF p] by (auto simp: extends_def)
  ultimately show "extends w w1" using c by (simp add: extends_def)
  show "\<forall>i < num_ports cfg. listening env cfg (trace w1) i (udp_fds d1 ! i)"
    using su(10) drop_privileges_keeps(1) [OF p] c listening_mono by (auto simp: extends_def)
  show "\<exists>pre. signal_fd d1 = ret (env pre Signalfd)" "g_next_handle w1 = 12" "nl.more w1 = nl.more w"
    using su(12-14) more_nl [OF m] by auto
qed

lemma close_loop_call [simp]: "loop_call (Close fd)" "loop_call Closelog"
  by (simp_all add: loop_call_def)

lemma talk_loop_calls: "talk fd ms cs \<Longrightarrow> c \<in> set cs \<Longrightarrow> loop_call c"
  by (auto simp: talk_def loop_call_def)

lemma cleanup_loop_calls:
  assumes "daemon_cleanup env d w = Some (d', w')" and "num_udp_fds d \<le> length (udp_fds d)"
  shows "\<exists>cs. trace w' = trace w @ cs \<and> (\<forall>c \<in> set cs. loop_call c)"
proof -
  obtain cs where cs: "trace w' = trace w @ map Close (cleanup_closes d) @ cs @ (if foreground (d_cfg d) then [] else [Closelog])"
    "if g_fd w < 0 then cs = [] else \<exists>ds. cs = ds @ [Close (g_fd w)] \<and> talk (g_fd w) cleanup_msgs ds"
    using cleanup_calls(1) [OF assms] by blast
  have "loop_call c" if "c \<in> set cs" for c
    using cs(2) that talk_loop_calls by (fastforce split: if_splits)
  then show ?thesis using cs(1) by auto
qed

text \<open>
  A run that gets as far as the loop and returns: after the filter it makes only calls of the
  loop, and it ends with everything closed.
\<close>

lemma run_after_entry:
  assumes "loop_entry env tgt d cfg w d1 w1" and "config_ok cfg" and "tables_ok w" and "sys_ok env stk"
    and "daemon_run env tgt stk d cfg w = Some (r, w')"
  shows "r = 0" and "g_fd w' < 0" and "\<exists>cs. trace w' = trace w1 @ cs \<and> (\<forall>c \<in> set cs. loop_call c)"
proof -
  note e = entry_state [OF assms(1-3)]
  obtain d2 w2 d3 where l: "run_loop env stk cfg d1 w1 = Some (d2, w2)" and c: "daemon_cleanup env d2 w2 = Some (d3, w')" and r: "r = 0"
    using assms(1,5) by (auto simp: loop_entry_def daemon_run_def Let_def bind_eq_Some_conv)
  have a: "advance env d1 w1 d2 w2" by (rule run_loop_advance [OF l assms(4) e(1)])
  then have n: "num_udp_fds d2 \<le> length (udp_fds d2)" using e(5,6) assms(2) by (simp add: advance_def same_setup_def config_ok_def)
  obtain cs where cs: "trace w2 = trace w1 @ cs" "\<forall>c \<in> set cs. loop_call c"
    using a loop_ext_turn_calls unfolding advance_def loop_call_def by blast
  obtain ds where ds: "trace w' = trace w2 @ ds" "\<forall>c \<in> set ds. loop_call c" using cleanup_loop_calls [OF c n] by blast
  show "r = 0" by (fact r)
  show "g_fd w' < 0" by (rule cleanup_calls(2) [OF c n])
  show "\<exists>cs. trace w' = trace w1 @ cs \<and> (\<forall>c \<in> set cs. loop_call c)" using cs ds by (intro exI [of _ "cs @ ds"]) auto
qed

text \<open>However a run ends, the tables of the firewall are gone and its socket is closed.\<close>

lemma run_closed:
  assumes "daemon_run env tgt stk d cfg w = Some (r, w')" and "config_ok cfg" and "tables_ok w" and "sys_ok env stk"
  shows "g_fd w' < 0 \<and> (r = 0 \<or> r = 1)"
proof -
  obtain q d1 u where s: "daemon_setup env d cfg w = Some (q, d1, u)" using assms(1) by (auto simp: daemon_run_def bind_eq_Some_conv)
  show ?thesis
  proof (cases "q = 0")
    case False
    then show ?thesis using assms(1) s setup_failure [OF s False assms(2)] by (auto simp: daemon_run_def all_closed_def)
  next
    case True
    note su = setup_success [OF s [unfolded True] assms(2)]
    have n: "num_udp_fds d1 \<le> length (udp_fds d1)" using su(8,9) assms(2) by (simp add: config_ok_def)
    obtain p v where p: "drop_privileges env (cfg_user cfg) (cfg_group cfg) (foreground cfg) u = (p, v)" by (meson surj_pair)
    show ?thesis
    proof (cases "p = 0")
      case False
      then show ?thesis using assms(1) s True p cleanup_calls(2) [OF _ n] by (auto simp: daemon_run_def bind_eq_Some_conv)
    next
      case p0: True
      obtain i w1 where "install_seccomp env tgt (foreground cfg) v = (i, w1)" by (meson surj_pair)
      then have "loop_entry env tgt d cfg w d1 w1" using s True p p0 by (auto simp: loop_entry_def)
      from run_after_entry [OF this assms(2-4,1)] show ?thesis by simp
    qed
  qed
qed

end
