(* ===== verification/Granted.thy ===== *)
theory Granted
  imports Run
begin

text \<open>
  A system that grants what the daemon asks for: descriptors are handed out, datagrams to the
  firewall are taken whole and answered by no error. Under \<open>grants\<close> every operation of the firewall
  succeeds, the set-up succeeds and the loop is entered; nothing here is about when it does not.
\<close>

definition grants :: "env \<Rightarrow> bool" where
  "grants env \<longleftrightarrow> (\<forall>tr.
     (\<forall>f t p. 0 \<le> ret (env tr (Socket f t p))) \<and> (\<forall>fd a. ret (env tr (Bind fd a)) = 0) \<and> (\<forall>fd. ret (env tr (Getsockname fd)) = 0)
     \<and> (\<forall>fd b a. ret (env tr (Sendto fd b a)) = int (length b)) \<and> (\<forall>fd t. ret (env tr (Poll fd t)) = 0)
     \<and> (\<forall>fd. 0 \<le> ret (env tr (Fcntl_getfl fd))) \<and> (\<forall>fd fl. 0 \<le> ret (env tr (Fcntl_setfl fd fl)))
     \<and> 0 \<le> ret (env tr Epoll_create) \<and> (\<forall>e fd ev. ret (env tr (Epoll_add e fd ev)) = 0) \<and> 0 \<le> ret (env tr Signalfd)
     \<and> (\<forall>gs. ret (env tr (Setgroups gs)) = 0) \<and> (\<forall>g. ret (env tr (Setgid g)) = 0) \<and> (\<forall>u. ret (env tr (Setuid u)) = 0))"

lemma grants_replies: "grants env \<Longrightarrow> finitely_many_replies env 0"
  by (simp add: grants_def finitely_many_replies_def)

section \<open>The firewall\<close>

lemma send_batch_granted: "grants env \<Longrightarrow> \<exists>w'. send_batch env b w = Some (0, w')"
  by (simp add: grants_def send_batch_def sys_eq Let_def process_batch_replies.simps)

lemma send_command_granted: "grants env \<Longrightarrow> \<exists>w'. send_command env type flags f as w = Some (0, w')"
  unfolding send_command_def by (rule send_batch_granted)

lemma rule_insert_granted:
  assumes "grants env" and "ip_source src" and "iface_ok iface"
  shows "\<exists>w'. netlink_rule_insert env src port iface w = Some (g_next_handle w, w') \<and> talks [Accept src port iface] w w'
    \<and> g_next_handle w' = g_next_handle w + 1"
proof -
  have src: "ss_wf src" and fml: "ucast (ss_family src) = (ucast AF_INET :: byte) \<or> ucast (ss_family src) = (ucast AF_INET6 :: byte)"
    using assms(2) ip_source_family by (auto simp: ip_source_def)
  have i: "\<And>s. iface = Some s \<Longrightarrow> length s < 16" using assms(3) by (simp add: iface_ok_def)
  then have len: "\<And>s. iface = Some s \<Longrightarrow> length s < 1000" by fastforce
  have "length (enc_attrs (accept_rule src port iface)) \<le> 600" by (rule rules_fit(1)) (rule src i; assumption?)+
  then have small: "length (enc_attrs (accept_rule src port iface)) \<le> 4000" by linarith
  obtain w1 where s: "send_command env NFT_MSG_NEWRULE NEWRULE_FLAGS (ucast (ss_family src)) (accept_rule src port iface) w = Some (0, w1)"
    using send_command_granted [OF assms(1)] by blast
  have g: "g_next_handle w1 = g_next_handle w" using sent_fields(3) [OF conjunct1 [OF send_command_sent [OF s]]] .
  have ins: "netlink_rule_insert env src port iface w = Some (g_next_handle w, w1\<lparr>g_next_handle := g_next_handle w + 1\<rparr>)"
    using netlink_rule_insert_command [OF src len small fml, of env w] s g by simp
  from rule_insert_talks(1) [OF ins src assms(3) fml] show ?thesis using ins by simp
qed

context rule_family
begin

lemma loop_granted:
  assumes "grants env" and "fits"
  shows "\<exists>w'. loop fs w = Some (0, w')"
proof (induction fs arbitrary: w)
  case Nil
  then show ?case by (simp add: no_family)
next
  case (Cons f fs)
  obtain w1 where "send_command env NFT_MSG_NEWRULE NEWRULE_FLAGS f rule w = Some (0, w1)"
    using send_command_granted [OF assms(1)] by blast
  then show ?case using Cons.IH by (simp add: step [OF assms(2)] then_count_def)
qed

end

lemma netlink_init_granted:
  assumes "grants env"
  shows "\<exists>w'. netlink_init env w = Some (0, w')"
proof -
  have cf: "\<exists>w'. netlink_create_family_batch env f v = Some (0, w')" for f and v :: "'a nl_scheme"
    unfolding create_family_bytes by (rule send_batch_granted [OF assms])
  have dt: "\<exists>w'. netlink_delete_table env f v = Some w'" for f and v :: "'a nl_scheme"
    by (rule delete_table_returns [OF grants_replies [OF assms]])
  have "\<exists>y. do {
      w \<leftarrow> netlink_delete_table env (ucast AF_INET) v;
      w \<leftarrow> netlink_delete_table env (ucast AF_INET6) w;
      (r, w) \<leftarrow> netlink_create_family_batch env (ucast AF_INET) w;
      if r \<noteq> 0 then Some (-1, nl_close env w)
      else do {
        (r, w) \<leftarrow> netlink_create_family_batch env (ucast AF_INET6) w;
        if r \<noteq> 0 then Some (-1 :: int, nl_close env w) else Some (0, w\<lparr>g_next_handle := 6\<rparr>)
      }
    } = Some (0, y)" for v :: "'a nl_scheme"
  proof -
    obtain a where a: "netlink_delete_table env (ucast AF_INET) v = Some a" using dt by blast
    obtain b where b: "netlink_delete_table env (ucast AF_INET6) a = Some b" using dt by blast
    obtain c where c: "netlink_create_family_batch env (ucast AF_INET) b = Some (0, c)" using cf by blast
    obtain e where "netlink_create_family_batch env (ucast AF_INET6) c = Some (0, e)" using cf by blast
    then show ?thesis by (simp add: a b c)
  qed
  moreover have "0 \<le> ret (env tr (Socket f t p))" "ret (env tr (Bind fd ad)) = 0" "ret (env tr (Getsockname fd)) = 0" for tr f t p fd ad
    using assms by (simp_all add: grants_def)
  ultimately show ?thesis unfolding netlink_init_def Let_def sys_eq prod.case by (simp add: not_less [symmetric])
qed

section \<open>Set-up\<close>

lemma setup_step_granted: "m = Some (0, w1) \<Longrightarrow> setup_step env msg d cfg m k = k w1"
  by (simp add: setup_step_def)

lemma setup_netlink_granted:
  assumes "grants env" and "config_ok cfg"
  shows "\<exists>w'. daemon_setup_netlink env d cfg w = Some (0, d, w')"
proof -
  have ok: "iface_ok (iface_arg cfg)" using iface_arg_ok [OF assms(2)] by simp
  obtain a where a: "netlink_init env w = Some (0, a)" using netlink_init_granted [OF assms(1)] by blast
  obtain b where b: "netlink_flush_chain env a = Some (0, b)" using flush_returns [OF grants_replies [OF assms(1)]] by blast
  obtain c where c: "established_loop env (iface_arg cfg) fam b = Some (0, c)" using established.loop_granted [OF assms(1) ok] by blast
  obtain e where e: "jump_loop env fam c = Some (0, e)" using jump.loop_granted [OF assms(1)] by blast
  obtain g where g: "drop_loop env (target_port cfg) (iface_arg cfg) fam e = Some (0, g)" using drop_rules.loop_granted [OF assms(1) ok] by blast
  show ?thesis
    unfolding daemon_setup_netlink_def netlink_add_established_rule_def netlink_add_jump_allowed_def netlink_add_default_drop_def
    by (simp add: setup_step_granted [OF a] b setup_step_granted [OF c] setup_step_granted [OF e] setup_step_granted [OF g])
qed

lemma udp_open_granted: "grants env \<Longrightarrow> \<exists>fd w'. udp_open env adr len w = (fd, w') \<and> 0 \<le> fd"
  by (auto simp: udp_open_def grants_def sys_eq Let_def not_less [symmetric])

lemma open_ports_granted:
  assumes "grants env"
  shows "\<exists>d' w'. open_ports env is d cfg w = Some (0, d', w')"
proof (induction "is" arbitrary: d w)
  case (Cons i "is")
  obtain fd w1 where "udp_open env (la_addr (ports cfg ! i)) (la_addrlen (ports cfg ! i)) w = (fd, w1)" "0 \<le> fd"
    using udp_open_granted [OF assms] by blast
  moreover have "ret (env tr (Epoll_add e f ev)) = 0" for tr e f ev using assms by (simp add: grants_def)
  ultimately show ?case using Cons.IH by (simp add: sys_eq Let_def)
qed simp

lemma setup_granted:
  assumes "grants env" and "config_ok cfg"
  shows "\<exists>d' w'. daemon_setup env d cfg w = Some (0, d', w')"
proof -
  have nl: "\<exists>w'. daemon_setup_netlink env e cfg v = Some (0, e, w')" for e and v :: "'a nl_scheme"
    by (rule setup_netlink_granted [OF assms])
  have g: "0 \<le> ret (env tr Epoll_create)" "0 \<le> ret (env tr Signalfd)" "ret (env tr (Epoll_add e f ev)) = 0" for tr e f ev
    using assms(1) by (simp_all add: grants_def)
  have ep: "\<exists>d' w'. daemon_setup_epoll env e cfg v = Some (0, d', w')" for e and v :: "'a nl_scheme"
  proof -
    obtain d2 w2 where "open_ports env [0..<num_ports cfg] (e\<lparr>epoll_fd := ret (env (trace v) Epoll_create)\<rparr>) cfg (sys_do env Epoll_create v) = Some (0, d2, w2)"
      using open_ports_granted [OF assms(1)] by blast
    then show ?thesis by (simp add: daemon_setup_epoll_def sys_eq Let_def g not_less)
  qed
  have "\<exists>d' w'. do {
      (r, d, w) \<leftarrow> daemon_setup_netlink env e cfg v;
      if r \<noteq> 0 then Some (-1 :: int, d, w)
      else do {
        (r, d, w) \<leftarrow> daemon_setup_epoll env d cfg w;
        if r \<noteq> 0 then Some (-1, d, w) else Some (0, d, w)
      } } = Some (0, d', w')" for e and v :: "'a nl_scheme"
  proof -
    obtain w1 where a: "daemon_setup_netlink env e cfg v = Some (0, e, w1)" using nl by blast
    obtain d2 w2 where "daemon_setup_epoll env e cfg w1 = Some (0, d2, w2)" using ep by blast
    then show ?thesis by (simp add: a)
  qed
  then show ?thesis unfolding daemon_setup_def sys_eq Let_def prod.case .
qed

lemma drop_privileges_granted:
  assumes "grants env"
  shows "\<exists>w'. drop_privileges env user grp fg w = (0, w')"
proof -
  have g: "ret (env tr (Setgroups gs)) = 0" "ret (env tr (Setgid x)) = 0" "ret (env tr (Setuid x)) = 0" for tr gs x
    using assms by (simp_all add: grants_def)
  have ids: "\<exists>v. drop_ids env gid uid fg u = (0, v)" for gid uid and u :: "'a os_scheme"
    by (simp add: drop_ids_def drop_id_def sys_eq Let_def g)
  show ?thesis
  proof (cases "unprivileged env (trace w)")
    case True
    from drop_privileges_unprivileged [OF True] show ?thesis by blast
  next
    case False
    then obtain w1 uid gid where eq: "drop_privileges env user grp fg w =
        (let (r, w) = drop_ids env gid uid fg w1 in if r \<noteq> 0 then (-1, w) else (0, finish_drop env fg w))"
      by (rule drop_privileges_privileged)
    obtain v where "drop_ids env gid uid fg w1 = (0, v)" using ids by blast
    then show ?thesis by (simp add: eq)
  qed
qed

lemma entry_granted:
  assumes "grants env" and "config_ok cfg"
  shows "\<exists>d1 w1. loop_entry env tgt d cfg w d1 w1"
proof -
  obtain d1 u where "daemon_setup env d cfg w = Some (0, d1, u)" using setup_granted [OF assms] by blast
  moreover obtain v where "drop_privileges env (cfg_user cfg) (cfg_group cfg) (foreground cfg) u = (0, v)"
    using drop_privileges_granted [OF assms(1)] by blast
  moreover obtain r w1 where "install_seccomp env tgt (foreground cfg) v = (r, w1)" by (meson surj_pair)
  ultimately show ?thesis unfolding loop_entry_def by blast
qed

text \<open>In test mode the loop makes one turn, so the whole run returns.\<close>

lemma test_run_granted:
  assumes "grants env" and "config_ok cfg" and "tables_ok w" and "sys_ok env stk" and "drains env m" and "test_mode cfg"
  shows "\<exists>w'. daemon_run env tgt stk d cfg w = Some (0, w')"
proof -
  obtain d1 u v w1 r where su: "daemon_setup env d cfg w = Some (0, d1, u)"
    and p: "drop_privileges env (cfg_user cfg) (cfg_group cfg) (foreground cfg) u = (0, v)"
    and i: "install_seccomp env tgt (foreground cfg) v = (r, w1)" and e: "loop_entry env tgt d cfg w d1 w1"
    using entry_granted [OF assms(1,2)] unfolding loop_entry_def by blast
  obtain q d2 w2 where t: "daemon_process env stk d1 w1 = Some (q, d2, w2)"
    using process_returns [OF grants_replies [OF assms(1)] assms(5,4) entry_state(1) [OF e assms(2,3)]] by blast
  have "run_loop env stk cfg d1 w1 = Some (d2, w2)" by (subst run_loop.simps) (simp add: t assms(6))
  moreover obtain d3 w3 where "daemon_cleanup env d2 w2 = Some (d3, w3)" using cleanup_returns [OF grants_replies [OF assms(1)]] by blast
  ultimately show ?thesis by (simp add: daemon_run_def su p i)
qed

end
