(* ===== verification/Client.thy ===== *)
theory Client
  imports Clib Os Encode Replay
begin

text \<open>
  The client (\<^verbatim>\<open>src/client.c\<close>, \<^verbatim>\<open>src/client.h\<close>): it reads its command line, computes the token
  of the current time step and sends its six digits in one datagram. \<open>getopt_long\<close> is the list of
  its results with the operands that remain; \<open>getaddrinfo\<close> is the parameter \<open>resolve\<close>, \<open>None\<close> for an
  error and \<open>Some None\<close> for a null list.

  The last section ties the client to the daemon: what it sends is what \<open>auth_parse\<close> reads, and
  \<open>matched_counter\<close> finds it as long as the two clocks are at most one step apart.
\<close>

record client_cfg =
  cl_secret :: "byte list"
  cl_secret_len :: nat
  cl_port :: u16
  cl_server :: string

section \<open>The command line\<close>

text \<open>The port and the length of the host part, when the string has a port.\<close>

definition host_port_value :: "string \<Rightarrow> nat \<Rightarrow> (u16 \<times> nat) option" where
  "host_port_value port_start host_len =
     (let (val, rest) = strtol port_start
      in if rest = [] \<and> 1 \<le> val \<and> val \<le> 65535 then Some (word_of_int val, host_len) else None)"

definition parse_host_port :: "string \<Rightarrow> (u16 \<times> nat) option" where
  "parse_host_port str =
     (if char_at str 0 = CHR ''['' then
        (case strchr CHR '']'' str of
           None \<Rightarrow> None
         | Some close \<Rightarrow>
             if char_at str (close + 1) \<noteq> CHR '':'' then None
             else host_port_value (drop (close + 2) str) (close - 1))
      else
        (case strrchr CHR '':'' str of
           None \<Rightarrow> None
         | Some colon \<Rightarrow>
             if CHR '':'' \<in> set (take colon str) then None
             else host_port_value (drop (colon + 1) str) colon))"

definition client_port_opt :: "client_cfg \<Rightarrow> string \<Rightarrow> client_cfg option" where
  "client_port_opt cfg optarg =
     (let val = atol optarg in
      if val < 1 \<or> val > 65535 then None else Some (cfg\<lparr>cl_port := word_of_int val\<rparr>))"

definition client_secret_opt :: "client_cfg \<Rightarrow> string \<Rightarrow> client_cfg option" where
  "client_secret_opt cfg optarg =
     (case secret_decode (Some optarg) 256 of
        None \<Rightarrow> None
      | Some (out, enc) \<Rightarrow> Some (cfg\<lparr>cl_secret := poke 0 out (cl_secret cfg), cl_secret_len := length out\<rparr>))"

definition parse_server_arg :: "client_cfg \<Rightarrow> string \<Rightarrow> client_cfg option" where
  "parse_server_arg cfg src =
     (let (cfg, host_start, slen) =
        (case parse_host_port src of
           Some (p, host_len) \<Rightarrow>
             (cfg\<lparr>cl_port := p\<rparr>, if char_at src 0 = CHR ''['' then 1 else 0, host_len)
         | None \<Rightarrow> (cfg, 0, length src))
      in if 256 \<le> slen then None
         else Some (cfg\<lparr>cl_server := take slen (drop host_start src)\<rparr>))"

datatype client_result = Client_ok client_cfg | Client_error | Client_exit

fun client_opt_loop :: "client_cfg \<Rightarrow> bool \<Rightarrow> (char \<times> string) list \<Rightarrow> (client_cfg \<times> bool) option option" where
  "client_opt_loop cfg given [] = Some (Some (cfg, given))"
| "client_opt_loop cfg given ((opt, optarg) # os) =
     (if opt = CHR ''p'' then
        (case client_port_opt cfg optarg of None \<Rightarrow> Some None | Some cfg \<Rightarrow> client_opt_loop cfg given os)
      else if opt = CHR ''s'' then
        (case client_secret_opt cfg optarg of None \<Rightarrow> Some None | Some cfg \<Rightarrow> client_opt_loop cfg True os)
      else if opt = CHR ''h'' then None
      else Some None)"

text \<open>In the loop \<open>None\<close> is \<open>exit(0)\<close> and \<open>Some None\<close> is return -1.\<close>

definition parse_args :: "(char \<times> string) list \<Rightarrow> string list \<Rightarrow> client_result" where
  "parse_args os operands =
     (case client_opt_loop \<lparr>cl_secret = replicate 256 0, cl_secret_len = 0, cl_port = 2222, cl_server = []\<rparr> False os of
        None \<Rightarrow> Client_exit
      | Some None \<Rightarrow> Client_error
      | Some (Some (cfg, secret_given)) \<Rightarrow>
          if \<not> secret_given then Client_error
          else case operands of
                 [] \<Rightarrow> Client_error
               | src # _ \<Rightarrow> (case parse_server_arg cfg src of None \<Rightarrow> Client_error | Some cfg \<Rightarrow> Client_ok cfg))"

section \<open>Sending the token\<close>

definition c_div :: "int \<Rightarrow> int \<Rightarrow> int" where
  "c_div a b = sgn a * sgn b * (\<bar>a\<bar> div \<bar>b\<bar>)"

definition client_packet :: "byte list \<Rightarrow> time_t \<Rightarrow> byte list" where
  "client_packet secret clock =
     bytes_of_string (fmt_06u (totp_generate secret (word_of_int (c_div clock 30)) 6))"

definition client_sockaddr :: "u16 \<Rightarrow> u16 \<Rightarrow> byte list \<Rightarrow> byte list" where
  "client_sockaddr fam port ai_addr =
     (let sa = replicate 128 0 in
      if fam = AF_INET6
      then poke 8 (take 16 (drop 8 ai_addr)) (poke 2 (htons port) (poke 0 (le16_bytes AF_INET6) sa))
      else poke 4 (take 4 (drop 4 ai_addr)) (poke 2 (htons port) (poke 0 (le16_bytes AF_INET) sa)))"

definition client_run :: "env \<Rightarrow> (string \<Rightarrow> (u16 \<times> byte list) option option) \<Rightarrow> client_cfg \<Rightarrow> os \<Rightarrow> int \<times> os" where
  "client_run env resolve cfg w =
     (let (r, w) = sys env Time w;
          pkt = client_packet (take (cl_secret_len cfg) (cl_secret cfg)) (ret r)
      in case resolve (cl_server cfg) of
           None \<Rightarrow> (-1, w)
         | Some None \<Rightarrow> (-1, w)
         | Some (Some (fam, ai_addr)) \<Rightarrow>
             let sa = client_sockaddr fam (cl_port cfg) ai_addr;
                 (r, w) = sys env (Socket fam SOCK_DGRAM 0) w; fd = ret r
             in if fd < 0 then (-1, w)
                else
                  let (r, w) = sys env (Sendto fd pkt (take (length ai_addr) sa)) w
                  in if ret r < 0 then (-1, sys_do env (Close fd) w)
                     else (0, sys_do env (Close fd) w))"

definition client_main :: "env \<Rightarrow> (string \<Rightarrow> (u16 \<times> byte list) option option) \<Rightarrow> (char \<times> string) list \<Rightarrow> string list
    \<Rightarrow> os \<Rightarrow> int \<times> os" where
  "client_main env resolve os operands w =
     (case parse_args os operands of
        Client_exit \<Rightarrow> (0, w)
      | Client_error \<Rightarrow> (1, w)
      | Client_ok cfg \<Rightarrow> let (r, w) = client_run env resolve cfg w in (if r \<noteq> 0 then 1 else 0, w))"

section \<open>Host and port\<close>

text \<open>A host without colons and a port, a bracketed host and a port, and a bare address.\<close>

lemma parse_host_port_plain:
  assumes "CHR '':'' \<notin> set host" and "char_at (host @ [CHR '':'']) 0 \<noteq> CHR ''[''" and "1 \<le> n" and "n \<le> 65535"
  shows "parse_host_port (host @ CHR '':'' # dec_string n) = Some (of_nat n, length host)"
proof -
  have "CHR '':'' \<notin> set (dec_string n)" using dec_string_digits [of "CHR '':''" n] by (auto simp: is_dec_def)
  then have "strrchr CHR '':'' (host @ CHR '':'' # dec_string n) = Some (length host)" by (rule strrchr_append)
  moreover have "char_at (host @ CHR '':'' # dec_string n) 0 \<noteq> CHR ''[''"
    using assms(2) by (cases host) (auto simp: char_at_def)
  moreover have "strtol (dec_string n) = (int n, [])"
    using assms(4) by (intro strtol_dec_string) (simp add: LONG_MAX_def)
  ultimately show ?thesis using assms by (simp add: parse_host_port_def host_port_value_def)
qed

lemma parse_host_port_bracket:
  assumes "CHR '']'' \<notin> set host" and "1 \<le> n" and "n \<le> 65535"
  shows "parse_host_port (CHR ''['' # host @ '']:'' @ dec_string n) = Some (of_nat n, length host)"
proof -
  have "strchr CHR '']'' (CHR ''['' # host @ CHR '']'' # CHR '':'' # dec_string n) = Some (Suc (length host))"
    using strchr_append [OF assms(1)] by simp
  moreover have "strtol (dec_string n) = (int n, [])"
    using assms(3) by (intro strtol_dec_string) (simp add: LONG_MAX_def)
  ultimately show ?thesis using assms by (simp add: parse_host_port_def host_port_value_def char_at_def nth_append)
qed

lemma parse_host_port_bare6:
  assumes "strrchr CHR '':'' s = Some i" and "CHR '':'' \<in> set (take i s)" and "char_at s 0 \<noteq> CHR ''[''"
  shows "parse_host_port s = None"
  using assms by (simp add: parse_host_port_def)

lemma parse_server_arg_bracket:
  assumes "CHR '']'' \<notin> set host" and "1 \<le> n" and "n \<le> 65535" and "length host < 256"
  shows "parse_server_arg cfg (CHR ''['' # host @ '']:'' @ dec_string n) = Some (cfg\<lparr>cl_port := of_nat n, cl_server := host\<rparr>)"
  using parse_host_port_bracket [OF assms(1-3)] assms(4) by (simp add: parse_server_arg_def char_at_def)

section \<open>The packet and the daemon\<close>

lemma decimal_bytes: "decimal (bytes_of_string s) = dec_number s"
  by (simp add: decimal_def dec_number_def bytes_of_string_def foldl_map unat_byte_of_char)

lemma find_sorted_le:
  assumes "x \<in> set xs" and "P x" and "sorted xs"
  shows "\<exists>y. find P xs = Some y \<and> y \<in> set xs \<and> y \<le> (x :: int)"
  using assms by (induction xs) auto

lemma dec_number_zeros: "dec_number (replicate k CHR ''0'' @ s) = dec_number s"
proof (induction k)
  case (Suc k)
  then show ?case by (simp add: dec_number_def)
qed simp

lemma client_packet_parsed:
  "auth_parse (Some (client_packet secret clock)) = Some (totp_generate secret (word_of_int (c_div clock 30)) 6)"
proof -
  define token where "token = totp_generate secret (word_of_int (c_div clock 30)) 6"
  have "unat token < 10 ^ 6"
    using hotp_less [of secret _ 6] by (simp add: token_def totp_generate_def)
  then have "length (dec_string (unat token)) \<le> 6" by (intro length_dec_string) auto
  then have "length (fmt_06u token) = 6" by (simp add: fmt_06u_def Let_def)
  moreover have "is_digit (byte_of_char c)" if "c \<in> set (fmt_06u token)" for c
  proof -
    have "is_dec c" using that dec_string_digits by (auto simp: fmt_06u_def Let_def is_dec_def)
    then show ?thesis by (simp add: is_digit_unat unat_byte_of_char is_dec_def)
  qed
  moreover have "decimal (bytes_of_string (fmt_06u token)) = unat token"
    by (simp add: decimal_bytes fmt_06u_def Let_def dec_number_zeros dec_number_string)
  ultimately show ?thesis
    unfolding client_packet_def token_def [symmetric] auth_parse_iff by (auto simp: bytes_of_string_def)
qed

text \<open>With clocks at most one step apart the daemon finds a counter for the client's token.\<close>

lemma client_token_found:
  assumes "clock_ok sent_at" and "clock_ok arrived" and "\<bar>sent_at div 30 - arrived div 30\<bar> \<le> 1"
  shows "\<exists>c. matched_counter secret (totp_generate secret (word_of_int (c_div sent_at 30)) 6) (daemon_params ip arrived) = Some c
    \<and> uint c \<le> sent_at div 30"
proof -
  define p where "p = daemon_params ip arrived"
  define n where "n = sent_at div 30"
  define token where "token = totp_generate secret (word_of_int n) 6"
  have n: "c_div sent_at 30 = n" "0 \<le> n" using assms(1) by (auto simp: c_div_def clock_ok_def n_def sgn_if)
  have win: "window p = [max 0 (arrived div 30 - 1)..arrived div 30 + 1]"
    by (simp add: window_def p_def daemon_params_def)
  have inwin: "n \<in> set (window p)" using assms(3) n(2) unfolding win n_def by auto
  have found: "find (\<lambda>c. totp_generate secret c (p_digits p) = token) (map word_of_int (window p))
      = map_option word_of_int (find (\<lambda>c. totp_generate secret (word_of_int c) (p_digits p) = token) (window p))"
    by (rule find_map)
  have d: "p_digits p = 6" by (simp add: p_def daemon_params_def)
  obtain x where x: "find (\<lambda>c. totp_generate secret (word_of_int c) (p_digits p) = token) (window p) = Some x" "x \<in> set (window p)" "x \<le> n"
    using find_sorted_le [OF inwin, of "\<lambda>c. totp_generate secret (word_of_int c) (p_digits p) = token"]
      sorted_upto by (auto simp: win token_def d)
  have "matched_counter secret token p = Some (word_of_int x)"
    unfolding matched_counter_def window_scan_window [OF daemon_params_ok [OF assms(2), of ip, folded p_def]] found x(1) by simp
  moreover have "uint (word_of_int x :: u64) = x"
  proof -
    have "0 \<le> x" "x \<le> arrived div 30 + 1" using x(2) by (auto simp: win)
    then show ?thesis
      unfolding uint_word_of_int_eq using assms(2) by (intro take_bit_int_eq_self) (auto simp: clock_ok_def)
  qed
  ultimately show ?thesis using x(3) by (auto simp: n(1) token_def p_def n_def)
qed

section \<open>The datagram\<close>

text \<open>One datagram is sent, to the port of the configuration at the address the name stands for.\<close>

lemma client_run_calls:
  assumes "resolve (cl_server cfg) = Some (Some (f, ai))"
    and "0 \<le> ret (env (trace w @ [Time]) (Socket f SOCK_DGRAM 0))"
  defines "fd \<equiv> ret (env (trace w @ [Time]) (Socket f SOCK_DGRAM 0))"
    and "pkt \<equiv> client_packet (take (cl_secret_len cfg) (cl_secret cfg)) (ret (env (trace w) Time))"
    and "dst \<equiv> take (length ai) (client_sockaddr f (cl_port cfg) ai)"
  shows "calls_since w (snd (client_run env resolve cfg w)) = [Time, Socket f SOCK_DGRAM 0, Sendto fd pkt dst, Close fd]"
    and "fst (client_run env resolve cfg w) = (if ret (env (trace w @ [Time, Socket f SOCK_DGRAM 0]) (Sendto fd pkt dst)) < 0 then -1 else 0)"
  using assms(2) by (auto simp: client_run_def assms(1) sys_eq Let_def calls_since_def fd_def pkt_def dst_def)

lemma client_sockaddr_dest:
  fixes port :: u16
  assumes "length ai = (if f = AF_INET6 then 28 else 16)"
  defines "dst \<equiv> take (length ai) (client_sockaddr f port ai)"
  shows "if f = AF_INET6 then ss_family dst = AF_INET6 \<and> sin_port dst = htons port \<and> sin6_addr dst = take 16 (drop 8 ai)
    else ss_family dst = AF_INET \<and> sin_port dst = htons port \<and> sin_addr dst = take 4 (drop 4 ai)"
  using assms(1) by (auto simp: dst_def htons_def client_sockaddr_def Let_def poke_def ss_family_def sin_port_def sin6_addr_def sin_addr_def le16_bytes_def byte_simps split: if_splits)

end
