(* ===== verification/Admission.thy ===== *)
theory Admission
  imports Granted Client
begin

text \<open>
  From the client to the open port: what \<open>handle_one_packet\<close> of \<^verbatim>\<open>src/main.c\<close> does, branch by branch,
  and that the packet of \<^verbatim>\<open>src/client.c\<close> is let in when the clocks agree and nothing blocks the
  sender.
\<close>

section \<open>A packet that is refused\<close>

lemma packet_refused:
  fixes env :: env and d :: daemon
  assumes "ip_source src" and "frame_ok (stk (trace w))"
  defines "now \<equiv> ret (env (trace w) Time)" and "ip \<equiv> sender_ip src" and "cfg \<equiv> d_cfg d"
  defines "warn \<equiv> Log (if foreground cfg then Stderr else Syslog) LOG_WARNING"
  shows "rate_limit_check (w_rates w) ip now \<noteq> 0 \<Longrightarrow>
      \<exists>w'. handle_one_packet env stk buf len src d w = Some (d, w')
        \<and> trace w' = trace w @ [Time, warn ''rate limited, dropping''] \<and> w_rates w' = w_rates w \<and> w_replay w' = w_replay w"
    and "rate_limit_check (w_rates w) ip now = 0 \<Longrightarrow> auth_parse (Some (take (nat len) buf)) = None \<Longrightarrow>
      \<exists>w'. handle_one_packet env stk buf len src d w = Some (d, w')
        \<and> trace w' = trace w @ [Time, warn ''auth_parse failed'']
        \<and> w_rates w' = rate_limit_fail (w_rates w) ip now (rate_limit cfg) \<and> w_replay w' = w_replay w"
    and "rate_limit_check (w_rates w) ip now = 0 \<Longrightarrow> auth_parse (Some (take (nat len) buf)) = Some token \<Longrightarrow>
      auth_validate (w_replay w) (secret_of cfg) token (daemon_params ip now) (ret (env (trace w @ [Time]) Time)) = (v, replay) \<Longrightarrow> v \<noteq> 0 \<Longrightarrow>
      \<exists>w'. handle_one_packet env stk buf len src d w = Some (d, w')
        \<and> trace w' = trace w @ [Time, warn ''auth_validate failed'']
        \<and> w_rates w' = rate_limit_fail (w_rates w) ip now (rate_limit cfg) \<and> w_replay w' = w_replay w"
proof -
  obtain port k ra where ps: "packet_source (stk (trace w)) src = (port, k, ra)" by (cases "packet_source (stk (trace w)) src")
  have src: "normalize_src src (fr_addrbuf (stk (trace w))) (ip_from_sockaddr src (fr_src_ip (stk (trace w)))) = (port, ip, ra)"
    using ps packet_source_key(3) [OF assms(1,2) ps] by (simp add: packet_source_def ip_def)
  note unf = handle_one_packet_def Let_def sys_eq src prod.case secret_of_def now_def cfg_def warn_def
  show "\<exists>w'. handle_one_packet env stk buf len src d w = Some (d, w')
        \<and> trace w' = trace w @ [Time, warn ''rate limited, dropping''] \<and> w_rates w' = w_rates w \<and> w_replay w' = w_replay w"
    if "rate_limit_check (w_rates w) ip now \<noteq> 0"
    using that unfolding unf by simp
  show "\<exists>w'. handle_one_packet env stk buf len src d w = Some (d, w')
        \<and> trace w' = trace w @ [Time, warn ''auth_parse failed'']
        \<and> w_rates w' = rate_limit_fail (w_rates w) ip now (rate_limit cfg) \<and> w_replay w' = w_replay w"
    if "rate_limit_check (w_rates w) ip now = 0" "auth_parse (Some (take (nat len) buf)) = None"
    using that unfolding unf by simp
  show "\<exists>w'. handle_one_packet env stk buf len src d w = Some (d, w')
        \<and> trace w' = trace w @ [Time, warn ''auth_validate failed'']
        \<and> w_rates w' = rate_limit_fail (w_rates w) ip now (rate_limit cfg) \<and> w_replay w' = w_replay w"
    if "rate_limit_check (w_rates w) ip now = 0" "auth_parse (Some (take (nat len) buf)) = Some token"
      "auth_validate (w_replay w) (secret_of cfg) token (daemon_params ip now) (ret (env (trace w @ [Time]) Time)) = (v, replay)" "v \<noteq> 0"
    using that unfolding unf by simp
qed

section \<open>A packet that is let in\<close>

text \<open>What is left of a packet that was let in: one more open rule, for the sender, until the timeout.\<close>

definition let_in :: "time_t \<Rightarrow> ip_addr_t \<Rightarrow> daemon \<Rightarrow> world \<Rightarrow> daemon \<Rightarrow> world \<Rightarrow> bool" where
  "let_in now ip d w d' w' \<longleftrightarrow> (\<exists>e port. mset (open_rules d') = add_mset e (mset (open_rules d))
     \<and> rule_ip (dr_addr e) = ip \<and> dr_expiry e = now + uint (cfg_timeout (d_cfg d)) \<and> dr_handle e = g_next_handle w
     \<and> (\<exists>cs. trace w' = trace w @ [Time, Time] @ cs @ [Log_accepted (if foreground (d_cfg d) then Stderr else Syslog) ip port (g_next_handle w)]
          \<and> talk (g_fd w) [accept_of (d_cfg d) e] cs)
     \<and> w_rates w' = rate_limit_success (w_rates w) ip)"

lemma packet_let_in:
  assumes "grants env" and "ip_source src" and "frame_ok (stk (trace w))" and "config_ok (d_cfg d)" and "rules_ok d"
    and "length (open_rules d) < 256" and "g_next_handle w \<noteq> 0"
    and "rate_limit_check (w_rates w) (sender_ip src) (ret (env (trace w) Time)) = 0"
    and "auth_parse (Some (take (nat len) buf)) = Some token"
    and "auth_validate (w_replay w) (secret_of (d_cfg d)) token (daemon_params (sender_ip src) (ret (env (trace w) Time)))
           (ret (env (trace w @ [Time]) Time)) = (0, replay)"
  shows "\<exists>d' w'. handle_one_packet env stk buf len src d w = Some (d', w')
    \<and> let_in (ret (env (trace w) Time)) (sender_ip src) d w d' w' \<and> w_replay w' = replay"
proof -
  define ip where "ip = sender_ip src"
  define now where "now = ret (env (trace w) Time)"
  obtain port k ra where ps: "packet_source (stk (trace w)) src = (port, k, ra)" by (cases "packet_source (stk (trace w)) src")
  note key = packet_source_key [OF assms(2,3) ps]
  have src: "normalize_src src (fr_addrbuf (stk (trace w))) (ip_from_sockaddr src (fr_src_ip (stk (trace w)))) = (port, ip, ra)"
    using ps key(3) by (simp add: packet_source_def ip_def)
  define w1 where "w1 = (sys_do env Time (sys_do env Time w))\<lparr>w_replay := replay, w_rates := rate_limit_success (w_rates w) ip\<rparr>"
  have w1: "g_next_handle w1 = g_next_handle w" "trace w1 = trace w @ [Time, Time]" "g_fd w1 = g_fd w"
    "w_replay w1 = replay" "w_rates w1 = rate_limit_success (w_rates w) ip" by (simp_all add: w1_def sys_do_eq)
  obtain w2 where ins: "netlink_rule_insert env ra (target_port (d_cfg d)) (iface_arg (d_cfg d)) w1 = Some (g_next_handle w, w2)"
    and t: "talks [Accept ra (target_port (d_cfg d)) (iface_arg (d_cfg d))] w1 w2"
    using rule_insert_granted [OF assms(1) key(1) conjunct2 [OF iface_arg_ok [OF assms(4)]], of "target_port (d_cfg d)" w1] w1(1) by auto
  define d' where "d' = rule_track d (g_next_handle w) (ucast (ss_family ra)) (now + uint (cfg_timeout (d_cfg d))) (Some ra)"
  define e where "e = mk_rule (g_next_handle w) (ucast (ss_family ra)) (now + uint (cfg_timeout (d_cfg d))) ra"
  define c where "c = Log_accepted (if foreground (d_cfg d) then Stderr else Syslog) ip port (g_next_handle w)"
  have h: "handle_one_packet env stk buf len src d w = Some (d', sys_do env c w2)"
    using assms(7-10) ins by (simp add: handle_one_packet_def src sys_eq Let_def secret_of_def ip_def [symmetric] now_def [symmetric] w1_def d'_def c_def)
  have o: "mset (open_rules d') = add_mset e (mset (open_rules d))"
    using rule_track_open [OF assms(5), of "g_next_handle w" "ucast (ss_family ra)" "now + uint (cfg_timeout (d_cfg d))" ra] assms(6)
    by (simp add: d'_def e_def)
  obtain cs where cs: "trace w2 = trace w @ [Time, Time] @ cs" "talk (g_fd w) [accept_of (d_cfg d) e] cs"
    using t w1(2,3) by (auto simp: talks_def accept_of_def e_def)
  have tab: "w_replay w2 = replay" "w_rates w2 = rate_limit_success (w_rates w) ip"
    using more_tables [of w2 w1] t w1(4,5) by (simp_all add: talks_def)
  have "let_in now ip d w d' (sys_do env c w2)"
    unfolding let_in_def using o cs tab key by (intro exI [of _ e] exI [of _ port]) (auto simp: e_def c_def ip_def)
  then show ?thesis using h tab(1) by (auto simp: ip_def now_def)
qed

text \<open>
  The packet of a client that knows the secret, received when the two clocks are at most one step
  apart, from an address that is not blocked and that the replay table has not seen but has room
  for.
\<close>

lemma client_let_in:
  assumes "grants env" and "ip_source src" and "frame_ok (stk (trace w))" and "config_ok (d_cfg d)" and "rules_ok d"
    and "length (open_rules d) < 256" and "g_next_handle w \<noteq> 0"
    and "rate_limit_check (w_rates w) (sender_ip src) (ret (env (trace w) Time)) = 0"
    and "take (nat len) buf = client_packet (secret_of (d_cfg d)) sent_at"
    and "clock_ok sent_at" and "clock_ok (ret (env (trace w) Time))" and "\<bar>sent_at div 30 - ret (env (trace w) Time) div 30\<bar> \<le> 1"
    and "replay_ok (w_replay w)" and "replay_lookup (w_replay w) (sender_ip src) = None" and "\<exists>q < 64. \<not> re_used (w_replay w ! q)"
  shows "\<exists>d' w'. handle_one_packet env stk buf len src d w = Some (d', w')
    \<and> let_in (ret (env (trace w) Time)) (sender_ip src) d w d' w'"
proof -
  define now where "now = ret (env (trace w) Time)"
  define token where "token = totp_generate (secret_of (d_cfg d)) (word_of_int (c_div sent_at 30)) 6"
  have parse: "auth_parse (Some (take (nat len) buf)) = Some token" unfolding assms(9) token_def by (rule client_packet_parsed)
  obtain c where c: "matched_counter (secret_of (d_cfg d)) token (daemon_params (sender_ip src) now) = Some c"
    using client_token_found [OF assms(10,11,12)] by (auto simp: token_def now_def)
  have "src_ip (daemon_params (sender_ip src) now) = sender_ip src" by (simp add: daemon_params_def)
  then obtain replay where "auth_validate (w_replay w) (secret_of (d_cfg d)) token (daemon_params (sender_ip src) now)
      (ret (env (trace w @ [Time]) Time)) = (0, replay)"
    using auth_validate_counter [OF assms(13) c, of "ret (env (trace w @ [Time]) Time)"] assms(14,15) by auto
  from packet_let_in [where stk = stk and w = w and env = env, OF assms(1-8) parse this [unfolded now_def]] show ?thesis by blast
qed

end
