(* ===== verification/Secret_File.thy ===== *)
theory Secret_File
  imports Daemon
begin

text \<open>
  Reading the secret from a file (\<open>read_secret_file\<close> in \<^verbatim>\<open>src/main.c\<close>): the text of the file without
  the blanks at its end is decoded like the secret of the command line.
\<close>

definition blank :: "byte \<Rightarrow> bool" where
  "blank b \<longleftrightarrow> b \<in> {10, 13, 32}"

lemma trim_loop_blanks:
  assumes "list_all blank t" and "a = [] \<or> \<not> blank (last a)"
  shows "trim_loop (a @ t) (length (a @ t)) = length a"
proof -
  have "trim_loop (a @ t @ r) (length (a @ t)) = length a" for r
    using assms(1)
  proof (induction t arbitrary: r rule: rev_induct)
    case Nil
    show ?case
    proof (cases a rule: rev_cases)
      case (snoc ys y)
      then show ?thesis using assms(2) by (simp add: blank_def)
    qed simp
  next
    case (snoc x xs)
    have "(a @ (xs @ [x]) @ r) ! length (a @ xs) = x" by (simp add: nth_append)
    then show ?case using snoc.IH [of "x # r"] snoc.prems by (simp add: blank_def)
  qed
  from this [of "[]"] show ?thesis by simp
qed

lemma string_of_bytes_of_string:
  assumes "CHR 0x00 \<notin> set s"
  shows "string_of_bytes (bytes_of_string s) = s"
proof -
  have "byte_of_char c \<noteq> 0" if "c \<in> set s" for c
  proof
    assume "byte_of_char c = 0"
    then have "of_char c = (0 :: nat)" using unat_byte_of_char [of c] by simp
    then have "of_char c = (of_char CHR 0x00 :: nat)" by simp
    then have "c = CHR 0x00" by (simp only: of_char_eq_iff)
    with that assms show False by simp
  qed
  then have tw: "takeWhile (\<lambda>b. b \<noteq> 0) (bytes_of_string s) = bytes_of_string s" by (auto simp: bytes_of_string_def takeWhile_eq_all_conv)
  show ?thesis unfolding string_of_bytes_def tw by (simp add: unat_byte_of_char bytes_of_string_def comp_def)
qed

text \<open>The system holds a file of these bytes, short enough for one read.\<close>

definition file_holds :: "env \<Rightarrow> string \<Rightarrow> byte list \<Rightarrow> bool" where
  "file_holds env path bs \<longleftrightarrow> length bs \<le> 4095 \<and> (\<forall>tr. ret (env tr (Stat path)) = 0 \<and> 0 \<le> ret (env tr (Open path))
     \<and> (\<forall>fd. ret (env tr (Read fd 4095)) = int (length bs) \<and> data (env tr (Read fd 4095)) = bs))"

lemma read_secret_file_decodes:
  assumes "file_holds env path (bytes_of_string s @ t)" and "CHR 0x00 \<notin> set s" and "list_all blank t"
    and "s = [] \<or> \<not> blank (byte_of_char (last s))"
  shows "fst (read_secret_file env path cfg w) =
    (case secret_decode (Some s) SECRET_SIZE of
       None \<Rightarrow> None
     | Some (out, enc) \<Rightarrow> Some (cfg\<lparr>cfg_secret := poke 0 out (cfg_secret cfg), secret_len := length out\<rparr>))"
    and "\<exists>fd. calls_since w (snd (read_secret_file env path cfg w)) = [Stat path, Open path, Read fd 4095, Close fd]"
proof -
  let ?a = "bytes_of_string s"
  have trim: "trim_loop (?a @ t) (length (?a @ t)) = length s"
    using trim_loop_blanks [OF assms(3), of ?a] assms(4) by (cases "s = []") (simp_all add: bytes_of_string_def last_map)
  have f: "ret (env tr (Stat path)) = 0" "0 \<le> ret (env tr (Open path))" "ret (env tr (Read fd 4095)) = int (length s + length t)"
    "data (env tr (Read fd 4095)) = ?a @ t" for tr fd using assms(1) by (simp_all add: file_holds_def)
  show "fst (read_secret_file env path cfg w) =
    (case secret_decode (Some s) SECRET_SIZE of
       None \<Rightarrow> None
     | Some (out, enc) \<Rightarrow> Some (cfg\<lparr>cfg_secret := poke 0 out (cfg_secret cfg), secret_len := length out\<rparr>))"
    using f(2) trim string_of_bytes_of_string [OF assms(2)]
    by (simp add: read_secret_file_def sys_eq Let_def f not_less [symmetric] nat_add_distrib split: option.split)
  show "\<exists>fd. calls_since w (snd (read_secret_file env path cfg w)) = [Stat path, Open path, Read fd 4095, Close fd]"
    using f(2) by (simp add: read_secret_file_def sys_eq Let_def f not_less [symmetric] calls_since_def split: option.split)
qed

end
