(* ===== verification/Replies.thy ===== *)
theory Replies
  imports Netlink
begin

text \<open>
  The replies of the kernel (\<open>handle_nlmsg_error\<close> and the loop of \<open>process_batch_replies\<close> in
  \<^verbatim>\<open>src/netlink.c\<close>): on a datagram of whole messages the walk reports the error of the first message
  that carries one, and a batch succeeds exactly when no datagram carries one.
\<close>

text \<open>A message as the kernel lays it out: its length in the header, padded to a multiple of four.\<close>

definition whole_msg :: "byte list \<Rightarrow> bool" where
  "whole_msg m \<longleftrightarrow> 16 \<le> nlmsg_len 0 m \<and> 16 \<le> length m \<and> length m = align4 (nlmsg_len 0 m)"

definition first_error :: "byte list list \<Rightarrow> int option" where
  "first_error ms = (case List.map_filter handle_nlmsg_error ms of [] \<Rightarrow> None | e # es \<Rightarrow> Some e)"

lemma first_error_simps [simp]:
  "first_error [] = None"
  "first_error (m # ms) = (case handle_nlmsg_error m of Some e \<Rightarrow> Some e | None \<Rightarrow> first_error ms)"
  by (simp_all add: first_error_def map_filter_simps split: option.split)

lemma header_append:
  assumes "16 \<le> length m"
  shows "nlmsg_len 0 (m @ r) = nlmsg_len 0 m" and "rd16 4 (m @ r) = rd16 4 m"
proof -
  have "(m @ r) ! i = m ! i" if "i < 16" for i using assms that by (simp add: nth_append)
  then show "nlmsg_len 0 (m @ r) = nlmsg_len 0 m" "rd16 4 (m @ r) = rd16 4 m" by (simp_all add: nlmsg_len_def rd32_def rd16_def)
qed

lemma handle_error_append:
  assumes "whole_msg m"
  shows "handle_nlmsg_error (m @ r) = handle_nlmsg_error m"
proof -
  have "rd32 16 (m @ r) = rd32 16 m" if "36 \<le> nlmsg_len 0 m"
  proof -
    have "36 \<le> length m" using that assms align4_ge [of "nlmsg_len 0 m"] by (simp add: whole_msg_def)
    then show ?thesis by (simp add: rd32_def nth_append)
  qed
  then show ?thesis using header_append assms by (simp add: handle_nlmsg_error_def whole_msg_def)
qed

lemma scan_reply_first_error:
  assumes "list_all whole_msg ms"
  shows "scan_reply (concat ms) = first_error ms"
  using assms
proof (induction ms)
  case Nil
  then show ?case by (simp add: scan_reply.simps nlmsg_ok_def)
next
  case (Cons m ms)
  have m: "whole_msg m" using Cons.prems by simp
  then have len: "16 \<le> length m" "length m = align4 (nlmsg_len 0 m)" "nlmsg_len 0 m \<le> length m"
    using align4_ge [of "nlmsg_len 0 m"] by (simp_all add: whole_msg_def)
  have ok: "nlmsg_ok (m @ concat ms)" using m len header_append(1) [OF len(1)] by (simp add: nlmsg_ok_def whole_msg_def)
  have "drop (align4 (nlmsg_len 0 (m @ concat ms))) (m @ concat ms) = concat ms"
    using len header_append(1) [OF len(1)] by simp
  then show ?case
    using Cons ok handle_error_append [OF m] by (simp add: scan_reply.simps [of "m @ concat ms"] del: drop_append split: option.split)
qed

text \<open>One datagram of replies, then silence: what the wait returns.\<close>

lemma replies_one_datagram:
  assumes "list_all whole_msg ms" and "16 \<le> length (concat ms)"
    and "0 < ret (env (trace w) (Poll (g_fd w) 100))"
    and "ret (env (trace w @ [Poll (g_fd w) 100]) (Recv (g_fd w) BUF_SIZE)) = int (length (concat ms))"
    and "data (env (trace w @ [Poll (g_fd w) 100]) (Recv (g_fd w) BUF_SIZE)) = concat ms"
    and "ret (env (trace w @ [Poll (g_fd w) 100, Recv (g_fd w) BUF_SIZE]) (Poll (g_fd w) 100)) \<le> 0"
  shows "\<exists>w'. process_batch_replies env w = Some (if first_error ms = None then 0 else -1, w')
    \<and> (case first_error ms of None \<Rightarrow> True | Some e \<Rightarrow> errno w' = e)"
proof -
  define w1 where "w1 = sys_do env (Recv (g_fd w) BUF_SIZE) (sys_do env (Poll (g_fd w) 100) w)"
  have w1: "g_fd w1 = g_fd w" "trace w1 = trace w @ [Poll (g_fd w) 100, Recv (g_fd w) BUF_SIZE]" by (simp_all add: w1_def sys_do_eq)
  have g: "g_fd (sys_do env (Poll (g_fd w) 100) w) = g_fd w" by (simp add: sys_do_eq)
  have last: "process_batch_replies env w1 = Some (0, sys_do env (Poll (g_fd w) 100) w1)"
    using assms(6) w1 by (subst process_batch_replies.simps) (simp add: sys_eq Let_def)
  have "process_batch_replies env w = (case first_error ms of
      Some e \<Rightarrow> Some (-1, w1\<lparr>errno := e\<rparr>) | None \<Rightarrow> process_batch_replies env w1)"
    using assms(2-5) scan_reply_first_error [OF assms(1)]
    by (subst process_batch_replies.simps) (simp add: sys_eq Let_def g w1_def split: option.split)
  then show ?thesis using last by (auto split: option.split)
qed

section \<open>The messages\<close>

text \<open>
  What the kernel sends, without its layout: an error message with its code and a copy of the
  request's header, one too short for that, and a message of any other type. The ten
  remaining bytes of the header are not looked at.
\<close>

datatype reply = Error_reply "byte list" u32 "byte list" | Short_error "byte list" "byte list" | Other_reply u16 "byte list" "byte list"

fun reply_error :: "reply \<Rightarrow> int option" where
  "reply_error (Error_reply hdr code request) = (if code = 0 then None else Some \<bar>sint code\<bar>)"
| "reply_error (Short_error hdr body) = Some EBADMSG"
| "reply_error (Other_reply type hdr body) = None"

fun reply_ok :: "reply \<Rightarrow> bool" where
  "reply_ok (Error_reply hdr code request) \<longleftrightarrow> length hdr = 10 \<and> 16 \<le> length request \<and> length request \<le> 4000 \<and> - (2 ^ 31) < sint code"
| "reply_ok (Short_error hdr body) \<longleftrightarrow> length hdr = 10 \<and> length body < 20"
| "reply_ok (Other_reply type hdr body) \<longleftrightarrow> length hdr = 10 \<and> length body \<le> 4000 \<and> type \<noteq> NLMSG_ERROR"

definition nl_layout :: "u16 \<Rightarrow> byte list \<Rightarrow> byte list \<Rightarrow> byte list" where
  "nl_layout type hdr body = le32_bytes (of_nat (16 + length body)) @ le16_bytes type @ hdr @ body
     @ replicate (align4 (16 + length body) - (16 + length body)) 0"

fun reply_bytes :: "reply \<Rightarrow> byte list" where
  "reply_bytes (Error_reply hdr code request) = nl_layout NLMSG_ERROR hdr (le32_bytes code @ request)"
| "reply_bytes (Short_error hdr body) = nl_layout NLMSG_ERROR hdr body"
| "reply_bytes (Other_reply type hdr body) = nl_layout type hdr body"

lemma layout_fields:
  assumes "length hdr = 10" and "length body \<le> 4100"
  shows "nlmsg_len 0 (nl_layout type hdr body) = 16 + length body" and "rd16 4 (nl_layout type hdr body) = type"
    and "whole_msg (nl_layout type hdr body)"
proof -
  show len: "nlmsg_len 0 (nl_layout type hdr body) = 16 + length body"
    using nlmsg_len_split [of "[]" 0 "16 + length body"] assms(2) by (simp add: nl_layout_def)
  show "rd16 4 (nl_layout type hdr body) = type"
    by (simp add: nl_layout_def rd16_def le16_bytes_def le32_bytes_def byte_simps)
  have "length (nl_layout type hdr body) = align4 (16 + length body)"
    using assms(1) align4_ge [of "16 + length body"] by (simp add: nl_layout_def)
  then show "whole_msg (nl_layout type hdr body)" using align4_ge [of "16 + length body"] unfolding whole_msg_def len by simp
qed

lemma layout_code:
  assumes "length hdr = 10"
  shows "rd32 16 (nl_layout type hdr (le32_bytes code @ rest)) = code"
  using rd32_at [of "le32_bytes (of_nat (16 + length (le32_bytes code @ rest))) @ le16_bytes type @ hdr" code] assms
  by (simp add: nl_layout_def)

lemma reply_bytes_error:
  assumes "reply_ok r"
  shows "whole_msg (reply_bytes r)" and "handle_nlmsg_error (reply_bytes r) = reply_error r"
proof -
  have z: "sint code = 0 \<longleftrightarrow> code = 0" for code :: u32 by (simp add: signed_eq_0_iff)
  have "whole_msg (reply_bytes r) \<and> handle_nlmsg_error (reply_bytes r) = reply_error r"
  proof (cases r)
    case (Error_reply hdr code request)
    then have "length hdr = 10" "length (le32_bytes code @ request) \<le> 4100" "36 \<le> 16 + length (le32_bytes code @ request)" using assms by auto
    then show ?thesis
      using layout_fields [of hdr "le32_bytes code @ request" NLMSG_ERROR] layout_code [of hdr NLMSG_ERROR code request]
      by (simp add: Error_reply handle_nlmsg_error_def Let_def z abs_if)
  next
    case (Short_error hdr body)
    then show ?thesis using layout_fields [of hdr body NLMSG_ERROR] assms by (simp add: handle_nlmsg_error_def)
  next
    case (Other_reply type hdr body)
    then show ?thesis using layout_fields [of hdr body type] assms by (simp add: handle_nlmsg_error_def)
  qed
  then show "whole_msg (reply_bytes r)" "handle_nlmsg_error (reply_bytes r) = reply_error r" by auto
qed

lemma scan_replies:
  assumes "list_all reply_ok rs"
  shows "scan_reply (concat (map reply_bytes rs)) = (case List.map_filter reply_error rs of [] \<Rightarrow> None | e # es \<Rightarrow> Some e)"
proof -
  have "List.map_filter handle_nlmsg_error (map reply_bytes rs) = List.map_filter reply_error rs"
    using assms by (induction rs) (simp_all add: map_filter_simps reply_bytes_error split: option.split)
  moreover have "list_all whole_msg (map reply_bytes rs)" using assms reply_bytes_error(1) by (induction rs) simp_all
  ultimately show ?thesis using scan_reply_first_error by (simp add: first_error_def)
qed

end
