(* ===== verification/Replay_Loop.thy ===== *)
theory Replay_Loop
  imports Run
begin

text \<open>
  The loop of the daemon follows the step relation of theory \<open>Replay\<close>. What was accepted is read off
  the calls made: \<open>auth_record_seq\<close> (\<^verbatim>\<open>src/auth.c\<close>) reads the clock when it records a counter, and
  this is the only place where the clock is read right after \<open>handle_one_packet\<close> read it for a
  packet. Of the clock it is assumed that it is never set back by more than \<open>max_set_back\<close>.
\<close>

section \<open>Accepted counters\<close>

text \<open>The sender of the packet received last and the counter its token is for, at the clock read after it.\<close>

definition packet_counter :: "env \<Rightarrow> byte list \<Rightarrow> syscall list \<Rightarrow> (ip_addr_t \<times> u64) option" where
  "packet_counter env secret tr =
     (case rev tr of
        t # e # rest \<Rightarrow>
          if t = Time then
            (case e of
               Recvfrom fd n \<Rightarrow>
                 let r = env (rev rest) e; ip = sender_ip (peer r); now = ret (env (rev rest @ [e]) Time)
                 in (case auth_parse (Some (data r)) of
                       None \<Rightarrow> None
                     | Some token \<Rightarrow> map_option (Pair ip) (matched_counter secret token (daemon_params ip now)))
             | _ \<Rightarrow> None)
          else None
      | _ \<Rightarrow> None)"

fun accepted :: "env \<Rightarrow> byte list \<Rightarrow> syscall list \<Rightarrow> syscall list \<Rightarrow> (ip_addr_t \<times> u64) list" where
  "accepted env secret pre [] = []"
| "accepted env secret pre (c # cs) =
     (if c = Time then (case packet_counter env secret pre of Some a \<Rightarrow> [a] | None \<Rightarrow> []) else [])
     @ accepted env secret (pre @ [c]) cs"

lemma accepted_append:
  "accepted env secret pre (cs @ ds) = accepted env secret pre cs @ accepted env secret (pre @ cs) ds"
  by (induction cs arbitrary: pre) simp_all

lemma accepted_no_clock: "Time \<notin> set cs \<Longrightarrow> accepted env secret pre cs = []"
  by (induction cs arbitrary: pre) auto

lemma packet_counter_other: "c \<noteq> Time \<Longrightarrow> packet_counter env secret (tr @ [c]) = None"
  by (simp add: packet_counter_def split: list.split)

section \<open>The clock\<close>

definition clock_steady :: "env \<Rightarrow> bool" where
  "clock_steady env \<longleftrightarrow> (\<forall>tr cs. ret (env tr Time) - max_set_back \<le> ret (env (tr @ cs) Time))"

section \<open>The simulation\<close>

text \<open>A state of the step relation with the table, the log and a time that later readings respect.\<close>

definition follows :: "env \<Rightarrow> byte list \<Rightarrow> ip_addr_t set \<Rightarrow> syscall list \<Rightarrow> world \<Rightarrow> bool" where
  "follows env secret clients tr0 w \<longleftrightarrow> (\<exists>s cs. replay_reachable secret clients s
     \<and> rs_table s = w_replay w \<and> trace w = tr0 @ cs \<and> rs_log s = rev (accepted env secret tr0 cs)
     \<and> (\<forall>ds. rs_time s - max_set_back \<le> ret (env (trace w @ ds) Time)))"

definition carries :: "env \<Rightarrow> byte list \<Rightarrow> world \<Rightarrow> world \<Rightarrow> bool" where
  "carries env secret w w' \<longleftrightarrow> (\<exists>cs. trace w' = trace w @ cs
     \<and> (\<forall>clients tr0. follows env secret clients tr0 w \<longrightarrow> fst ` set (accepted env secret (trace w) cs) \<subseteq> clients
          \<longrightarrow> follows env secret clients tr0 w'))"

lemma carries_refl [simp]: "carries env secret w w"
  by (simp add: carries_def)

lemma carries_trans: "carries env secret u v \<Longrightarrow> carries env secret v w \<Longrightarrow> carries env secret u w"
  unfolding carries_def by (elim exE conjE, rule_tac x = "cs @ csa" in exI) (simp add: accepted_append image_Un)

lemma carries_calls:
  assumes "trace w' = trace w @ cs" and "Time \<notin> set cs" and "w_replay w' = w_replay w"
  shows "carries env secret w w'"
  unfolding carries_def
proof (intro exI [of _ cs] conjI allI impI assms(1))
  fix clients tr0
  assume "follows env secret clients tr0 w"
  then show "follows env secret clients tr0 w'"
    unfolding follows_def using assms by (fastforce simp: accepted_append accepted_no_clock)
qed

lemma replay_step_reachable: "replay_reachable secret clients s \<Longrightarrow> replay_step secret clients s s' \<Longrightarrow> replay_reachable secret clients s'"
  unfolding replay_reachable_def by (rule rtranclp.rtrancl_into_rtrancl)

lemma carries_clock:
  assumes "clock_steady env" and "packet_counter env secret (trace w) = None" and "trace w' = trace w @ [Time]"
    and "w_replay w' = w_replay w \<or> w_replay w' = auth_replay_prune (w_replay w) (ret (env (trace w) Time)) 3600"
  shows "carries env secret w w'"
  unfolding carries_def
proof (intro exI [of _ "[Time]"] conjI allI impI assms(3))
  fix clients tr0
  assume "follows env secret clients tr0 w"
  then obtain s cs where s: "replay_reachable secret clients s" "rs_table s = w_replay w" "trace w = tr0 @ cs"
    "rs_log s = rev (accepted env secret tr0 cs)" "\<And>ds. rs_time s - max_set_back \<le> ret (env (trace w @ ds) Time)"
    unfolding follows_def by blast
  define t where "t = ret (env (trace w) Time)"
  obtain s' where s': "replay_step secret clients s s'" "rs_table s' = w_replay w'" "rs_log s' = rs_log s" "rs_time s' = max (rs_time s) t"
  proof (cases "w_replay w' = w_replay w")
    case True
    show thesis by (rule that [OF tick [of secret clients s t]]) (simp_all add: True s(2))
  next
    case False
    then show thesis using assms(4) by (intro that [OF prune [of secret clients s t]]) (simp_all add: t_def s(2))
  qed
  have "trace w' = tr0 @ cs @ [Time]" "accepted env secret tr0 (cs @ [Time]) = accepted env secret tr0 cs"
    using assms(2,3) s(3) by (simp_all add: accepted_append)
  moreover have "rs_time s' - max_set_back \<le> ret (env (trace w' @ ds) Time)" for ds
    using s(5) [of "[Time] @ ds"] assms(1,3) unfolding s'(4) t_def clock_steady_def by (simp add: max_def)
  ultimately show "follows env secret clients tr0 w'"
    unfolding follows_def using replay_step_reachable [OF s(1) s'(1)] s'(2,3) s(4) by (intro exI [of _ s'] exI [of _ "cs @ [Time]"]) simp
qed

lemma carries_accept:
  assumes "clock_steady env" and "clock_env env" and "trace w = pre @ [Recvfrom fd n]" and "trace w' = trace w @ [Time, Time]"
    and "auth_parse (Some (data (env pre (Recvfrom fd n)))) = Some token" and "ip = sender_ip (peer (env pre (Recvfrom fd n)))"
    and "auth_validate (w_replay w) secret token (daemon_params ip (ret (env (trace w) Time))) (ret (env (trace w @ [Time]) Time))
      = (0, w_replay w')"
  shows "carries env secret w w'"
  unfolding carries_def
proof (intro exI [of _ "[Time, Time]"] conjI allI impI assms(4))
  fix clients tr0
  assume f: "follows env secret clients tr0 w" and cl: "fst ` set (accepted env secret (trace w) [Time, Time]) \<subseteq> clients"
  obtain s cs where s: "replay_reachable secret clients s" "rs_table s = w_replay w" "trace w = tr0 @ cs"
    "rs_log s = rev (accepted env secret tr0 cs)" "\<And>ds. rs_time s - max_set_back \<le> ret (env (trace w @ ds) Time)"
    using f unfolding follows_def by blast
  define t where "t = ret (env (trace w) Time)"
  define t' where "t' = ret (env (trace w @ [Time]) Time)"
  obtain c where c: "matched_counter secret token (daemon_params ip t) = Some c"
    using auth_validate_accepts [OF assms(7)] by (auto simp: t_def)
  have "packet_counter env secret (trace w @ [Time]) = Some (ip, c)"
    using c assms(3,5,6) by (simp add: packet_counter_def t_def)
  moreover have "packet_counter env secret (trace w) = None" unfolding assms(3) by (rule packet_counter_other) simp
  ultimately have acc: "accepted env secret (trace w) [Time, Time] = [(ip, c)]" by simp
  have st: "t - max_set_back \<le> ret (env (trace w @ ds) Time)" "t' - max_set_back \<le> ret (env (trace w @ [Time] @ ds) Time)" for ds
    using assms(1) unfolding clock_steady_def t_def t'_def by (simp, metis append.assoc)
  define s' where "s' = \<lparr>rs_table = w_replay w', rs_time = max (max (rs_time s) t) t', rs_log = (ip, c) # rs_log s\<rparr>"
  have "replay_step secret clients s s'"
    unfolding s'_def
  proof (rule replay_step.accept)
    show "ip \<in> clients" using cl unfolding acc by simp
    show "rs_time s - max_set_back \<le> t" "max (rs_time s) t - max_set_back \<le> t'"
      using s(5) [of "[]"] s(5) [of "[Time]"] st(1) [of "[Time]"] by (simp_all add: t_def t'_def max_def)
    show "clock_ok t" using assms(2) by (simp add: clock_env_def t_def)
    show "auth_validate (rs_table s) secret token (daemon_params ip t) t' = (0, w_replay w')" using assms(7) s(2) by (simp add: t_def t'_def)
  qed (rule c)
  then have "replay_reachable secret clients s'" by (rule replay_step_reachable [OF s(1)])
  moreover have "trace w' = tr0 @ cs @ [Time, Time]" "rs_log s' = rev (accepted env secret tr0 (cs @ [Time, Time]))"
    using assms(4) s(3,4) acc by (simp_all add: accepted_append s'_def)
  moreover have "rs_time s' - max_set_back \<le> ret (env (trace w' @ ds) Time)" for ds
    using s(5) [of "[Time, Time] @ ds"] st(1) [of "[Time, Time] @ ds"] st(2) [of "Time # ds"] assms(4) by (simp add: s'_def max_def)
  ultimately show "follows env secret clients tr0 w'"
    unfolding follows_def by (intro exI [of _ s'] exI [of _ "cs @ [Time, Time]"]) (simp add: s'_def)
qed

section \<open>The loop\<close>

lemma carries_talks: "talks ms w w' \<Longrightarrow> carries env secret w w'"
  using more_tables [of w' w] by (auto simp: talks_def talk_def intro!: carries_calls)

lemma carries_rates [simp]: "carries env secret w (w'\<lparr>w_rates := x\<rparr>) \<longleftrightarrow> carries env secret w w'"
  by (simp add: carries_def follows_def)

lemma packet_carries:
  assumes inv: "loop_inv env d w" and rcv: "just_received env fd buf len src (trace w)" and "clock_steady env"
    and sys: "clock_env env" "frame_ok (stk (trace w))" and h: "handle_one_packet env stk buf len src d w = Some (d', w')"
  shows "carries env (secret_of (d_cfg d)) w w'"
proof -
  obtain port ip ra where ps: "packet_source (stk (trace w)) src = (port, ip, ra)" by (cases "packet_source (stk (trace w)) src")
  obtain pre where pre: "trace w = pre @ [Recvfrom fd 256]" "take (nat len) buf = data (env pre (Recvfrom fd 256))" "ip_source src"
    "sender_ip src = sender_ip (peer (env pre (Recvfrom fd 256)))"
    using rcv by (auto simp: just_received_def Let_def)
  note key = packet_source_key [OF pre(3) sys(2) ps]
  from h ps show ?thesis
  proof (cases rule: handle_packet_cases)
    case (refused msg rates)
    have "carries env (secret_of (d_cfg d)) w (sys_do env Time w)"
      by (rule carries_clock [OF assms(3)]) (simp_all add: pre(1) packet_counter_other)
    moreover have "carries env (secret_of (d_cfg d)) (sys_do env Time w) (log_msg env (d_cfg d) LOG_WARNING msg (sys_do env Time w))"
      by (rule carries_calls [where cs = "[_]"]) (rule log_msg_fields(3), simp_all)
    ultimately show ?thesis using carries_trans unfolding refused(2) carries_rates by blast
  next
    case (accepted token replay h w2)
    define w1 where "w1 = (sys_do env Time (sys_do env Time w))\<lparr>w_replay := replay, w_rates := rate_limit_success (w_rates w) ip\<rparr>"
    have a: "carries env (secret_of (d_cfg d)) w w1"
      by (rule carries_accept [OF assms(3) sys(1) pre(1), where token = token and ip = ip])
        (use accepted(2,3) key(3) pre(2,4) in \<open>simp_all add: w1_def\<close>)
    have "talks [Accept ra (target_port (d_cfg d)) (iface_arg (d_cfg d))] w1 w2"
      using accepted(4) key(1) inv iface_arg_ok ip_source_family unfolding w1_def
      by (intro rule_insert_talks) (auto simp: ip_source_def loop_inv_def)
    then have b: "carries env (secret_of (d_cfg d)) w1 w2" by (rule carries_talks)
    have "carries env (secret_of (d_cfg d)) w2 w'" using accepted(5) by (auto intro!: carries_calls)
    then show ?thesis using carries_trans a b by blast
  qed
qed

lemma recv_carries:
  assumes "udp_kernel env" and "udp_recv env fd buf src (Some 128) w = Some (r, w')" and "length buf = 256" and "ss_wf src"
  shows "carries env secret w w'"
proof -
  obtain pre k where r: "extends w w'" "os.more w' = os.more w" "calls_since w w' = replicate k (Recvfrom fd 256)"
    using received [OF assms] by metis
  have "trace w' = trace w @ replicate k (Recvfrom fd 256)" using r(1,3) by (auto simp: extends_def calls_since_def)
  moreover have "w_replay w' = w_replay w" using r(2) by (cases w; cases w') simp
  ultimately show ?thesis by (intro carries_calls [where cs = "replicate k (Recvfrom fd 256)"]) simp_all
qed

lemma recv_loop_carries:
  assumes "recv_loop env stk fd buf src d w = Some (d', w')" and "sys_ok env stk" and "clock_steady env"
    and "loop_inv env d w" and "length buf = 256" and "ss_wf src"
  shows "carries env (secret_of (d_cfg d)) w w'"
proof -
  define ok where "ok = (\<lambda>env stk d w (buf :: byte list) src. sys_ok env stk \<and> clock_steady env \<and> loop_inv env d w \<and> length buf = 256 \<and> ss_wf src)"
  have "ok env stk d w buf src \<longrightarrow> carries env (secret_of (d_cfg d)) w (snd (d', w'))"
  proof (rule recv_loop.raw_induct [where P = "\<lambda>env stk fd buf src d w dw.
      ok env stk d w buf src \<longrightarrow> carries env (secret_of (d_cfg d)) w (snd dw)", OF _ assms(1)], intro impI)
    fix f env stk fd buf src d w dw
    assume IH: "\<And>env stk fd buf src d w dw. f env stk fd buf src d w = Some dw \<Longrightarrow>
        ok env stk d w buf src \<longrightarrow> carries env (secret_of (d_cfg d)) w (snd dw)"
      and eq: "do {
         (r, w) \<leftarrow> udp_recv env fd buf src (Some 128) w;
         if 0 < r_n r then do {
           (d, w) \<leftarrow> handle_one_packet env stk (r_buf r) (r_n r) (r_src r) d w;
           f env stk fd (r_buf r) (r_src r) d w
         }
         else Some (d, w)
       } = Some dw"
      and "ok env stk d w buf src"
    then have pre: "sys_ok env stk" "clock_steady env" "loop_inv env d w" "length buf = 256" "ss_wf src" by (simp_all add: ok_def)
    obtain r w1 where u: "udp_recv env fd buf src (Some 128) w = Some (r, w1)"
      and rest: "(if 0 < r_n r then do {
           (d, w) \<leftarrow> handle_one_packet env stk (r_buf r) (r_n r) (r_src r) d w1;
           f env stk fd (r_buf r) (r_src r) d w
         }
         else Some (d, w1)) = Some dw"
      using eq by (auto simp: bind_eq_Some_conv)
    have sys: "udp_kernel env" "clock_env env" "frame_ok (stk (trace w1))" using pre(1) by (simp_all add: sys_ok_def)
    note a = recv_advance [OF pre(3) sys(1) u pre(4,5)]
    note c = recv_carries [OF sys(1) u pre(4,5)]
    show "carries env (secret_of (d_cfg d)) w (snd dw)"
    proof (cases "0 < r_n r")
      case False
      then show ?thesis using rest c by auto
    next
      case True
      then obtain d2 w2 where h: "handle_one_packet env stk (r_buf r) (r_n r) (r_src r) d w1 = Some (d2, w2)"
        and rec: "f env stk fd (r_buf r) (r_src r) d2 w2 = Some dw"
        using rest by (auto simp: bind_eq_Some_conv)
      have "loop_inv env d w1" using a(1) by (simp add: advance_def)
      note b = packet_advance [OF this a(4) [OF True] sys(2,3) h] packet_carries [OF this a(4) [OF True] pre(2) sys(2,3) h]
      have "ok env stk d2 w2 (r_buf r) (r_src r)" "d_cfg d2 = d_cfg d"
        using b(1) pre(1,2) a(2,3) by (simp_all add: ok_def advance_def same_setup_def)
      then have "carries env (secret_of (d_cfg d)) w2 (snd dw)" using IH [OF rec] by simp
      then show ?thesis using carries_trans c b(2) by blast
    qed
  qed
  then show ?thesis using assms by (simp add: ok_def)
qed

lemma event_loop_carries:
  assumes "event_loop env stk fds d w = Some (r, d', w')" and "sys_ok env stk" and "clock_steady env" and "loop_inv env d w"
  shows "carries env (secret_of (d_cfg d)) w w'"
  using assms(1,4)
proof (induction fds arbitrary: d w)
  case Nil
  then show ?case by simp
next
  case (Cons fd fds)
  have fr: "length (fr_buf (stk (trace w))) = 256" "ss_wf (fr_src (stk (trace w)))"
    using assms(2) by (simp_all add: sys_ok_def frame_ok_def)
  consider (signal) "w' = snd (daemon_handle_signal env d w)"
    | (packets) u d1 w1 where "recv_loop env stk u (fr_buf (stk (trace w))) (fr_src (stk (trace w))) d w = Some (d1, w1)"
      "event_loop env stk fds d1 w1 = Some (r, d', w')"
    | (other) "event_loop env stk fds d w = Some (r, d', w')"
    using Cons.prems(1) by (auto simp: Let_def bind_eq_Some_conv split_beta split: if_splits)
  then show ?case
  proof cases
    case signal
    show ?thesis unfolding signal daemon_handle_signal_def sys_eq Let_def by (auto intro!: carries_calls)
  next
    case packets
    have "advance env d w d1 w1" by (rule recv_loop_advance [OF packets(1) assms(2) Cons.prems(2) fr])
    then have "loop_inv env d1 w1" "d_cfg d1 = d_cfg d" by (simp_all add: advance_def same_setup_def)
    then have "carries env (secret_of (d_cfg d)) w1 w'" using Cons.IH [OF packets(2)] by simp
    then show ?thesis using carries_trans recv_loop_carries [OF packets(1) assms(2,3) Cons.prems(2) fr] by blast
  next
    case other
    then show ?thesis using Cons by blast
  qed
qed

lemma prune_carries:
  assumes "loop_inv env d w" and "rule_prune env d now w = Some (d', w')"
  shows "carries env secret w w'"
proof -
  have "rules_ok d" "config_ok (d_cfg d)" "sources_ok d" using assms(1) by (auto simp: loop_inv_def sources_ok_def all_open_def)
  note t = rule_prune_talks [OF assms(2) this(1,3,2)]
  show ?thesis by (cases "prune_ops d now") (use t carries_talks in auto)
qed

lemma process_carries:
  assumes "daemon_process env stk d w = Some (r, d', w')" and "sys_ok env stk" and "clock_steady env" and "loop_inv env d w"
  shows "carries env (secret_of (d_cfg d)) w w'"
proof -
  define e where "e = env (trace w) (Epoll_wait (epoll_fd d) (maxevents d) 1000)"
  define w1 where "w1 = sys_do env (Epoll_wait (epoll_fd d) (maxevents d) 1000) w"
  define v where "v = sys_do env Clock_monotonic w1"
  define now where "now = ret (env (trace v) Time)"
  define w2 where "w2 = sys_do env Time v"
  define wp where "wp = w2\<lparr>w_replay := auth_replay_prune (w_replay w2) now 3600\<rparr>"
  note unf = assms(1) [unfolded daemon_process_def Let_def sys_eq prod.case, folded e_def w1_def, folded v_def, folded now_def w2_def, folded wp_def]
  have inv: "loop_inv env d w1" "loop_inv env d w2" "loop_inv env (d\<lparr>last_prune := x\<rparr>) wp" for x
  proof -
    have tb: "tables_ok w1" "tables_ok w2" "tables_ok wp"
      using assms(4) by (auto simp: w1_def v_def w2_def wp_def loop_inv_def tables_ok_def)
    have tr: "trace w1 = trace w @ [Epoll_wait (epoll_fd d) (maxevents d) 1000]" "trace w2 = trace w1 @ [Clock_monotonic, Time]" "trace wp = trace w2"
      by (simp_all add: w1_def v_def w2_def wp_def)
    have "all_open (\<lambda>f. ip_source (dr_addr f) \<and> authorized env (secret_of (d_cfg d)) (trace w @ cs) (dr_addr f)) d" for cs
      using assms(4) unfolding loop_inv_def by (auto intro: authorized_mono elim!: all_open_mono)
    then show "loop_inv env d w1" "loop_inv env d w2" "loop_inv env (d\<lparr>last_prune := x\<rparr>) wp" 
      using assms(4) tb by (simp_all add: loop_inv_def tr rules_ok_def all_open_def open_rules_def)
  qed
  have a: "carries env secret w w1" "carries env secret w1 v" for secret
    using carries_calls [where cs = "[_]", of w1 w] carries_calls [where cs = "[_]", of v w1] by (simp_all add: w1_def v_def)
  have b: "carries env secret v w2" "carries env secret v wp" for secret
    using carries_clock [OF assms(3), where w = v and secret = secret]
    by (simp_all add: v_def w2_def wp_def now_def packet_counter_other)
  show ?thesis
  proof (cases "ret e < 0")
    case True
    then show ?thesis using unf a(1) by auto
  next
    case False
    define fds where "fds = take (nat (ret e)) (ready e)"
    consider "event_loop env stk fds d w2 = Some (r, d', w')"
      | d0 d1 w3 where "d0 = d\<lparr>last_prune := ret (env (trace w1) Clock_monotonic)\<rparr>" "rule_prune env d0 now wp = Some (d1, w3)"
        "event_loop env stk fds d1 w3 = Some (r, d', w')"
      using unf False by (auto simp: bind_eq_Some_conv fds_def split: if_splits)
    then show ?thesis
    proof cases
      case 1
      from event_loop_carries [OF 1 assms(2,3) inv(2)]
      show ?thesis by (rule carries_trans [OF a(1) carries_trans [OF a(2) carries_trans [OF b(1)]]])
    next
      case 2
      have i: "loop_inv env d0 wp" unfolding 2(1) by (rule inv(3))
      have "loop_inv env d1 w3" "d_cfg d1 = d_cfg d" using prune_advance [OF i 2(2)] 2(1) by (simp_all add: advance_def same_setup_def)
      then have "carries env (secret_of (d_cfg d)) w3 w'" using event_loop_carries [OF 2(3) assms(2,3)] by simp
      from carries_trans [OF prune_carries [OF i 2(2)] this]
      show ?thesis by (rule carries_trans [OF a(1) carries_trans [OF a(2) carries_trans [OF b(2)]]])
    qed
  qed
qed

lemma reachable_carries:
  assumes "loop_reachable env stk d0 w0 d w" and "sys_ok env stk" and "clock_steady env" and "loop_inv env d0 w0"
  shows "carries env (secret_of (d_cfg d0)) w0 w"
  using assms(1)
proof induction
  case (turn d w d' w')
  have "loop_inv env d w" "d_cfg d = d_cfg d0"
    using reachable_advance [OF turn(1) assms(2,4)] by (simp_all add: advance_def same_setup_def)
  then show ?case using process_carries [OF turn(2) assms(2,3)] carries_trans [OF turn.IH] by simp
qed simp

text \<open>Over the whole loop, the counters accepted from one address increase.\<close>

lemma accepted_increase:
  assumes "loop_reachable env stk d0 w0 d w" and "sys_ok env stk" and "clock_steady env" and "loop_inv env d0 w0"
    and "w_replay w0 = auth_replay_reset"
    and "inj_on replay_idx (fst ` set (accepted env (secret_of (d_cfg d0)) (trace w0) (calls_since w0 w)))"
  shows "sorted_wrt (<) (map snd (filter (\<lambda>a. fst a = ip) (accepted env (secret_of (d_cfg d0)) (trace w0) (calls_since w0 w))))"
proof -
  define clients where "clients = fst ` set (accepted env (secret_of (d_cfg d0)) (trace w0) (calls_since w0 w))"
  have "0 \<le> ret (env tr Time)" for tr using assms(2) by (simp add: sys_ok_def clock_env_def clock_ok_def)
  then have "- max_set_back \<le> ret (env tr Time)" for tr by (rule order.trans [rotated]) (simp add: max_set_back_def)
  then have "follows env (secret_of (d_cfg d0)) clients (trace w0) w0"
    unfolding follows_def using assms(5)
    by (intro exI [of _ replay_start] exI [of _ "[]"]) (simp add: replay_start_def replay_reachable_def)
  moreover have "\<exists>cs. trace w = trace w0 @ cs \<and> calls_since w0 w = cs"
    using reachable_carries [OF assms(1-4)] by (auto simp: carries_def calls_since_def)
  ultimately have "follows env (secret_of (d_cfg d0)) clients (trace w0) w"
    using reachable_carries [OF assms(1-4)] unfolding carries_def by (fastforce simp: clients_def)
  then obtain s where s: "replay_reachable (secret_of (d_cfg d0)) clients s"
    "rs_log s = rev (accepted env (secret_of (d_cfg d0)) (trace w0) (calls_since w0 w))"
    by (auto simp: follows_def calls_since_def)
  have "replay_inv clients s" by (rule replay_reachable_inv [OF _ s(1)]) (use assms(6) clients_def in simp)
  then show ?thesis unfolding replay_inv_def s(2) by (simp add: rev_filter [symmetric] rev_map [symmetric] sorted_wrt_rev)
qed

end
