(* ===== verification/Descriptors.thy ===== *)
theory Descriptors
  imports Run
begin

text \<open>
  The descriptors of the daemon, counted on the calls it makes: \<open>held\<close> adds those the system hands
  out and takes away those that are closed. The descriptors recorded in \<open>struct daemon\<close> and in the
  firewall's module (\<open>fds\<close>) are the ones held, at every step of \<open>daemon_setup\<close>, in the loop and
  while it stops, and none is left when a run ends.
\<close>

section \<open>Counting on a trace\<close>

definition opens :: "syscall \<Rightarrow> bool" where
  "opens c \<longleftrightarrow> (case c of Socket _ _ _ \<Rightarrow> True | Open _ \<Rightarrow> True | Epoll_create \<Rightarrow> True | Signalfd \<Rightarrow> True | _ \<Rightarrow> False)"

definition own :: "int \<Rightarrow> int multiset" where
  "own fd = (if 0 \<le> fd then {#fd#} else {#})"

text \<open>Closing a descriptor that is not held, as in closing twice, has no result.\<close>

fun held :: "env \<Rightarrow> syscall list \<Rightarrow> syscall list \<Rightarrow> int multiset \<Rightarrow> int multiset option" where
  "held env pre [] H = Some H"
| "held env pre (Close fd # cs) H = (if fd \<in># H then held env (pre @ [Close fd]) cs (H - {#fd#}) else None)"
| "held env pre (c # cs) H = held env (pre @ [c]) cs (if opens c then H + own (ret (env pre c)) else H)"

definition neutral :: "syscall \<Rightarrow> bool" where
  "neutral c \<longleftrightarrow> \<not> opens c \<and> (\<forall>fd. c \<noteq> Close fd)"

lemma opens_simps [simp]:
  "opens (Socket f t p)" "opens (Open s)" "opens Epoll_create" "opens Signalfd" "\<not> opens (Close fd)"
  by (simp_all add: opens_def)

lemma own_simps [simp]: "0 \<le> fd \<Longrightarrow> own fd = {#fd#}" "fd < 0 \<Longrightarrow> own fd = {#}"
  by (simp_all add: own_def)

lemma held_step:
  "\<forall>fd. c \<noteq> Close fd \<Longrightarrow> held env pre (c # cs) H = held env (pre @ [c]) cs (if opens c then H + own (ret (env pre c)) else H)"
  by (cases c) simp_all

lemma held_append: "held env pre (cs @ ds) H = Option.bind (held env pre cs H) (held env (pre @ cs) ds)"
  by (induction env pre cs H rule: held.induct) simp_all

lemma held_neutral: "\<forall>c \<in> set cs. neutral c \<Longrightarrow> held env pre cs H = Some H"
proof (induction cs arbitrary: pre)
  case (Cons c cs)
  then show ?case using held_step [of c] by (simp add: neutral_def)
qed simp

lemma held_frame: "held env pre cs H = Some H' \<Longrightarrow> held env pre cs (H + F) = Some (H' + F)"
proof (induction cs arbitrary: pre H)
  case (Cons c cs)
  show ?case
  proof (cases "\<exists>fd. c = Close fd")
    case True
    then obtain fd J where "c = Close fd" "H = add_mset fd J" using Cons.prems by (auto split: if_splits dest!: multi_member_split)
    then show ?thesis using Cons by simp
  next
    case False
    have "(if opens c then H + F + own (ret (env pre c)) else H + F) = (if opens c then H + own (ret (env pre c)) else H) + F"
      by (simp add: ac_simps)
    then show ?thesis using Cons.IH [of "pre @ [c]"] Cons.prems held_step [of c] False by simp
  qed
qed simp

lemma held_closes: "held env pre (map Close fds) (mset fds) = Some {#}"
  by (induction fds arbitrary: pre) simp_all

section \<open>What an operation does to them\<close>

definition moves :: "env \<Rightarrow> 'a os_scheme \<Rightarrow> int multiset \<Rightarrow> 'a os_scheme \<Rightarrow> int multiset \<Rightarrow> bool" where
  "moves env w H w' H' \<longleftrightarrow> (\<exists>cs. trace w' = trace w @ cs \<and> held env (trace w) cs H = Some H')"

definition keeps :: "'a nl_scheme \<Rightarrow> 'a nl_scheme \<Rightarrow> bool" where
  "keeps w w' \<longleftrightarrow> (\<exists>cs. trace w' = trace w @ cs \<and> (\<forall>c \<in> set cs. neutral c)) \<and> g_fd w' = g_fd w"

lemma moves_refl [simp]: "moves env w H w H"
  by (auto simp: moves_def)

lemma moves_trans: "moves env u H v J \<Longrightarrow> moves env v J w K \<Longrightarrow> moves env u H w K"
  by (fastforce simp: moves_def held_append)

lemma moves_frame: "moves env w H w' H' \<Longrightarrow> moves env w (H + F) w' (H' + F)"
  by (auto simp: moves_def dest: held_frame)

lemma moves_held: "moves env w H w' H' \<Longrightarrow> extends w w' \<and> held env (trace w) (calls_since w w') H = Some H'"
  by (auto simp: moves_def extends_def calls_since_def)

lemma moves_fields [simp]:
  "moves env w H (w'\<lparr>g_fd := x\<rparr>) H' \<longleftrightarrow> moves env w H w' H'" "moves env w H (w'\<lparr>g_seq := s\<rparr>) H' \<longleftrightarrow> moves env w H w' H'"
  "moves env w H (w'\<lparr>g_portid := p\<rparr>) H' \<longleftrightarrow> moves env w H w' H'"
  "moves env w H (w'\<lparr>g_next_handle := n\<rparr>) H' \<longleftrightarrow> moves env w H w' H'"
  by (simp_all add: moves_def)

lemma keeps_moves: "keeps w w' \<Longrightarrow> moves env w H w' H"
  by (auto simp: moves_def keeps_def intro: held_neutral)

lemma moves_neutral: "moves env w H w' J \<Longrightarrow> neutral c \<Longrightarrow> moves env w H (sys_do env c w') J"
  using held_neutral [of "[c]"] by (fastforce simp: moves_def held_append)

lemma moves_open: "moves env w H w' J \<Longrightarrow> opens c \<Longrightarrow> moves env w H (sys_do env c w') (J + own (ret (env (trace w') c)))"
  using held_step [of c] by (cases "\<exists>fd. c = Close fd") (auto simp: moves_def held_append)

lemma moves_close: "moves env w H w' (J + {#fd#}) \<Longrightarrow> moves env w H (sys_do env (Close fd) w') J"
  by (auto simp: moves_def held_append)

lemma moves_closes: "trace w' = trace w @ map Close fds \<Longrightarrow> moves env w (mset fds) w' {#}"
  using held_closes by (auto simp: moves_def)

lemma neutral_simps [simp]:
  "neutral (Set_v6only a)" "neutral (Fcntl_getfl a)" "neutral (Fcntl_setfl a b)" "neutral (Bind a adr)" "neutral (Getsockname a)"
  "neutral (Sendto a bytes adr)" "neutral (Poll a b)" "neutral (Recv a n)" "neutral (Log to p s)" "neutral Openlog" "neutral Closelog"
  "neutral Clock_monotonic" "neutral Getrlimit_nofile" "neutral Block_signals" "neutral (Epoll_add e fd m)"
  "neutral (Set_seccomp_filter f)" "neutral (Log_errno to p s e)" "neutral Getuid" "neutral Geteuid" "neutral (Getpwnam s)"
  "neutral (Getgrnam s)" "neutral (Setgroups gs)" "neutral (Setgid u)" "neutral (Setuid u)" "neutral (Prctl a as)" "neutral Capget"
  "neutral (Capset cs)"
  by (simp_all add: neutral_def opens_def)

lemma turn_call_neutral: "turn_call c \<Longrightarrow> neutral c"
  by (cases c) (simp_all add: turn_call_def neutral_def opens_def)

lemma keeps_trans: "keeps u v \<Longrightarrow> keeps v w \<Longrightarrow> keeps u w"
  by (fastforce simp: keeps_def)

lemma talk_neutral: "talk fd ms cs \<Longrightarrow> \<forall>c \<in> set cs. neutral c"
  by (auto simp: talk_def)

lemma talks_keeps: "talks ms w w' \<Longrightarrow> keeps w w'"
  using talk_neutral by (fastforce simp: talks_def keeps_def)

lemma loop_keeps: "advance env d w d' w' \<Longrightarrow> keeps w w'"
  using loop_ext_turn_calls turn_call_neutral unfolding advance_def keeps_def by blast

section \<open>Starting and stopping\<close>

text \<open>The descriptors the daemon has written down.\<close>

definition fds :: "daemon \<Rightarrow> 'a nl_scheme \<Rightarrow> int multiset" where
  "fds d w = mset (cleanup_closes d) + own (g_fd w)"

lemma open_fds_Cons [simp]: "mset (open_fds (fd # xs)) = own fd + mset (open_fds xs)" "open_fds [] = []"
  by (simp_all add: open_fds_def)

lemma open_fds_append [simp]: "open_fds (xs @ ys) = open_fds xs @ open_fds ys"
  by (simp add: open_fds_def)

lemma mset_cleanup_closes: "mset (cleanup_closes d) = own (signal_fd d) + own (epoll_fd d) + mset (open_fds (take (num_udp_fds d) (udp_fds d)))"
  by (simp add: cleanup_closes_def)

lemma cleanup_moves:
  assumes "daemon_cleanup env d w = Some (d', w')" and "num_udp_fds d \<le> length (udp_fds d)"
  shows "moves env w (fds d w) w' {#}"
proof -
  obtain cs where cs: "trace w' = trace w @ map Close (cleanup_closes d) @ cs @ (if foreground (d_cfg d) then [] else [Closelog])"
    "if g_fd w < 0 then cs = [] else \<exists>ds. cs = ds @ [Close (g_fd w)] \<and> talk (g_fd w) cleanup_msgs ds"
    using cleanup_calls(1) [OF assms] by blast
  have a: "held env (trace w) (map Close (cleanup_closes d)) (fds d w) = Some (own (g_fd w))"
    unfolding fds_def using held_frame [OF held_closes] by fastforce
  have b: "held env pre cs (own (g_fd w)) = Some {#}" for pre
  proof (cases "g_fd w < 0")
    case False
    then obtain ds where ds: "cs = ds @ [Close (g_fd w)]" "\<forall>c \<in> set ds. neutral c" using cs(2) talk_neutral by auto
    then show ?thesis using False by (simp add: held_append held_neutral)
  qed (use cs(2) in simp)
  have c: "held env pre (if foreground (d_cfg d) then [] else [Closelog]) {#} = Some {#}" for pre
    by (rule held_neutral) simp
  show ?thesis unfolding moves_def by (intro exI conjI, rule cs(1)) (simp only: held_append a b c bind.bind_lunit)
qed

lemma setup_fail_moves:
  assumes "setup_fail env msg d cfg w = Some (r, d', w')" and "num_udp_fds d \<le> length (udp_fds d)"
  shows "r = -1" and "moves env w (fds d w) w' {#}"
proof -
  have r: "r = -1" "daemon_cleanup env d (log_msg env cfg LOG_ERR msg w) = Some (d', w')" using setup_fail_result [OF assms(1)] by auto
  have "g_fd (log_msg env cfg LOG_ERR msg w) = g_fd w" by (simp add: log_msg_def sys_do_eq)
  then have "moves env (log_msg env cfg LOG_ERR msg w) (fds d w) w' {#}" using cleanup_moves [OF r(2) assms(2)] by (simp add: fds_def)
  moreover have "moves env w (fds d w) (log_msg env cfg LOG_ERR msg w) (fds d w)" by (simp add: log_msg_def moves_neutral)
  ultimately show "r = -1" "moves env w (fds d w) w' {#}" using r(1) moves_trans by blast+
qed

lemma netlink_init_moves:
  assumes "netlink_init env w = Some (r, w')"
  shows "moves env w {#} w' (own (g_fd w'))"
proof -
  define fd where "fd = ret (env (trace w) (Socket AF_NETLINK SOCK_RAW_CLOEXEC NETLINK_NETFILTER))"
  define w1 where "w1 = (sys_do env (Socket AF_NETLINK SOCK_RAW_CLOEXEC NETLINK_NETFILTER) w)\<lparr>g_fd := fd, g_seq := 0\<rparr>"
  have m1: "moves env w {#} w1 (own fd)" "g_fd w1 = fd"
    using moves_open [OF moves_refl, of "Socket AF_NETLINK SOCK_RAW_CLOEXEC NETLINK_NETFILTER" env w "{#}"] by (simp_all add: w1_def fd_def)
  have closed: "moves env w {#} (nl_close env v) (own (g_fd (nl_close env v)))" if "keeps w1 v" and "0 \<le> fd" for v
  proof -
    have "moves env w {#} v (own fd)" using m1(1) keeps_moves [OF that(1)] moves_trans by blast
    moreover have "g_fd v = fd" using that(1) m1(2) by (simp add: keeps_def)
    ultimately show ?thesis using that(2) moves_close [of env w "{#}" v "{#}" fd] by (simp add: nl_close_def Let_def)
  qed
  define w2 where "w2 = sys_do env (Bind fd nl_addr) w1"
  define w3 where "w3 = (sys_do env (Getsockname fd) w2)\<lparr>g_portid := rd32 4 (poke 0 (take 12 (peer (env (trace w2) (Getsockname fd)))) nl_addr)\<rparr>"
  have k: "keeps w1 w2" "keeps w1 w3" "keeps w1 (sys_do env (Getsockname fd) w2)" by (auto simp: keeps_def w2_def w3_def sys_do_eq)
  consider "fd < 0" "w' = (sys_do env (Socket AF_NETLINK SOCK_RAW_CLOEXEC NETLINK_NETFILTER) w)\<lparr>g_fd := fd\<rparr>"
    | "0 \<le> fd" "w' = nl_close env w2" | "0 \<le> fd" "w' = nl_close env (sys_do env (Getsockname fd) w2)"
    | "0 \<le> fd" "do {
      w \<leftarrow> netlink_delete_table env (ucast AF_INET) w3;
      w \<leftarrow> netlink_delete_table env (ucast AF_INET6) w;
      (r, w) \<leftarrow> netlink_create_family_batch env (ucast AF_INET) w;
      if r \<noteq> 0 then Some (-1, nl_close env w)
      else do {
        (r, w) \<leftarrow> netlink_create_family_batch env (ucast AF_INET6) w;
        if r \<noteq> 0 then Some (-1, nl_close env w) else Some (0 :: int, w\<lparr>g_next_handle := 6\<rparr>)
      } } = Some (r, w')"
    using assms unfolding netlink_init_def Let_def sys_eq prod.case
    by (auto simp: fd_def [symmetric] w1_def w2_def w3_def split: if_splits)
  then show ?thesis
  proof cases
    case 1
    then show ?thesis using m1(1) by (simp add: w1_def)
  next
    case 4
    then obtain a b q v where t: "netlink_delete_table env (ucast AF_INET) w3 = Some a" "netlink_delete_table env (ucast AF_INET6) a = Some b"
      "netlink_create_family_batch env (ucast AF_INET) b = Some (q, v)"
      and rest: "(if q \<noteq> 0 then Some (-1, nl_close env v)
      else do {
        (r, w) \<leftarrow> netlink_create_family_batch env (ucast AF_INET6) v;
        if r \<noteq> 0 then Some (-1, nl_close env w) else Some (0 :: int, w\<lparr>g_next_handle := 6\<rparr>)
      }) = Some (r, w')"
      by (auto simp: bind_eq_Some_conv split: if_splits)
    have kv: "keeps w1 v"
      using k(2) t(1,2) [THEN delete_table_talks, THEN talks_keeps] create_family_talks(1) [OF t(3), THEN talks_keeps] keeps_trans by blast
    consider "w' = nl_close env v" | p u where "netlink_create_family_batch env (ucast AF_INET6) v = Some (p, u)"
        "w' = nl_close env u \<or> w' = u\<lparr>g_next_handle := 6\<rparr>"
      using rest by (auto simp: bind_eq_Some_conv split: if_splits)
    then show ?thesis
    proof cases
      case 2
      then have ku: "keeps w1 u" using kv create_family_talks(1) [THEN talks_keeps] keeps_trans by blast
      then have "moves env w {#} u (own fd)" "g_fd u = fd"
        using m1 keeps_moves moves_trans by (blast, simp add: keeps_def)
      then show ?thesis using 2(2) closed [OF ku \<open>0 \<le> fd\<close>] by auto
    qed (use closed kv \<open>0 \<le> fd\<close> in simp)
  qed (use closed k in simp_all)
qed

text \<open>A step of the set-up leaves the descriptors written down, or none when it fails.\<close>

definition left :: "int \<Rightarrow> daemon \<Rightarrow> 'a nl_scheme \<Rightarrow> int multiset" where
  "left r d w = (if r = 0 then fds d w else {#})"

lemma setup_fail_left: "setup_fail env msg d cfg w = Some (r, d', w') \<Longrightarrow> num_udp_fds d \<le> length (udp_fds d) \<Longrightarrow>
    moves env w (fds d w) w' (left r d' w')"
  using setup_fail_moves by (fastforce simp: left_def)

lemma keeps_fds: "keeps v w \<Longrightarrow> moves env w (fds d w) w' H \<Longrightarrow> moves env v (fds d v) w' H"
  using keeps_moves [of v w env "fds d v"] moves_trans by (fastforce simp: keeps_def fds_def)

lemma setup_step_moves:
  assumes "setup_step env msg d cfg m k = Some (r, d', w')" and "num_udp_fds d \<le> length (udp_fds d)"
    and "\<And>q u. m = Some (q, u) \<Longrightarrow> keeps v u"
    and "\<And>u. k u = Some (r, d', w') \<Longrightarrow> moves env u (fds d u) w' (left r d' w')"
  shows "moves env v (fds d v) w' (left r d' w')"
proof -
  obtain q u where u: "m = Some (q, u)" "(if q \<noteq> 0 then setup_fail env msg d cfg u else k u) = Some (r, d', w')"
    using assms(1) unfolding setup_step_def by (cases m) auto
  then have "moves env u (fds d u) w' (left r d' w')" using setup_fail_left assms(2,4) by (cases "q = 0") auto
  then show ?thesis using keeps_fds assms(3) u(1) by blast
qed

lemma setup_netlink_moves:
  assumes "daemon_setup_netlink env d cfg w = Some (r, d', w')" and "config_ok cfg"
    and "num_udp_fds d = 0" and "signal_fd d < 0" and "epoll_fd d < 0"
  shows "moves env w {#} w' (left r d' w')"
proof -
  have n: "num_udp_fds d \<le> length (udp_fds d)" and c: "fds d v = own (g_fd v)" for v :: "'a nl_scheme"
    using assms(3-5) by (simp_all add: fds_def mset_cleanup_closes)
  have ok: "iface_ok (iface_arg cfg)" using iface_arg_ok [OF assms(2)] by simp
  define drop_step where "drop_step v = setup_step env ''netlink_add_default_drop failed'' d cfg
      (netlink_add_default_drop env (target_port cfg) (iface_arg cfg) v) (\<lambda>w. Some (0, d, w))" for v :: "'a nl_scheme"
  define jump_step where "jump_step v = setup_step env ''netlink_add_jump_allowed failed'' d cfg (netlink_add_jump_allowed env v) drop_step"
    for v :: "'a nl_scheme"
  define rules_step where "rules_step v = setup_step env ''netlink_add_established_rule failed'' d cfg
      (netlink_add_established_rule env (iface_arg cfg) v) jump_step" for v :: "'a nl_scheme"
  have dr: "moves env v (fds d v) w' (left r d' w')" if "drop_step v = Some (r, d', w')" for v
    by (rule setup_step_moves [OF that [unfolded drop_step_def] n])
      (auto simp: netlink_add_default_drop_def left_def dest: drop_rules.loop_talks [OF _ ok] talks_keeps)
  have ju: "moves env v (fds d v) w' (left r d' w')" if "jump_step v = Some (r, d', w')" for v
    by (rule setup_step_moves [OF that [unfolded jump_step_def] n _ dr]) (auto simp: netlink_add_jump_allowed_def dest: jump.loop_talks talks_keeps)
  have rules: "moves env v (fds d v) w' (left r d' w')" if "rules_step v = Some (r, d', w')" for v
    by (rule setup_step_moves [OF that [unfolded rules_step_def] n _ ju])
      (auto simp: netlink_add_established_rule_def dest: established.loop_talks [OF _ ok] talks_keeps)
  obtain q u where i: "netlink_init env w = Some (q, u)" and
    k: "(if q \<noteq> 0 then setup_fail env ''netlink_init failed'' d cfg u else do {
       (r, w) \<leftarrow> netlink_flush_chain env u;
       rules_step (if r \<noteq> 0 then log_msg env cfg LOG_WARNING ''netlink_flush_chain failed'' w else w) }) = Some (r, d', w')"
    using assms(1) unfolding daemon_setup_netlink_def setup_step_def [of _ _ _ _ "netlink_init env w"] Let_def
      rules_step_def jump_step_def [abs_def] drop_step_def [abs_def]
    by (cases "netlink_init env w") auto
  have "moves env u (fds d u) w' (left r d' w')"
  proof (cases "q = 0")
    case True
    then obtain v where "netlink_flush_chain env u = Some (0, v)" "rules_step v = Some (r, d', w')"
      using k flush_talks by (cases "netlink_flush_chain env u") (fastforce simp: netlink_flush_chain_def)+
    then show ?thesis using rules keeps_fds flush_talks talks_keeps unfolding netlink_flush_chain_def by blast
  qed (use k setup_fail_left n in auto)
  then show ?thesis using netlink_init_moves [OF i] moves_trans by (fastforce simp: c)
qed

lemma udp_open_moves:
  assumes "udp_open env adr len w = (fd, w')"
  shows "moves env w {#} w' (own fd)" and "os.more w' = os.more w"
proof -
  let ?S = "Socket (ss_family adr) SOCK_DGRAM 0"
  define s where "s = ret (env (trace w) ?S)"
  define v where "v = (if ss_family adr = AF_INET6 then sys_do env (Set_v6only s) (sys_do env ?S w) else sys_do env ?S w)"
  have m0: "moves env w {#} (sys_do env ?S w) (own s)" using moves_open [OF moves_refl, of ?S env w "{#}"] by (simp add: s_def)
  have v: "moves env w {#} v (own s)" unfolding v_def by (split if_split) (blast intro: m0 moves_neutral [OF m0] neutral_simps)
  define v1 where "v1 = sys_do env (Fcntl_getfl s) v"
  define flags where "flags = ret (env (trace v) (Fcntl_getfl s))"
  define v2 where "v2 = sys_do env (Fcntl_setfl s (flags OR O_NONBLOCK)) v1"
  define v3 where "v3 = sys_do env (Bind s (take len adr)) v2"
  have m: "moves env w {#} v1 (own s)" "moves env w {#} v2 (own s)" "moves env w {#} v3 (own s)"
    using v by (simp_all add: v1_def v2_def v3_def moves_neutral)
  have "s < 0 \<and> fd = -1 \<and> w' = sys_do env ?S w \<or> 0 \<le> s \<and> (fd = -1 \<and> w' \<in> sys_do env (Close s) ` {v1, v2, v3} \<or> fd = s \<and> w' = v3)"
    using assms unfolding udp_open_def Let_def sys_eq prod.case s_def [symmetric] v_def [symmetric] v1_def [symmetric]
      flags_def [symmetric] v2_def [symmetric] v3_def [symmetric] by (auto split: if_splits)
  then show "moves env w {#} w' (own fd)"
    using m m0 moves_close [of env w "{#}" _ "{#}" s] by auto
  show "os.more w' = os.more w" using assms by (auto simp: udp_open_def Let_def sys_eq split: if_splits)
qed

lemma take_update: "i < length xs \<Longrightarrow> take (Suc i) (xs[i := x]) = take i xs @ [x]"
  by (simp add: take_Suc_conv_app_nth)

lemma open_ports_moves:
  assumes "open_ports env is d cfg w = Some (r, d', w')" and "is = [num_udp_fds d..<n]" and "n \<le> length (udp_fds d)"
    and "num_udp_fds d \<le> n"
  shows "moves env w (fds d w) w' (left r d' w') \<and> (r = 0 \<longrightarrow> signal_fd d' = signal_fd d \<and> num_udp_fds d' \<le> length (udp_fds d'))"
  using assms
proof (induction "is" arbitrary: d w)
  case Nil
  then show ?case by (simp add: left_def)
next
  case (Cons i "is")
  have i: "i = num_udp_fds d" "is = [Suc (num_udp_fds d)..<n]" "num_udp_fds d < n"
    using Cons.prems(2) [symmetric] unfolding upt_eq_Cons_conv by auto
  obtain fd w1 where u: "udp_open env (la_addr (ports cfg ! i)) (la_addrlen (ports cfg ! i)) w = (fd, w1)"
    by (cases "udp_open env (la_addr (ports cfg ! i)) (la_addrlen (ports cfg ! i)) w")
  define d0 where "d0 = d\<lparr>udp_fds := (udp_fds d)[i := fd]\<rparr>"
  define d1 where "d1 = d0\<lparr>num_udp_fds := i + 1\<rparr>"
  define w2 where "w2 = sys_do env (Epoll_add (epoll_fd d) fd (EPOLLIN OR EPOLLET)) w1"
  have g: "g_fd w1 = g_fd w" "g_fd w2 = g_fd w" using more_nl(1) [OF udp_open_moves(2) [OF u]] by (simp_all add: w2_def sys_do_eq)
  have n: "num_udp_fds d0 \<le> length (udp_fds d0)" "num_udp_fds d1 \<le> length (udp_fds d1)"
    using Cons.prems(3) i by (simp_all add: d0_def d1_def)
  have f0: "fds d0 w1 = fds d w" using i by (simp add: fds_def mset_cleanup_closes d0_def g)
  have f1: "fds d1 w2 = fds d w + own fd"
    using i Cons.prems(3) by (simp add: fds_def mset_cleanup_closes d1_def d0_def g take_update ac_simps)
  have m1: "moves env w (fds d w) w1 (fds d w + own fd)"
    using moves_frame [OF udp_open_moves(1) [OF u], of "fds d w"] by (simp add: ac_simps)
  then have m2: "moves env w (fds d w) w2 (fds d1 w2)" unfolding f1 by (simp add: w2_def moves_neutral)
  consider "fd < 0" "setup_fail env ''udp_open failed'' d0 cfg w1 = Some (r, d', w')"
    | "setup_fail env ''epoll_ctl ADD udp failed'' d1 cfg w2 = Some (r, d', w')" | "open_ports env is d1 cfg w2 = Some (r, d', w')"
    using Cons.prems(1) by (auto simp: u Let_def sys_eq d0_def d1_def w2_def split: if_splits)
  then show ?case
  proof cases
    case 1
    note f = setup_fail_moves [OF 1(2) n(1), unfolded f0]
    have "moves env w (fds d w) w1 (fds d w)" using m1 1(1) by simp
    then show ?thesis using moves_trans [OF _ f(2)] f(1) by (simp add: left_def)
  next
    case 2
    note f = setup_fail_moves [OF 2 n(2)]
    show ?thesis using moves_trans [OF m2 f(2)] f(1) by (simp add: left_def)
  next
    case 3
    have "moves env w2 (fds d1 w2) w' (left r d' w') \<and> (r = 0 \<longrightarrow> signal_fd d' = signal_fd d1 \<and> num_udp_fds d' \<le> length (udp_fds d'))"
      by (rule Cons.IH [OF 3]) (use i Cons.prems(3) in \<open>simp_all add: d1_def d0_def\<close>)
    moreover have "signal_fd d1 = signal_fd d" by (simp add: d1_def d0_def)
    ultimately show ?thesis using moves_trans [OF m2] by simp
  qed
qed

lemma setup_epoll_moves:
  assumes "daemon_setup_epoll env d cfg w = Some (r, d', w')" and "config_ok cfg"
    and "length (udp_fds d) = 8" and "num_udp_fds d = 0" and "signal_fd d < 0" and "epoll_fd d < 0"
  shows "moves env w (fds d w) w' (left r d' w')"
proof -
  define d1 where "d1 = d\<lparr>epoll_fd := ret (env (trace w) Epoll_create)\<rparr>"
  define w1 where "w1 = sys_do env Epoll_create w"
  have n: "num_udp_fds d1 \<le> length (udp_fds d1)" "[0..<num_ports cfg] = [num_udp_fds d1..<num_ports cfg]"
    "num_ports cfg \<le> length (udp_fds d1)" "num_udp_fds d1 \<le> num_ports cfg"
    using assms(2-4) by (simp_all add: d1_def config_ok_def)
  have "fds d1 w1 = fds d w + own (ret (env (trace w) Epoll_create))"
    using assms(4-6) by (simp add: fds_def mset_cleanup_closes d1_def w1_def sys_do_eq)
  then have m1: "moves env w (fds d w) w1 (fds d1 w1)" using moves_open [OF moves_refl, of Epoll_create env w "fds d w"] by (simp add: w1_def)
  show ?thesis
  proof (cases "epoll_fd d1 < 0")
    case True
    then have "setup_fail env ''epoll_create1 failed'' d1 cfg w1 = Some (r, d', w')"
      using assms(1) unfolding daemon_setup_epoll_def sys_eq Let_def prod.case d1_def [symmetric] w1_def [symmetric] by simp
    from moves_trans [OF m1 setup_fail_left [OF this n(1)]] show ?thesis .
  next
    case False
    then obtain q d2 w2 where o: "open_ports env [0..<num_ports cfg] d1 cfg w1 = Some (q, d2, w2)"
      and k: "(if q \<noteq> 0 then Some (-1, d2, w2)
          else
            let w = sys_do env Block_signals w2;
                (r, w) = sys env Signalfd w;
                d = d2\<lparr>signal_fd := ret r\<rparr> in
            if signal_fd d < 0 then setup_fail env ''signalfd failed'' d cfg w
            else
              let (r, w) = sys env (Epoll_add (epoll_fd d) (signal_fd d) EPOLLIN) w in
              if ret r \<noteq> 0 then setup_fail env ''epoll_ctl ADD signalfd failed'' d cfg w
              else Some (0, d, w)) = Some (r, d', w')"
      using assms(1) unfolding daemon_setup_epoll_def sys_eq Let_def prod.case d1_def [symmetric] w1_def [symmetric]
      by (cases "open_ports env [0..<num_ports cfg] d1 cfg w1") auto
    note p = open_ports_moves [OF o n(2,3,4)]
    have m2: "moves env w (fds d w) w2 (left q d2 w2)" using moves_trans [OF m1] p by blast
    show ?thesis
    proof (cases "q = 0")
      case False
      then show ?thesis using k m2 by (auto simp: left_def)
    next
      case True
      define v where "v = sys_do env Block_signals w2"
      define d3 where "d3 = d2\<lparr>signal_fd := ret (env (trace v) Signalfd)\<rparr>"
      define w3 where "w3 = sys_do env Signalfd v"
      define w4 where "w4 = sys_do env (Epoll_add (epoll_fd d3) (signal_fd d3) EPOLLIN) w3"
      have s: "signal_fd d2 < 0" "num_udp_fds d3 \<le> length (udp_fds d3)" using p True assms(5) by (simp_all add: d1_def d3_def)
      then have f: "fds d3 w3 = fds d2 w2 + own (ret (env (trace v) Signalfd))" "fds d3 w4 = fds d3 w3"
        by (simp_all add: fds_def mset_cleanup_closes d3_def w3_def w4_def v_def sys_do_eq)
      have "moves env w (fds d w) v (fds d2 w2)" using m2 True by (simp add: left_def v_def moves_neutral)
      then have m3: "moves env w (fds d w) w3 (fds d3 w3)" unfolding f(1) unfolding w3_def by (rule moves_open) simp
      then have m4: "moves env w (fds d w) w4 (fds d3 w4)" unfolding f(2) by (simp add: w4_def moves_neutral)
      consider "setup_fail env ''signalfd failed'' d3 cfg w3 = Some (r, d', w')"
        | "setup_fail env ''epoll_ctl ADD signalfd failed'' d3 cfg w4 = Some (r, d', w')" | "r = 0" "d' = d3" "w' = w4"
      proof -
        have "(if signal_fd d3 < 0 then setup_fail env ''signalfd failed'' d3 cfg w3
            else if ret (env (trace w3) (Epoll_add (epoll_fd d3) (signal_fd d3) EPOLLIN)) \<noteq> 0
              then setup_fail env ''epoll_ctl ADD signalfd failed'' d3 cfg w4 else Some (0, d3, w4)) = Some (r, d', w')"
          using k unfolding True sys_eq Let_def prod.case v_def [symmetric] d3_def [symmetric] w3_def [symmetric] w4_def [symmetric]
          by (simp only: simp_thms if_False)
        with that show thesis
          by (cases "signal_fd d3 < 0"; cases "ret (env (trace w3) (Epoll_add (epoll_fd d3) (signal_fd d3) EPOLLIN)) = 0")
            (simp_all only: simp_thms if_True if_False option.inject prod.inject)
      qed
      then show ?thesis
      proof cases
        case 1
        from moves_trans [OF m3 setup_fail_left [OF 1 s(2)]] show ?thesis .
      next
        case 2
        from moves_trans [OF m4 setup_fail_left [OF 2 s(2)]] show ?thesis .
      qed (use m4 in \<open>simp add: left_def\<close>)
    qed
  qed
qed

lemma setup_moves:
  assumes "daemon_setup env d cfg w = Some (r, d', w')" and "config_ok cfg"
  shows "moves env w {#} w' (left r d' w')"
proof -
  define x where "x = ret (env (trace w) Clock_monotonic)"
  define lim where "lim = env (trace (sys_do env Clock_monotonic w)) Getrlimit_nofile"
  define d1 where "d1 = d\<lparr>d_cfg := cfg, udp_fds := replicate MAX_PORTS (-1), num_udp_fds := 0, epoll_fd := -1, signal_fd := -1,
     last_prune := x, rules := zero_rules, num_rules := 0,
     maxevents := if ret lim = 0 \<and> rd64 0 (data lim) < word_of_int EPOLL_MAXEVENTS then uint (rd64 0 (data lim)) else EPOLL_MAXEVENTS\<rparr>"
  define w1 where "w1 = (if foreground cfg then sys_do env Getrlimit_nofile (sys_do env Clock_monotonic w)
     else sys_do env Openlog (sys_do env Getrlimit_nofile (sys_do env Clock_monotonic w)))"
  have d1: "length (udp_fds d1) = 8" "num_udp_fds d1 = 0" "signal_fd d1 < 0" "epoll_fd d1 < 0" by (simp_all add: d1_def MAX_PORTS_def)
  have m1: "moves env w {#} w1 {#}" by (simp add: w1_def moves_neutral)
  obtain q d2 w2 where a: "daemon_setup_netlink env d1 cfg w1 = Some (q, d2, w2)"
    and b: "(if q \<noteq> 0 then Some (-1 :: int, d2, w2) else do {
           (r, d, w) \<leftarrow> daemon_setup_epoll env d2 cfg w2;
           if r \<noteq> 0 then Some (-1, d, w) else Some (0, d, w) }) = Some (r, d', w')"
    using assms(1) unfolding daemon_setup_def sys_eq Let_def prod.case lim_def [symmetric] x_def [symmetric] w1_def [symmetric]
    by (cases "daemon_setup_netlink env d1 cfg w1") (auto simp: d1_def)
  note m2 = moves_trans [OF m1 setup_netlink_moves [OF a assms(2) d1(2-4)]]
  show ?thesis
  proof (cases "q = 0")
    case False
    then show ?thesis using b m2 by (simp add: left_def)
  next
    case True
    then have "d2 = d1" using setup_netlink_success(1) a assms(2) by blast
    then obtain p where p: "daemon_setup_epoll env d1 cfg w2 = Some (p, d', w')" "r = 0 \<longleftrightarrow> p = 0"
      using b True by (cases "daemon_setup_epoll env d2 cfg w2") (auto split: if_splits)
    have "left r d' w' = left p d' w'" using p(2) by (simp add: left_def)
    moreover have "moves env w {#} w2 (fds d1 w2)" using m2 True \<open>d2 = d1\<close> by (simp add: left_def)
    ultimately show ?thesis using moves_trans [OF _ setup_epoll_moves [OF p(1) assms(2) d1]] by simp
  qed
qed

section \<open>The whole run\<close>

lemma keeps_sys [simp]: "neutral c \<Longrightarrow> keeps w w' \<Longrightarrow> keeps w (sys_do env c w')"
  by (auto simp: keeps_def sys_do_eq)

lemma keeps_refl [simp]: "keeps w w"
  by (auto simp: keeps_def)

lemma keeps_log [simp]: "keeps w w' \<Longrightarrow> keeps w (priv_log_errno env fg p msg w')" "keeps w w' \<Longrightarrow> keeps w (priv_log_msg env fg p msg w')"
  by (simp_all add: priv_log_errno_def priv_log_msg_def)

lemma drop_privileges_keeps_fds:
  assumes "drop_privileges env user grp fg w = (r, w')"
  shows "keeps w w'"
proof -
  have lookup: "keeps v (snd (snd (lookup_user_group env user grp fg v)))" for v :: "'a nl_scheme"
    by (simp add: lookup_user_group_def Let_def sys_eq)
  have ids: "keeps v (snd (drop_ids env gid uid fg v))" for gid uid and v :: "'a nl_scheme"
    by (simp add: drop_ids_def drop_id_def Let_def sys_eq)
  have fin: "keeps v (finish_drop env fg v)" for v :: "'a nl_scheme"
    by (simp add: finish_drop_def keep_net_admin_def Let_def sys_eq)
  define v where "v = (if ret (env (trace w) Getuid) \<noteq> 0 then sys_do env Geteuid (sys_do env Getuid w) else sys_do env Getuid w)"
  define gu where "gu = lookup_user_group env user grp fg v"
  define w1 where "w1 = sys_do env (Prctl PR_SET_KEEPCAPS [1, 0, 0, 0]) (snd (snd gu))"
  define w2 where "w2 = (if ret (env (trace (snd (snd gu))) (Prctl PR_SET_KEEPCAPS [1, 0, 0, 0])) \<noteq> 0
      then priv_log_errno env fg LOG_WARNING ''warning: PR_SET_KEEPCAPS: '' w1 else w1)"
  define w3 where "w3 = snd (drop_ids env (fst (snd gu)) (fst gu) fg w2)"
  have "keeps w v" by (simp add: v_def)
  then have "keeps w (snd (snd gu))" using lookup keeps_trans unfolding gu_def by blast
  then have "keeps w w2" by (simp add: w2_def w1_def)
  then have w3: "keeps w w3" using ids keeps_trans unfolding w3_def by blast
  moreover have "keeps w (finish_drop env fg w3)" using keeps_trans [OF w3 fin] .
  moreover have "w' = sys_do env (Prctl PR_SET_NO_NEW_PRIVS [1, 0, 0, 0]) v \<or> w' = w3 \<or> w' = finish_drop env fg w3"
    using assms by (auto simp: drop_privileges_def Let_def sys_eq split_beta v_def w3_def w2_def w1_def gu_def split: if_splits)
  ultimately show ?thesis using \<open>keeps w v\<close> by auto
qed

lemma entry_moves:
  assumes "daemon_setup env d cfg w = Some (0, d1, u)" and "config_ok cfg"
    and "drop_privileges env (cfg_user cfg) (cfg_group cfg) (foreground cfg) u = (p, v)"
  shows "moves env w {#} v (fds d1 v)"
  using moves_trans [OF setup_moves [OF assms(1,2)] keeps_moves] drop_privileges_keeps_fds [OF assms(3)]
  by (simp add: left_def keeps_def fds_def)

lemma run_moves:
  assumes "daemon_run env tgt stk d cfg w = Some (r, w')" and "config_ok cfg" and "tables_ok w" and "sys_ok env stk"
  shows "moves env w {#} w' {#}" and "r = (if \<exists>d1 w1. loop_entry env tgt d cfg w d1 w1 then 0 else 1)"
proof -
  obtain q d1 u where s: "daemon_setup env d cfg w = Some (q, d1, u)" using assms(1) by (auto simp: daemon_run_def bind_eq_Some_conv)
  have "moves env w {#} w' {#} \<and> r = (if \<exists>d1 w1. loop_entry env tgt d cfg w d1 w1 then 0 else 1)"
  proof (cases "q = 0")
    case False
    then show ?thesis using assms(1) s setup_moves [OF s assms(2)] by (auto simp: daemon_run_def left_def loop_entry_def)
  next
    case True
    note su = setup_success [OF s [unfolded True] assms(2)]
    obtain p v where p: "drop_privileges env (cfg_user cfg) (cfg_group cfg) (foreground cfg) u = (p, v)" by (meson surj_pair)
    note m = entry_moves [OF s [unfolded True] assms(2) p]
    have n: "num_udp_fds d1 \<le> length (udp_fds d1)" using su(8,9) assms(2) by (simp add: config_ok_def)
    show ?thesis
    proof (cases "p = 0")
      case False
      then obtain d2 where "daemon_cleanup env d1 v = Some (d2, w')" "r = 1" using assms(1) s True p by (auto simp: daemon_run_def bind_eq_Some_conv)
      moreover have "\<not> loop_entry env tgt d cfg w d2 w2" for d2 w2 using s p False by (auto simp: loop_entry_def)
      ultimately show ?thesis using moves_trans [OF m cleanup_moves [OF _ n]] by auto
    next
      case p0: True
      obtain i w1 where i: "install_seccomp env tgt (foreground cfg) v = (i, w1)" by (meson surj_pair)
      then have e: "loop_entry env tgt d cfg w d1 w1" using s True p p0 by (auto simp: loop_entry_def)
      note es = entry_state [OF e assms(2,3)]
      have k: "keeps v w1" using i by (auto simp: install_seccomp_def apply_filter_def msg_fail_def msg_ok_def sys_eq Let_def split: if_splits)
      obtain d2 w2 d3 where l: "run_loop env stk cfg d1 w1 = Some (d2, w2)" and c: "daemon_cleanup env d2 w2 = Some (d3, w')" and r: "r = 0"
        using assms(1) s True p p0 i by (auto simp: daemon_run_def Let_def bind_eq_Some_conv)
      have a: "advance env d1 w1 d2 w2" by (rule run_loop_advance [OF l assms(4) es(1)])
      have kv: "keeps v w2" using keeps_trans [OF k loop_keeps [OF a]] .
      have same: "signal_fd d2 = signal_fd d1" "epoll_fd d2 = epoll_fd d1" "udp_fds d2 = udp_fds d1" "num_udp_fds d2 = num_udp_fds d1"
        using a by (simp_all add: advance_def same_setup_def)
      then have "fds d2 w2 = fds d1 v" using kv by (simp add: fds_def mset_cleanup_closes keeps_def)
      then have "moves env w {#} w2 (fds d2 w2)" using moves_trans [OF m keeps_moves [OF kv]] by simp
      from moves_trans [OF this cleanup_moves [OF c]] show ?thesis using n same r e by auto
    qed
  qed
  then show "moves env w {#} w' {#}" "r = (if \<exists>d1 w1. loop_entry env tgt d cfg w d1 w1 then 0 else 1)" by auto
qed

end
