(* ===== verification/Knock.thy ===== *)
theory Knock
  imports Admission Secret_File Replies Replay_Loop Descriptors
begin

text \<open>
  A concrete system: the daemon is started on it with a small configuration, a client that knows
  the secret sends its packet, and the port is opened. The properties of the development are
  applied to it.
\<close>

section \<open>The system\<close>

definition knock_peer :: "byte list" where
  "knock_peer = le16_bytes AF_INET @ [48, 57, 10, 0, 0, 1] @ replicate 8 0"

text \<open>
  Every request is granted, the clocks stand at zero, a wait reports the daemon's socket, and the
  first receive after it brings the client's packet.
\<close>

definition knock :: "byte list \<Rightarrow> env" where
  "knock secret tr c =
     \<lparr>ret = (case c of
          Sendto fd b a \<Rightarrow> int (length b)
        | Recvfrom fd n \<Rightarrow> if recvs_since_wait tr = 0 \<and> 6 \<le> n then 6 else -1
        | Socket f t p \<Rightarrow> 3 | Epoll_create \<Rightarrow> 4 | Signalfd \<Rightarrow> 5 | Epoll_wait e m t \<Rightarrow> 1
        | _ \<Rightarrow> 0),
      err = EAGAIN,
      data = (case c of Recvfrom fd n \<Rightarrow> client_packet secret 0 | _ \<Rightarrow> []),
      peer = (case c of Recvfrom fd n \<Rightarrow> knock_peer | _ \<Rightarrow> []),
      ready = [3]\<rparr>"

definition knock_stack :: stack where
  "knock_stack tr = \<lparr>fr_src_ip = zero_ip, fr_addrbuf = replicate 128 0, fr_buf = replicate 256 0, fr_src = replicate 128 0\<rparr>"

definition knock_config :: config where
  "knock_config = (set_port 0 (any_in4 2222) default_config)\<lparr>num_ports := 1, secret_len := 2, foreground := True\<rparr>"

definition boot :: world where
  "boot = \<lparr>trace = [], errno = 0, g_fd = -1, g_seq = 0, g_portid = 0, g_next_handle = 0,
     w_replay = auth_replay_reset, w_rates = rate_limit_reset\<rparr>"

definition idle_daemon :: daemon where
  "idle_daemon = \<lparr>d_cfg = knock_config, udp_fds = 3 # replicate 7 (-1), num_udp_fds = 1, epoll_fd = 4, signal_fd = 5,
     maxevents = 64, last_prune = 0, rules = zero_rules, num_rules = 0\<rparr>"

abbreviation knock_secret :: "byte list" where
  "knock_secret \<equiv> secret_of knock_config"

lemma knock_config_ok: "config_ok knock_config" and knock_config_fields [simp]: "num_ports knock_config = 1"
    "length knock_secret = 2"
proof -
  have "options_ok (set_port 0 (any_in4 2222) default_config)" by (rule set_port_ok [OF default_config_ok]) simp_all
  then show "config_ok knock_config" by (simp add: knock_config_def options_ok_def config_ok_def)
  show "num_ports knock_config = 1" "length knock_secret = 2"
    by (simp_all add: knock_config_def secret_of_def set_port_def default_config_def opt_consts)
qed

lemma boot_tables: "tables_ok boot"
  by (simp add: tables_ok_def boot_def auth_replay_reset_def rate_limit_reset_def REPLAY_TABLE_SIZE_def RATE_TABLE_SIZE_def)

lemma length_client_packet: "length (client_packet secret clock) = 6"
proof -
  have "unat (totp_generate secret c 6) < 10 ^ 6" for c using hotp_less [of secret c 6] by (simp add: totp_generate_def)
  then have "length (dec_string (unat (totp_generate secret c 6))) \<le> 6" for c by (intro length_dec_string) auto
  then show ?thesis by (simp add: client_packet_def fmt_06u_def Let_def)
qed

lemma knock_grants: "grants (knock secret)"
  by (simp add: grants_def knock_def)

lemma knock_peer_ok: "ip_peer knock_peer" "sender_ip knock_peer = v4_key [10, 0, 0, 1]"
proof -
  have "ss_family knock_peer = AF_INET" unfolding knock_peer_def by (rule ss_family_le16)
  then show "ip_peer knock_peer" "sender_ip knock_peer = v4_key [10, 0, 0, 1]"
    by (simp_all add: ip_peer_def sender_ip_def sin_addr_def knock_peer_def)
qed

lemma knock_sys_ok: "sys_ok (knock secret) knock_stack"
  by (simp add: sys_ok_def udp_kernel_def clock_env_def clock_ok_def frame_ok_def knock_def knock_stack_def
      length_client_packet knock_peer_ok ip_wf_def zero_ip_def ss_wf_def Let_def)

lemma knock_steady: "clock_steady (knock secret)"
  by (simp add: clock_steady_def knock_def max_set_back_def)

lemma knock_drains: "drains (knock secret) 1"
  by (simp add: drains_def knock_def EAGAIN_def EINTR_def Let_def)

lemma idle_daemon_ok: "rules_ok idle_daemon" "open_rules idle_daemon = []" "d_cfg idle_daemon = knock_config" "sources_ok idle_daemon"
proof -
  show o: "open_rules idle_daemon = []" by (simp add: idle_daemon_def open_rules_def zero_rules_def zero_rule_def)
  show "rules_ok idle_daemon" by (simp add: idle_daemon_def rules_ok_def zero_rules_def zero_rule_def MAX_DYNAMIC_RULES_def)
  show "d_cfg idle_daemon = knock_config" by (simp add: idle_daemon_def)
  show "sources_ok idle_daemon" by (simp add: sources_ok_def all_open_def o)
qed

text \<open>The same system, without signal descriptors: a start fails at its last step.\<close>

definition no_signalfd :: env where
  "no_signalfd tr c = (if c = Signalfd then (knock [] tr c)\<lparr>ret := -1\<rparr> else knock [] tr c)"

section \<open>The knock\<close>

text \<open>The loop is entered with the daemon's one socket polled.\<close>

lemma knock_entry:
  obtains d1 w1 where "loop_entry (knock secret) tgt d knock_config boot d1 w1" and "udp_fds d1 ! 0 = 3" and "signal_fd d1 = 5"
    and "num_udp_fds d1 = 1" and "last_prune d1 = 0"
proof -
  obtain d1 w1 where e: "loop_entry (knock secret) tgt d knock_config boot d1 w1"
    using entry_granted [OF knock_grants knock_config_ok] by blast
  note st = entry_state [OF e knock_config_ok boot_tables]
  have "listening (knock secret) knock_config (trace w1) 0 (udp_fds d1 ! 0)" using st(9) by simp
  then have "udp_fds d1 ! 0 = 3" by (auto simp: listening_def knock_def)
  moreover have "signal_fd d1 = 5" "last_prune d1 = 0" using st(10,13) by (auto simp: knock_def)
  ultimately show thesis using that e st(5) by simp
qed

lemma knock_recv:
  assumes "length buf = 256"
  shows "recvs_since_wait (trace w) = 0 \<Longrightarrow> \<exists>n. udp_recv (knock secret) fd buf src (Some 128) w =
      Some (\<lparr>r_n = 6, r_buf = poke 0 (client_packet secret 0) buf, r_src = poke 0 knock_peer src, r_srclen = n\<rparr>,
        sys_do (knock secret) (Recvfrom fd 256) w)"
    and "recvs_since_wait (trace w) \<noteq> 0 \<Longrightarrow> \<exists>r. udp_recv (knock secret) fd buf src (Some 128) w =
      Some (r, sys_do (knock secret) (Recvfrom fd 256) w) \<and> r_n r = -1"
proof -
  have len: "length knock_peer = 16" by (simp add: knock_peer_def)
  show "\<exists>n. udp_recv (knock secret) fd buf src (Some 128) w =
      Some (\<lparr>r_n = 6, r_buf = poke 0 (client_packet secret 0) buf, r_src = poke 0 knock_peer src, r_srclen = n\<rparr>,
        sys_do (knock secret) (Recvfrom fd 256) w)" if "recvs_since_wait (trace w) = 0"
    using that assms by (subst udp_recv.simps) (simp add: sys_eq knock_def Let_def length_client_packet len)
  show "\<exists>r. udp_recv (knock secret) fd buf src (Some 128) w =
      Some (r, sys_do (knock secret) (Recvfrom fd 256) w) \<and> r_n r = -1" if "recvs_since_wait (trace w) \<noteq> 0"
    using that assms by (subst udp_recv.simps) (simp add: sys_eq sys_errno knock_def Let_def EAGAIN_def EINTR_def)
qed

lemma fresh_source:
  "replay_lookup auth_replay_reset (v4_key [10, 0, 0, 1]) = None" "\<exists>q < 64. \<not> re_used (auth_replay_reset ! q)"
  "rate_limit_check rate_limit_reset (v4_key [10, 0, 0, 1]) 0 = 0"
proof -
  show "replay_lookup auth_replay_reset (v4_key [10, 0, 0, 1]) = None" by code_simp
  show "\<exists>q < 64. \<not> re_used (auth_replay_reset ! q)"
  proof (intro exI conjI)
    show "\<not> re_used (auth_replay_reset ! 0)" by code_simp
  qed simp
  show "rate_limit_check rate_limit_reset (v4_key [10, 0, 0, 1]) 0 = 0" by code_simp
qed

text \<open>The packet as it lies in the buffers of the receive.\<close>

definition knock_buf :: "byte list" where
  "knock_buf = poke 0 (client_packet knock_secret 0) (replicate 256 0)"

definition knock_src :: sockaddr_storage where
  "knock_src = poke 0 knock_peer (replicate 128 0)"

lemma knock_packet:
  "ip_source knock_src" "sender_ip knock_src = v4_key [10, 0, 0, 1]" "take (nat 6) knock_buf = client_packet knock_secret 0"
  "frame_ok (knock_stack tr)" "ret (knock secret tr Time) = 0"
proof -
  show "ip_source knock_src" "sender_ip knock_src = v4_key [10, 0, 0, 1]"
    using peer_stored [OF knock_peer_ok(1), of "replicate 128 0"] knock_peer_ok(2) by (simp_all add: ss_wf_def knock_src_def knock_peer_def)
  show "take (nat 6) knock_buf = client_packet knock_secret 0"
    by (simp add: knock_buf_def poke_def length_client_packet)
  show "frame_ok (knock_stack tr)" using knock_sys_ok by (simp add: sys_ok_def)
  show "ret (knock secret tr Time) = 0" by (simp add: knock_def)
qed

text \<open>It is let in, in a state with no open rule.\<close>

lemma knock_let_in:
  assumes "d_cfg d = knock_config" and "rules_ok d" and "open_rules d = []" and "g_next_handle w \<noteq> 0"
    and "w_replay w = auth_replay_reset" and "w_rates w = rate_limit_reset"
  shows "\<exists>d' w'. handle_one_packet (knock knock_secret) knock_stack knock_buf 6 knock_src d w = Some (d', w')
    \<and> let_in 0 (v4_key [10, 0, 0, 1]) d w d' w'"
proof -
  have "\<exists>d' w'. handle_one_packet (knock knock_secret) knock_stack knock_buf 6 knock_src d w = Some (d', w')
    \<and> let_in (ret (knock knock_secret (trace w) Time)) (sender_ip knock_src) d w d' w'"
    by (rule client_let_in [where stk = knock_stack and w = w and sent_at = 0, OF knock_grants knock_packet(1,4)])
      (simp_all add: assms knock_packet(2,5) knock_packet(3) [simplified] fresh_source replay_reset_ok knock_config_ok clock_ok_def)
  then show ?thesis by (simp add: knock_packet)
qed

lemma talk_single:
  assumes "talk fd [m] cs"
  obtains xs b ys where "cs = xs @ Sendto fd b nl_addr # ys" and "encodes m b"
proof -
  obtain b where b: "sent_msgs cs = [b]" "encodes m b" using assms by (auto simp: talk_def list_all2_Cons1)
  then have "b \<in> set (sent_msgs cs)" by simp
  then obtain f a where "Sendto f b a \<in> set cs" by (auto simp: sent_msgs_def split: syscall.splits)
  then have "Sendto fd b nl_addr \<in> set cs" using assms by (auto simp: talk_def)
  then show thesis using that b(2) by (meson split_list)
qed

text \<open>The counter of its token is the one accepted.\<close>

lemma knock_accepted:
  assumes "Time \<notin> set cs"
  shows "\<exists>c. accepted (knock knock_secret) knock_secret tr ([Epoll_wait e m t, Clock_monotonic, Time, Recvfrom fd 256, Time, Time] @ cs)
    = [(v4_key [10, 0, 0, 1], c)]"
proof -
  obtain token c where tc: "auth_parse (Some (client_packet knock_secret 0)) = Some token"
    "matched_counter knock_secret token (daemon_params (v4_key [10, 0, 0, 1]) 0) = Some c"
    using client_token_found [of 0 0 knock_secret "v4_key [10, 0, 0, 1]"] client_packet_parsed [of knock_secret 0] by (auto simp: clock_ok_def)
  define pre where "pre = tr @ [Epoll_wait e m t, Clock_monotonic, Time]"
  have "data (knock knock_secret pre (Recvfrom fd 256)) = client_packet knock_secret 0" "peer (knock knock_secret pre (Recvfrom fd 256)) = knock_peer"
    by (simp_all add: knock_def)
  then have "packet_counter (knock knock_secret) knock_secret (pre @ [Recvfrom fd 256, Time]) = Some (v4_key [10, 0, 0, 1], c)"
    using tc by (simp add: packet_counter_def knock_peer_ok knock_packet)
  moreover have "packet_counter (knock knock_secret) knock_secret (pre @ [Recvfrom fd 256]) = None"
    "packet_counter (knock knock_secret) knock_secret (tr @ [Epoll_wait e m t, Clock_monotonic]) = None"
    using packet_counter_other [of "Recvfrom fd 256" _ _ pre] packet_counter_other [of Clock_monotonic _ _ "tr @ [Epoll_wait e m t]"] by simp_all
  ultimately show ?thesis using accepted_no_clock [OF assms] by (simp add: pre_def)
qed

text \<open>One turn of the loop later the port is open for the client, and the firewall has been told so.\<close>

lemma knock_opens:
  obtains d1 w1 d2 w2 e xs b ys where "loop_entry (knock knock_secret) tgt d knock_config boot d1 w1"
    and "loop_reachable (knock knock_secret) knock_stack d1 w1 d2 w2"
    and "open_rules d2 = [e]" and "rule_ip (dr_addr e) = v4_key [10, 0, 0, 1]"
    and "calls_since w1 w2 = xs @ Sendto (g_fd w1) b nl_addr # ys" and "encodes (accept_of knock_config e) b"
    and "\<exists>c. accepted (knock knock_secret) knock_secret (trace w1) (calls_since w1 w2) = [(v4_key [10, 0, 0, 1], c)]"
proof -
  obtain d1 w1 where en: "loop_entry (knock knock_secret) tgt d knock_config boot d1 w1" and d1: "udp_fds d1 ! 0 = 3" "signal_fd d1 = 5"
    "num_udp_fds d1 = 1" "last_prune d1 = 0" by (rule knock_entry)
  note st = entry_state [OF en knock_config_ok boot_tables]
  let ?e = "knock knock_secret" and ?wait = "Epoll_wait (epoll_fd d1) (maxevents d1) 1000"
  define u where "u = sys_do ?e Time (sys_do ?e Clock_monotonic (sys_do ?e ?wait w1))"
  define v where "v = sys_do ?e (Recvfrom 3 256) u"
  have tr: "trace u = trace w1 @ [?wait, Clock_monotonic, Time]" "trace v = trace w1 @ [?wait, Clock_monotonic, Time, Recvfrom 3 256]"
    by (simp_all add: u_def v_def)
  have no: "recvs_since_wait (trace u) = 0" "recvs_since_wait (trace v) = 1"
    by (simp_all add: tr recvs_since_wait_def)
  have tab: "w_replay v = auth_replay_reset" "w_rates v = rate_limit_reset" "g_next_handle v \<noteq> 0" "g_fd v = g_fd w1"
    using more_tables [OF st(12)] st(11) by (simp_all add: u_def v_def boot_def sys_do_eq)
  have ok: "rules_ok d1" using st(1) by (simp add: loop_inv_def)
  let ?buf = knock_buf and ?src = knock_src
  obtain d2 x where h: "handle_one_packet ?e knock_stack ?buf 6 ?src d1 v = Some (d2, x)" and l: "let_in 0 (v4_key [10, 0, 0, 1]) d1 v d2 x"
    using knock_let_in [OF st(2) ok st(3) tab(3,1,2)] by blast
  obtain e port cs where o: "mset (open_rules d2) = {#e#}" "rule_ip (dr_addr e) = v4_key [10, 0, 0, 1]"
    and x: "trace x = trace v @ [Time, Time] @ cs @ [Log_accepted Stderr (v4_key [10, 0, 0, 1]) port (g_next_handle v)]"
    and tk: "talk (g_fd w1) [accept_of knock_config e] cs"
    using l unfolding let_in_def st(2,3) tab(4) by (auto simp: knock_config_def)
  have "recvs_since_wait (trace x) = 1 + length (filter is_recvfrom ([Time, Time] @ cs @ [Log_accepted Stderr (v4_key [10, 0, 0, 1]) port (g_next_handle v)]))"
    unfolding x using tk by (subst recvs_grow) (auto simp: talk_def no(2))
  then have nx: "recvs_since_wait (trace x) \<noteq> 0" by simp
  obtain n where r1: "udp_recv ?e 3 (replicate 256 0) (replicate 128 0) (Some 128) u =
      Some (\<lparr>r_n = 6, r_buf = ?buf, r_src = ?src, r_srclen = n\<rparr>, v)"
    using knock_recv(1) [OF _ no(1)] unfolding v_def knock_buf_def knock_src_def by fastforce
  obtain r where r2: "udp_recv ?e 3 ?buf ?src (Some 128) x = Some (r, sys_do ?e (Recvfrom 3 256) x)" "r_n r = -1"
    using knock_recv(2) [OF _ nx, of ?buf knock_secret 3 ?src] by (auto simp: length_client_packet knock_buf_def)
  have "recv_loop ?e knock_stack 3 ?buf ?src d2 x = Some (d2, sys_do ?e (Recvfrom 3 256) x)"
    by (subst recv_loop.simps) (simp add: r2)
  then have rl: "recv_loop ?e knock_stack 3 (replicate 256 0) (replicate 128 0) d1 u = Some (d2, sys_do ?e (Recvfrom 3 256) x)"
    by (subst recv_loop.simps) (simp add: r1 h)
  have "take 1 (udp_fds d1) = [3]" using d1(1) st(6) by (cases "udp_fds d1") auto
  then have ev: "event_loop ?e knock_stack [3] d1 u = Some (0, d2, sys_do ?e (Recvfrom 3 256) x)"
    using rl d1 by (simp add: knock_stack_def)
  have env: "ret (?e tr ?wait) = 1" "ready (?e tr ?wait) = [3]" "ret (?e tr Clock_monotonic) = 0" for tr by (simp_all add: knock_def)
  have "daemon_process ?e knock_stack d1 w1 = Some (0, d2, sys_do ?e (Recvfrom 3 256) x)"
    using ev unfolding daemon_process_def sys_eq Let_def prod.case u_def by (simp add: env d1(4) PRUNE_INTERVAL_def)
  then have reach: "loop_reachable ?e knock_stack d1 w1 d2 (sys_do ?e (Recvfrom 3 256) x)"
    by (rule loop_reachable.turn [OF loop_reachable.enter])
  obtain xs b ys where cs: "cs = xs @ Sendto (g_fd w1) b nl_addr # ys" "encodes (accept_of knock_config e) b" using talk_single [OF tk] .
  have "calls_since w1 (sys_do ?e (Recvfrom 3 256) x) = [?wait, Clock_monotonic, Time, Recvfrom 3 256, Time, Time]
      @ (cs @ [Log_accepted Stderr (v4_key [10, 0, 0, 1]) port (g_next_handle v), Recvfrom 3 256])"
    by (simp add: calls_since_def x tr(2))
  moreover have "Time \<notin> set (cs @ [Log_accepted Stderr (v4_key [10, 0, 0, 1]) port (g_next_handle v), Recvfrom 3 256])"
    using tk by (auto simp: talk_def)
  ultimately have acc: "\<exists>c. accepted ?e knock_secret (trace w1) (calls_since w1 (sys_do ?e (Recvfrom 3 256) x)) = [(v4_key [10, 0, 0, 1], c)]"
    using knock_accepted by metis
  have calls: "calls_since w1 (sys_do ?e (Recvfrom 3 256) x) = ([?wait, Clock_monotonic, Time, Recvfrom 3 256, Time, Time] @ xs)
      @ Sendto (g_fd w1) b nl_addr # ys @ [Log_accepted Stderr (v4_key [10, 0, 0, 1]) port (g_next_handle v), Recvfrom 3 256]"
    by (simp add: calls_since_def x tr(2) cs(1))
  have "open_rules d2 = [e]" using o(1) by (metis mset_single_iff mset_single_iff_right)
  then show thesis using that [OF en reach _ o(2) calls cs(2) acc] by blast
qed

end
