(* ===== verification/Spec2Isabelle.thy ===== *)
theory Spec2Isabelle
  imports Knock
begin

text \<open>
  A verification of totpgate: a daemon that keeps a TCP port closed in the nftables firewall and
  opens it, for a while, to the sender of a UDP packet with a valid one-time password, and the
  client that sends that packet. All paths below are under \<^verbatim>\<open>src/src\<close>.

  \<^bold>\<open>The program.\<close> \<^verbatim>\<open>main.c\<close> reads its options (\<^verbatim>\<open>parse_opts.c\<close>) and its secret (\<^verbatim>\<open>encode.c\<close>), builds the
  firewall tables over netlink (\<^verbatim>\<open>netlink.c\<close>), opens its sockets (\<^verbatim>\<open>udp.c\<close>), gives up its privileges
  (\<^verbatim>\<open>privdrop.c\<close>), installs a system call filter (\<^verbatim>\<open>seccomp.c\<close>) and enters its loop. A packet passes the
  rate limit (\<^verbatim>\<open>ratelimit.c\<close>), the parser and the token check with its replay table (\<^verbatim>\<open>auth.c\<close>, over
  \<^verbatim>\<open>totp.c\<close>, \<^verbatim>\<open>hmac.c\<close>, \<^verbatim>\<open>sha1.c\<close>), and then an accept rule for its sender is inserted and tracked until
  it expires. \<^verbatim>\<open>client.c\<close> computes the token of its clock and sends it.

  \<^bold>\<open>Foundations.\<close>
  \<^item> \<open>Prelude\<close>: bytes, words, buffers written in place (\<open>poke\<close>) and the collections \<open>poke_simps\<close> and
    \<open>byte_simps\<close>.
  \<^item> \<open>Probe\<close>: open addressing with linear probing as a locale. The replay and the rate table are
    its two interpretations; what search and insertion do to the map a table stands for is proved
    once.
  \<^item> \<open>Os\<close>: the system. A call is a value of the type \<open>syscall\<close>, its answer is a function \<open>env\<close> of the
    calls made before, and the record \<open>os\<close> holds the trace and \<open>errno\<close>. Nothing is assumed of \<open>env\<close>
    except where a theorem names it.
  \<^item> \<open>Clib\<close>: what is used of the C library's string and number functions.

  \<^bold>\<open>Passwords and tables.\<close>
  \<^item> \<open>Sha1\<close>, \<open>Hmac\<close>, \<open>Totp\<close>: the streaming hash with its context and old buffer contents, HMAC, token
    generation and the window search; equal to definitions of FIPS 180-4, RFC 2104 and RFC 4226.
  \<^item> \<open>Addr\<close> (\<^verbatim>\<open>addr.h\<close>), \<open>Auth\<close>, \<open>Replay\<close>: address keys, the packet parser, the replay table. \<open>Replay\<close>
    runs the table as a transition system, with a clock that may be set back a little, and shows that
    counters increase.
  \<^item> \<open>Ratelimit\<close>: the table of failures, against the abstract rule \<open>fail_step\<close>.
  \<^item> \<open>Encode\<close>: the three decoders, with encoders of RFC 4648 for the round trips.

  \<^bold>\<open>The firewall.\<close>
  \<^item> \<open>Nl_Message\<close>: messages built in a buffer by offsets, against trees of attributes.
  \<^item> \<open>Netlink\<close>: the module's variables in the record \<open>nl\<close>, every operation, the wait for replies; each
    operation is shown to send the bytes of a command.
  \<^item> \<open>Replies\<close>: what the walk over a reply reports, for replies given without their layout.
  \<^item> \<open>Firewall\<close>: every operation as a list of abstract messages \<open>fw_msg\<close>; the loops over the families
    are interpretations of the locale \<open>rule_family\<close>.

  \<^bold>\<open>The daemon.\<close>
  \<^item> \<open>Udp\<close>, \<open>Parse_Opts\<close>, \<open>Privdrop\<close>, \<open>Seccomp\<close>: sockets, options with their invariant, privileges, and
    the filter with the machine that runs it.
  \<^item> \<open>Daemon\<close>: \<^verbatim>\<open>main.c\<close> whole. The record \<open>world\<close> is the state of the process outside \<open>struct daemon\<close>;
    uninitialised locals are read from an arbitrary stack \<open>stk\<close>.
  \<^item> \<open>Secret_File\<close>, \<open>Authorization\<close>, \<open>Rules\<close>: reading the secret; what it means that a sender is
    authorized and what the loop may tell the firewall; the table of open rules as a collection.
  \<^item> \<open>Event_Loop\<close>: the loop's invariant, the states it reaches, and that its turns return.
  \<^item> \<open>Replay_Loop\<close>: the loop simulates the transition system of \<open>Replay\<close>; what it accepts is read off its
    calls.
  \<^item> \<open>Lifecycle\<close>, \<open>Run\<close>: starting, failing to start, cleaning up, and the run from start to end.
  \<^item> \<open>Descriptors\<close>: the descriptors handed out and closed, counted on the calls, against those the state
    records; none is left at the end.
  \<^item> \<open>Granted\<close>, \<open>Client\<close>, \<open>Admission\<close>: what succeeds on a system that grants every request, the client,
    and the way of its packet through the daemon.
  \<^item> \<open>Knock\<close>: a concrete system on which the theorems are applied.

  \<^bold>\<open>Loops.\<close> Loops over arrays and strings are structural or have a termination proof. Four loops are
  ended only by the system and are partial functions into an option: \<open>udp_recv\<close>,
  \<open>process_batch_replies\<close>, \<open>recv_loop\<close> and \<open>run_loop\<close>. The first three are shown to return when the
  system stops interrupting (\<open>interrupted\<close>), replies finitely often (\<open>finitely_many_replies\<close>) and runs
  dry (\<open>drains\<close>); the last is meant to run for ever, and every one of its turns returns.

  \<^bold>\<open>Integers.\<close> Words have the width they have in the source. \<open>time_t\<close> and \<open>int\<close> values that the code only
  compares and adds are mathematical integers; theorems about the clock assume it in the range
  of a 64-bit \<open>time_t\<close> (\<open>clock_ok\<close>). The model is of a little-endian machine with a 64-bit \<open>long\<close>.

  \<^bold>\<open>What the system and libraries promise\<close>, wherever a theorem relies on it: \<open>udp_kernel\<close> (a receive writes
  as many bytes as it returns, and an IPv4 or IPv6 sender), \<open>clock_env\<close>, \<open>frame_ok\<close> (sizes of locals),
  \<open>clock_steady\<close> (the wall clock is never set back by more than 29 minutes, where replays are excluded),
  and \<open>grants\<close> where success is claimed.

  \<^bold>\<open>Not modelled.\<close> Texts printed to standard error by the option parsers and the usage functions; the
  formatting of log lines (a logged message is a call with its values); \<open>getopt_long\<close> and
  \<open>getaddrinfo\<close>, which are the list of their results and a parameter; \<^verbatim>\<open>util.c\<close>, which has no code; the
  tests. Of the kernel's packet filtering nothing is modelled but the bytes it is sent.
\<close>

section \<open>The event loop\<close>

text \<open>C1: the port is opened only for a sender who knows the secret. Whatever the loop sends to the
  firewall, in any turn after a completed start, is a flush of the allowed addresses or an accept
  rule for an address from which a packet was received before: six digits that are the token of a
  counter at most one step from the clock at its arrival.\<close>

theorem opened_only_for_token_holders:
  assumes "loop_entry env tgt d cfg w d1 w1" and "config_ok cfg" and "tables_ok w" and "sys_ok env stk"
    and "loop_reachable env stk d1 w1 d2 w2" and "calls_since w1 w2 = xs @ Sendto fd b to # ys"
  shows "(\<exists>f \<in> set fam. encodes (Flush ALLOWED_NAME f) b)
    \<or> (\<exists>ra. authorized env (secret_of cfg) (trace w1 @ xs) ra \<and> encodes (Accept ra (target_port cfg) (iface_arg cfg)) b)"
proof -
  note e = entry_state [OF assms(1-3)]
  have "advance env d1 w1 d2 w2" by (rule reachable_advance [OF assms(5,4) e(1)])
  then obtain cs where cs: "trace w2 = trace w1 @ cs"
    "\<And>xs c ys. cs = xs @ c # ys \<Longrightarrow> fw_call (authorized env (secret_of cfg) (trace w1 @ xs)) cfg c"
    using e(2) by (auto simp: advance_def loop_ext_def)
  have "cs = xs @ Sendto fd b to # ys" using assms(6) cs(1) by (simp add: calls_since_def)
  from cs(2) [OF this] show ?thesis by (auto simp: fw_call_def loop_msg_def)
qed

theorem opened_only_for_token_holders_witness:
  "\<exists>d1 w1 d2 w2 e xs b ys. loop_entry (knock knock_secret) x86_64 idle_daemon knock_config boot d1 w1
     \<and> loop_reachable (knock knock_secret) knock_stack d1 w1 d2 w2 \<and> open_rules d2 = [e]
     \<and> calls_since w1 w2 = xs @ Sendto (g_fd w1) b nl_addr # ys \<and> encodes (accept_of knock_config e) b
     \<and> ((\<exists>f \<in> set fam. encodes (Flush ALLOWED_NAME f) b)
        \<or> (\<exists>ra. authorized (knock knock_secret) knock_secret (trace w1 @ xs) ra
             \<and> encodes (Accept ra (target_port knock_config) (iface_arg knock_config)) b))"
proof -
  obtain d1 w1 d2 w2 e xs b ys where k: "loop_entry (knock knock_secret) x86_64 idle_daemon knock_config boot d1 w1"
    "loop_reachable (knock knock_secret) knock_stack d1 w1 d2 w2" "open_rules d2 = [e]"
    "calls_since w1 w2 = xs @ Sendto (g_fd w1) b nl_addr # ys" "encodes (accept_of knock_config e) b" by (rule knock_opens)
  from opened_only_for_token_holders [OF k(1) knock_config_ok boot_tables knock_sys_ok k(2,4)] k show ?thesis by blast
qed

text \<open>C3: the loop's invariant holds at the head of every turn: the tables keep their sizes, every
  open rule lies below \<open>num_rules\<close>, the configuration stays in its bounds and is the one the daemon
  was started with, and every rule that is open is for an authorized sender.\<close>

theorem loop_invariant:
  assumes "loop_entry env tgt d cfg w d1 w1" and "config_ok cfg" and "tables_ok w" and "sys_ok env stk"
    and "loop_reachable env stk d1 w1 d2 w2"
  shows "rules_ok d2 \<and> tables_ok w2 \<and> d_cfg d2 = cfg \<and> config_ok cfg \<and> same_setup d1 d2
    \<and> all_open (\<lambda>e. ip_source (dr_addr e) \<and> authorized env (secret_of cfg) (trace w2) (dr_addr e)) d2"
proof -
  note e = entry_state [OF assms(1-3)]
  have "advance env d1 w1 d2 w2" by (rule reachable_advance [OF assms(5,4) e(1)])
  then show ?thesis using e(2) by (auto simp: advance_def loop_inv_def same_setup_def)
qed

theorem loop_invariant_witness:
  "\<exists>d1 w1 d2 w2 e. loop_entry (knock knock_secret) x86_64 idle_daemon knock_config boot d1 w1
     \<and> loop_reachable (knock knock_secret) knock_stack d1 w1 d2 w2 \<and> open_rules d2 = [e]
     \<and> authorized (knock knock_secret) knock_secret (trace w2) (dr_addr e)"
proof -
  obtain d1 w1 d2 w2 e where k: "loop_entry (knock knock_secret) x86_64 idle_daemon knock_config boot d1 w1"
    "loop_reachable (knock knock_secret) knock_stack d1 w1 d2 w2" "open_rules d2 = [e]" by (rule knock_opens)
  from loop_invariant [OF k(1) knock_config_ok boot_tables knock_sys_ok k(2)]
  have "authorized (knock knock_secret) knock_secret (trace w2) (dr_addr e)" by (simp add: all_open_def k(3))
  then show ?thesis using k by blast
qed

text \<open>C6: every turn of the loop returns, as long as the kernel answers a datagram with finitely many
  messages and the sockets run dry after finitely many receives.\<close>

theorem loop_turn_returns:
  assumes "loop_entry env tgt d cfg w d1 w1" and "config_ok cfg" and "tables_ok w" and "sys_ok env stk"
    and "loop_reachable env stk d1 w1 d2 w2" and "finitely_many_replies env n" and "drains env m"
  shows "\<exists>r d3 w3. daemon_process env stk d2 w2 = Some (r, d3, w3)"
proof -
  note e = entry_state [OF assms(1-3)]
  have "advance env d1 w1 d2 w2" by (rule reachable_advance [OF assms(5,4) e(1)])
  then show ?thesis using process_returns [OF assms(6,7,4)] by (simp add: advance_def)
qed

theorem loop_turn_returns_witness:
  "\<exists>d1 w1 d2 w2 e r d3 w3. loop_entry (knock knock_secret) x86_64 idle_daemon knock_config boot d1 w1
     \<and> loop_reachable (knock knock_secret) knock_stack d1 w1 d2 w2 \<and> open_rules d2 = [e]
     \<and> daemon_process (knock knock_secret) knock_stack d2 w2 = Some (r, d3, w3)"
proof -
  obtain d1 w1 d2 w2 e where k: "loop_entry (knock knock_secret) x86_64 idle_daemon knock_config boot d1 w1"
    "loop_reachable (knock knock_secret) knock_stack d1 w1 d2 w2" "open_rules d2 = [e]" by (rule knock_opens)
  from loop_turn_returns [OF k(1) knock_config_ok boot_tables knock_sys_ok k(2) grants_replies [OF knock_grants] knock_drains] k
  show ?thesis by blast
qed

text \<open>C10: the loop stays inside its sandbox. Once the filter is installed, a turn of the loop waits,
  receives, sends, reads the signal and the clocks, and logs: it opens no file or socket, changes no
  identity and installs no filter. Of these calls, those that are system calls of their own name
  in the Linux manual (\<open>own_name\<close>: the epoll wait, the receive from a socket, the send, the poll and the
  read) are allowed by the filter, whatever their arguments. Nothing is claimed of the clocks, of
  \<open>recv\<close> and of logging, which the C library carries out by system calls of its choice.\<close>

theorem loop_stays_in_sandbox:
  assumes "loop_entry env tgt d cfg w d1 w1" and "config_ok cfg" and "tables_ok w" and "sys_ok env stk"
    and "loop_reachable env stk d1 w1 d2 w2" and "c \<in> set (calls_since w1 w2)"
  shows "turn_call c \<and> (\<forall>name nr args. own_name c = Some name \<longrightarrow> sys_nr tgt name = Some nr \<longrightarrow>
    bpf_run (seccomp_filter tgt) 0 \<lparr>sd_nr = nr, sd_arch = AUDIT_ARCH_NATIVE tgt, sd_rest = args\<rparr> = Some SECCOMP_RET_ALLOW)"
proof -
  note e = entry_state [OF assms(1-3)]
  have "advance env d1 w1 d2 w2" by (rule reachable_advance [OF assms(5,4) e(1)])
  then have "turn_call c" using loop_ext_turn_calls assms(6) by (fastforce simp: advance_def calls_since_def)
  moreover from this have "loop_call c" by (simp add: loop_call_def)
  ultimately show ?thesis using own_call_permitted by blast
qed

theorem loop_stays_in_sandbox_witness:
  "\<exists>d1 w1 d2 w2 b. loop_reachable (knock knock_secret) knock_stack d1 w1 d2 w2
     \<and> Sendto (g_fd w1) b nl_addr \<in> set (calls_since w1 w2) \<and> sys_nr x86_64 ''sendto'' = Some 44
     \<and> bpf_run (seccomp_filter x86_64) 0 \<lparr>sd_nr = 44, sd_arch = 0xC000003E, sd_rest = [1, 2]\<rparr> = Some SECCOMP_RET_ALLOW"
proof -
  obtain d1 w1 d2 w2 e xs b ys where k: "loop_entry (knock knock_secret) x86_64 idle_daemon knock_config boot d1 w1"
    "loop_reachable (knock knock_secret) knock_stack d1 w1 d2 w2"
    "calls_since w1 w2 = xs @ Sendto (g_fd w1) b nl_addr # ys" by (rule knock_opens)
  have c: "Sendto (g_fd w1) b nl_addr \<in> set (calls_since w1 w2)" using k(3) by simp
  have n: "own_name (Sendto (g_fd w1) b nl_addr) = Some ''sendto''" by (simp add: own_name_def)
  have nr: "sys_nr x86_64 ''sendto'' = Some 44" by code_simp
  from loop_stays_in_sandbox [OF k(1) knock_config_ok boot_tables knock_sys_ok k(2) c] n nr
  have "bpf_run (seccomp_filter x86_64) 0 \<lparr>sd_nr = 44, sd_arch = 0xC000003E, sd_rest = [1, 2]\<rparr> = Some SECCOMP_RET_ALLOW"
    unfolding x86_64_def by simp
  then show ?thesis using k(2) c nr by blast
qed

text \<open>C4: no token is accepted twice. Over any number of turns of the loop after a start with an empty
  replay table, pruning included, the counters accepted from one address strictly increase. Two
  things are assumed of the world: the wall clock is never set back by more than 29 minutes
  (\<open>clock_steady\<close>, \<open>max_set_back\<close>), and no two of the addresses that were accepted have the same home
  slot in the replay table. What was accepted is read off the calls (\<open>accepted\<close>): the clock
  reading of \<open>auth_record_seq\<close> follows the receipt of the packet and its first clock reading.\<close>

theorem no_counter_accepted_twice:
  assumes "loop_entry env tgt d cfg w d1 w1" and "config_ok cfg" and "tables_ok w" and "sys_ok env stk"
    and "w_replay w = auth_replay_reset" and "clock_steady env" and "loop_reachable env stk d1 w1 d2 w2"
    and "inj_on replay_idx (fst ` set (accepted env (secret_of cfg) (trace w1) (calls_since w1 w2)))"
  shows "sorted_wrt (<) (map snd (filter (\<lambda>a. fst a = ip) (accepted env (secret_of cfg) (trace w1) (calls_since w1 w2))))"
proof -
  note e = entry_state [OF assms(1-3)]
  have "w_replay w1 = auth_replay_reset" using more_tables(1) [OF e(12)] assms(5) by simp
  from accepted_increase [OF assms(7,4,6) e(1) this, unfolded e(2), OF assms(8)] show ?thesis .
qed

theorem no_counter_accepted_twice_witness:
  "\<exists>d1 w1 d2 w2 c. loop_entry (knock knock_secret) x86_64 idle_daemon knock_config boot d1 w1
     \<and> loop_reachable (knock knock_secret) knock_stack d1 w1 d2 w2
     \<and> accepted (knock knock_secret) knock_secret (trace w1) (calls_since w1 w2) = [(v4_key [10, 0, 0, 1], c)]
     \<and> sorted_wrt (<) (map snd (filter (\<lambda>a. fst a = v4_key [10, 0, 0, 1])
          (accepted (knock knock_secret) knock_secret (trace w1) (calls_since w1 w2))))"
proof -
  obtain d1 w1 d2 w2 c where k: "loop_entry (knock knock_secret) x86_64 idle_daemon knock_config boot d1 w1"
    "loop_reachable (knock knock_secret) knock_stack d1 w1 d2 w2"
    "accepted (knock knock_secret) knock_secret (trace w1) (calls_since w1 w2) = [(v4_key [10, 0, 0, 1], c)]"
    by (rule knock_opens) blast
  have r: "w_replay boot = auth_replay_reset" by (simp add: boot_def)
  have "inj_on replay_idx (fst ` set (accepted (knock knock_secret) knock_secret (trace w1) (calls_since w1 w2)))" by (simp add: k(3))
  from no_counter_accepted_twice [OF k(1) knock_config_ok boot_tables knock_sys_ok r knock_steady k(2) this] k show ?thesis by blast
qed

text \<open>C11: the filter allows exactly the listed calls of the native architecture, kills on every other,
  never runs off its end, and is short enough for the kernel.\<close>

theorem seccomp_filter_decides:
  "bpf_run (seccomp_filter t) a sd = Some (if permits t sd then SECCOMP_RET_ALLOW else SECCOMP_RET_KILL)
   \<and> length (seccomp_filter t) \<le> 59"
  using filter_decides length_filter_le by blast

section \<open>Packets\<close>



text \<open>C7: a packet from a blocked address, one that is not a token, and one whose token is not accepted
  change no rule, tell the firewall nothing and leave the replay table alone; the last two are
  counted as a failure of their sender, the first is not.\<close>

theorem bad_packet_refused:
  assumes "ip_source src" and "frame_ok (stk (trace w))"
    and "rate_limit_check (w_rates w) (sender_ip src) (ret (env (trace w) Time)) \<noteq> 0
      \<or> (case auth_parse (Some (take (nat len) buf)) of
           None \<Rightarrow> True
         | Some token \<Rightarrow> fst (auth_validate (w_replay w) (secret_of (d_cfg d)) token
               (daemon_params (sender_ip src) (ret (env (trace w) Time))) (ret (env (trace w @ [Time]) Time))) \<noteq> 0)"
  shows "\<exists>w'. handle_one_packet env stk buf len src d w = Some (d, w') \<and> sent_msgs (calls_since w w') = [] \<and> w_replay w' = w_replay w
    \<and> w_rates w' = (if rate_limit_check (w_rates w) (sender_ip src) (ret (env (trace w) Time)) \<noteq> 0 then w_rates w
        else rate_limit_fail (w_rates w) (sender_ip src) (ret (env (trace w) Time)) (rate_limit (d_cfg d)))"
proof -
  let ?now = "ret (env (trace w) Time)"
  note r = packet_refused [where stk = stk and w = w and env = env, OF assms(1,2)]
  consider "rate_limit_check (w_rates w) (sender_ip src) ?now \<noteq> 0"
    | "rate_limit_check (w_rates w) (sender_ip src) ?now = 0" "auth_parse (Some (take (nat len) buf)) = None"
    | token where "rate_limit_check (w_rates w) (sender_ip src) ?now = 0" "auth_parse (Some (take (nat len) buf)) = Some token"
    by (metis option.exhaust)
  then show ?thesis
  proof cases
    case 1
    then show ?thesis using r(1) [of buf len d] by (auto simp: calls_since_def)
  next
    case 2
    then show ?thesis using r(2) [of len buf d] by (auto simp: calls_since_def)
  next
    case (3 token)
    obtain v replay where v: "auth_validate (w_replay w) (secret_of (d_cfg d)) token (daemon_params (sender_ip src) ?now)
        (ret (env (trace w @ [Time]) Time)) = (v, replay)" by (meson surj_pair)
    then have "v \<noteq> 0" using assms(3) 3 by simp
    then show ?thesis using r(3) [OF 3 v] 3(1) by (auto simp: calls_since_def)
  qed
qed

theorem bad_packet_refused_witness:
  "\<exists>w'. handle_one_packet (knock knock_secret) knock_stack [65] 1 knock_src idle_daemon boot = Some (idle_daemon, w')
     \<and> w_rates w' = rate_limit_fail rate_limit_reset (v4_key [10, 0, 0, 1]) 0 (rate_limit knock_config)"
proof -
  have "auth_parse (Some (take (nat 1) [65])) = None" by code_simp
  then have "\<exists>w'. handle_one_packet (knock knock_secret) knock_stack [65] 1 knock_src idle_daemon boot = Some (idle_daemon, w')
    \<and> sent_msgs (calls_since boot w') = [] \<and> w_replay w' = w_replay boot
    \<and> w_rates w' = (if rate_limit_check (w_rates boot) (sender_ip knock_src) (ret (knock knock_secret (trace boot) Time)) \<noteq> 0 then w_rates boot
        else rate_limit_fail (w_rates boot) (sender_ip knock_src) (ret (knock knock_secret (trace boot) Time)) (rate_limit (d_cfg idle_daemon)))"
    by (intro bad_packet_refused [where stk = knock_stack and w = boot, OF knock_packet(1,4)]) simp
  moreover have "w_rates boot = rate_limit_reset" by (simp add: boot_def)
  ultimately show ?thesis by (auto simp: knock_packet fresh_source idle_daemon_ok)
qed

text \<open>C19: what the client sends is what the daemon reads: six digits that \<open>auth_parse\<close> turns into the
  token, and with clocks at most one step apart the window search finds a counter for it that is
  not above the client's own.\<close>

theorem client_packet_understood:
  assumes "clock_ok sent_at" and "clock_ok arrived" and "\<bar>sent_at div 30 - arrived div 30\<bar> \<le> 1"
  shows "\<exists>token c. auth_parse (Some (client_packet secret sent_at)) = Some token
    \<and> matched_counter secret token (daemon_params ip arrived) = Some c \<and> uint c \<le> sent_at div 30"
  using client_token_found [OF assms] client_packet_parsed by blast

theorem client_packet_understood_witness:
  "\<exists>token c. auth_parse (Some (client_packet [1, 2] 59)) = Some token
     \<and> matched_counter [1, 2] token (daemon_params zero_ip 61) = Some c \<and> uint c \<le> 1"
  using client_packet_understood [of 59 61 "[1, 2]" zero_ip] by (simp add: clock_ok_def)

text \<open>C33: the client sends one datagram, the packet of its clock, to the configured port at the address
  its server name stands for, and closes the socket whether the send succeeded or not.\<close>

theorem client_sends_once:
  assumes "resolve (cl_server cfg) = Some (Some (f, ai))" and "length ai = (if f = AF_INET6 then 28 else 16)"
    and "ret (env (trace w @ [Time]) (Socket f SOCK_DGRAM 0)) = fd" and "0 \<le> fd"
  shows "\<exists>dst. calls_since w (snd (client_run env resolve cfg w)) = [Time, Socket f SOCK_DGRAM 0,
        Sendto fd (client_packet (take (cl_secret_len cfg) (cl_secret cfg)) (ret (env (trace w) Time))) dst, Close fd]
    \<and> sin_port dst = htons (cl_port cfg)
    \<and> (if f = AF_INET6 then ss_family dst = AF_INET6 \<and> sin6_addr dst = take 16 (drop 8 ai)
       else ss_family dst = AF_INET \<and> sin_addr dst = take 4 (drop 4 ai))"
  using client_run_calls(1) [where env = env and w = w and resolve = resolve and cfg = cfg, OF assms(1)] client_sockaddr_dest [OF assms(2), of "cl_port cfg"] assms(3,4)
  by (intro exI [of _ "take (length ai) (client_sockaddr f (cl_port cfg) ai)"]) (auto split: if_splits)

theorem client_sends_once_witness:
  "\<exists>dst. calls_since \<lparr>trace = [], errno = 0\<rparr> (snd (client_run (knock []) (\<lambda>name. Some (Some (AF_INET, knock_peer)))
        \<lparr>cl_secret = replicate 256 0, cl_secret_len = 2, cl_port = 2222, cl_server = ''h''\<rparr> \<lparr>trace = [], errno = 0\<rparr>))
      = [Time, Socket AF_INET SOCK_DGRAM 0, Sendto 3 (client_packet [0, 0] 0) dst, Close 3]
     \<and> sin_port dst = htons 2222 \<and> sin_addr dst = [10, 0, 0, 1]"
proof -
  have six: "AF_INET \<noteq> AF_INET6" by (simp add: AF_defs)
  have len: "length knock_peer = (if AF_INET = AF_INET6 then 28 else 16)" by (simp add: knock_peer_def six)
  have fd: "ret (knock [] (trace \<lparr>trace = [], errno = 0\<rparr> @ [Time]) (Socket AF_INET SOCK_DGRAM 0)) = 3" "(0 :: int) \<le> 3"
    by (simp_all add: knock_def)
  have sec: "take 2 (replicate 256 (0 :: byte)) = [0, 0]" "take 4 (drop 4 knock_peer) = [10, 0, 0, 1]"
    by (simp_all add: numeral_2_eq_2 knock_peer_def)
  show ?thesis
    using client_sends_once [where cfg = "\<lparr>cl_secret = replicate 256 0, cl_secret_len = 2, cl_port = 2222, cl_server = ''h''\<rparr>"
      and resolve = "\<lambda>name. Some (Some (AF_INET, knock_peer))" and env = "knock []" and w = "\<lparr>trace = [], errno = 0\<rparr>", OF refl len fd] six
    unfolding client_cfg.simps sec by (auto simp: knock_packet)
qed

section \<open>The life of the daemon\<close>

text \<open>C8: a successful start replaces the tables of both families, empties the allowed addresses and
  installs the established, jump and drop rules, in this order and before any of the daemon's
  own sockets is bound; then every configured address is bound and polled, no rule is open, and
  the number of events per wait is at most 64. This is what the code does; the documents differ:
  business rule BR-4 flushes the chain \<open>input\<close> where the code flushes \<open>allowed_ips\<close>, creates table and
  chain only when they are missing where the code deletes and creates them, and gives the
  established rule no interface match where the code gives it one; the manual page gives the jump
  an interface match where the code gives it none.\<close>

theorem setup_order:
  assumes "daemon_setup env d cfg w = Some (0, d', w')" and "config_ok cfg"
  shows "(\<exists>pre cs post. trace w' = trace w @ pre @ cs @ post \<and> talk (g_fd w') (setup_msgs cfg) cs
      \<and> sent_msgs pre = [] \<and> sent_msgs post = [] \<and> (\<forall>fd a. Bind fd a \<in> set pre \<longrightarrow> a = nl_addr))
    \<and> num_udp_fds d' = num_ports cfg \<and> (\<forall>i < num_ports cfg. listening env cfg (trace w') i (udp_fds d' ! i))
    \<and> open_rules d' = [] \<and> 0 \<le> maxevents d' \<and> maxevents d' \<le> 64"
  using setup_success [OF assms] by blast

theorem setup_order_witness:
  "\<exists>d' w'. daemon_setup (knock []) idle_daemon knock_config boot = Some (0, d', w')
     \<and> listening (knock []) knock_config (trace w') 0 (udp_fds d' ! 0) \<and> open_rules d' = []"
proof -
  obtain d' w' where s: "daemon_setup (knock []) idle_daemon knock_config boot = Some (0, d', w')"
    using setup_granted [OF knock_grants knock_config_ok] by blast
  from setup_order [OF s knock_config_ok] s show ?thesis by auto
qed

text \<open>C14: a start that fails, at whatever step, returns -1 and leaves nothing behind: every descriptor the
  system handed out was closed, exactly once (\<open>held\<close> counts them on the calls made), and the state
  records none, no socket and no rule.\<close>

theorem setup_failure_leaves_nothing:
  assumes "daemon_setup env d cfg w = Some (r, d', w')" and "r \<noteq> 0" and "config_ok cfg"
  shows "r = -1 \<and> held env (trace w) (calls_since w w') {#} = Some {#}
    \<and> g_fd w' < 0 \<and> signal_fd d' < 0 \<and> epoll_fd d' < 0 \<and> num_udp_fds d' = 0 \<and> open_rules d' = []"
  using setup_failure [OF assms] moves_held [OF setup_moves [OF assms(1,3)]] assms(2) by (simp add: all_closed_def left_def)

theorem setup_failure_leaves_nothing_witness:
  "\<exists>d' w'. daemon_setup no_signalfd idle_daemon knock_config boot = Some (-1, d', w')
     \<and> held no_signalfd [] (calls_since boot w') {#} = Some {#} \<and> num_udp_fds d' = 0"
proof -
  have "finitely_many_replies no_signalfd 0" by (simp add: finitely_many_replies_def no_signalfd_def knock_def)
  then obtain r d' w' where s: "daemon_setup no_signalfd idle_daemon knock_config boot = Some (r, d', w')"
    using setup_returns [OF _ knock_config_ok] by blast
  have "ret (no_signalfd tr Signalfd) = -1" for tr by (simp add: no_signalfd_def)
  moreover have "\<exists>pre. 0 \<le> ret (no_signalfd pre Signalfd)" if "r = 0"
    using setup_success(7,14) [OF s [unfolded that] knock_config_ok] by metis
  ultimately have "r \<noteq> 0" by (metis not_numeral_le_zero one_neq_zero le_minus_one_simps(3))
  from setup_failure_leaves_nothing [OF s this knock_config_ok] s show ?thesis by (auto simp: boot_def)
qed

text \<open>C13: however a run of the daemon ends, every descriptor it was handed out has been closed, exactly
  once, the firewall's socket among them, and the exit status is zero exactly when the loop was
  entered. This includes a loop that ends because waiting for events failed, for which the
  manual page promises exit status 1.\<close>

theorem run_ends_closed:
  assumes "daemon_run env tgt stk d cfg w = Some (r, w')" and "config_ok cfg" and "tables_ok w" and "sys_ok env stk"
  shows "held env (trace w) (calls_since w w') {#} = Some {#} \<and> g_fd w' < 0
    \<and> r = (if \<exists>d1 w1. loop_entry env tgt d cfg w d1 w1 then 0 else 1)"
  using moves_held [OF run_moves(1) [OF assms]] run_moves(2) [OF assms] run_closed [OF assms] by blast

theorem run_ends_closed_witness:
  "\<exists>w'. daemon_run (knock []) x86_64 knock_stack idle_daemon (knock_config\<lparr>test_mode := True\<rparr>) boot = Some (0, w')
     \<and> held (knock []) [] (calls_since boot w') {#} = Some {#} \<and> g_fd w' < 0"
proof -
  have ok: "config_ok (knock_config\<lparr>test_mode := True\<rparr>)" using knock_config_ok by (simp add: config_ok_def)
  obtain w' where r: "daemon_run (knock []) x86_64 knock_stack idle_daemon (knock_config\<lparr>test_mode := True\<rparr>) boot = Some (0, w')"
    using test_run_granted [OF knock_grants ok boot_tables knock_sys_ok knock_drains] by fastforce
  have "trace boot = []" by (simp add: boot_def)
  with run_ends_closed [OF r ok boot_tables knock_sys_ok] r show ?thesis by auto
qed

text \<open>C12: a privileged daemon that goes on has given up its identities in the order groups, group, user,
  keeping its capabilities over the change, then at most the one network capability is set and
  no new privileges can be gained; a refusal other than a missing permission stops it with -1.\<close>

theorem privileges_dropped_in_order:
  assumes "drop_privileges env user grp fg w = (r, w')" and "\<not> unprivileged env (trace w)"
  shows "if r = 0
    then \<exists>gid uid pre caps. id_calls w w' = [keepcaps, Setgroups [gid], Setgid gid, Setuid uid] @ caps @ [no_new_privs]
      \<and> (caps = [] \<or> caps = [Capset NET_ADMIN_ONLY])
      \<and> prefix (pre @ [Setgroups [gid], Setgid gid, Setuid uid]) (trace w') \<and> ids_given_up env pre gid uid
    else r = -1 \<and> (\<exists>pre c msg e. trace w' = pre @ [c, Log_errno (priv_dest fg) LOG_ERR msg e]
      \<and> e \<noteq> EPERM \<and> ret (env pre c) \<noteq> 0 \<and> (\<exists>gid uid. c \<in> {Setgroups [gid], Setgid gid, Setuid uid}))"
  using drop_privileges_result(1,2) [OF assms] by presburger

theorem privileges_dropped_in_order_witness:
  "\<exists>w'. drop_privileges (knock []) ''nobody'' ''nogroup'' True boot = (0, w')
     \<and> (\<exists>gid uid caps. id_calls boot w' = [keepcaps, Setgroups [gid], Setgid gid, Setuid uid] @ caps @ [no_new_privs])"
proof -
  obtain w' where p: "drop_privileges (knock []) ''nobody'' ''nogroup'' True boot = (0, w')"
    using drop_privileges_granted [OF knock_grants] by blast
  have "\<not> unprivileged (knock []) (trace boot)" by (simp add: unprivileged_def knock_def)
  from privileges_dropped_in_order [OF p this] p show ?thesis by auto
qed

section \<open>Open rules\<close>

text \<open>C9: pruning keeps exactly the open rules that have not expired, with their addresses and expiry
  times; when one has expired the firewall is told to flush the allowed addresses and is then
  given the kept ones again, otherwise nothing is sent and nothing changes.\<close>

theorem rule_prune_keeps_unexpired:
  assumes "rule_prune env d now w = Some (d', w')" and "rules_ok d" and "sources_ok d" and "config_ok (d_cfg d)"
  shows "rules_ok d' \<and> map rule_view (open_rules d') = map rule_view (filter (\<lambda>e. now < dr_expiry e) (open_rules d))
    \<and> (if \<exists>e \<in> set (open_rules d). dr_expiry e \<le> now
       then talks (map (Flush ALLOWED_NAME) fam @ map (accept_of (d_cfg d)) (filter (\<lambda>e. now < dr_expiry e) (open_rules d))) w w'
       else w' = w \<and> d' = d)"
  using rule_prune_open [OF assms(2,1)] rule_prune_talks [OF assms] by (simp add: prune_ops_def)

theorem rule_prune_keeps_unexpired_witness:
  "\<exists>d d' w'. length (open_rules d) = 1 \<and> rule_prune (knock []) d 30 boot = Some (d', w') \<and> open_rules d' = []
     \<and> talks (map (Flush ALLOWED_NAME) fam) boot w'"
proof -
  define d where "d = rule_track idle_daemon 12 2 30 (Some knock_src)"
  have "mset (open_rules d) = {#mk_rule 12 2 30 knock_src#}"
    using rule_track_open [OF idle_daemon_ok(1), of 12 2 30 knock_src] by (simp add: d_def idle_daemon_ok(2))
  then have o: "open_rules d = [mk_rule 12 2 30 knock_src]" by (metis mset_single_iff mset_single_iff_right)
  have ok: "rules_ok d" "sources_ok d" "config_ok (d_cfg d)"
    using rule_track_ok [OF idle_daemon_ok(1)] knock_config_ok idle_daemon_ok(3) knock_packet(1)
    by (simp add: d_def, simp add: sources_ok_def all_open_def o, simp add: d_def)
  obtain d' w' where p: "rule_prune (knock []) d 30 boot = Some (d', w')"
    using prune_returns [OF grants_replies [OF knock_grants] ok] by blast
  from rule_prune_keeps_unexpired [OF p ok] p show ?thesis by (intro exI [of _ d] exI [of _ d'] exI [of _ w']) (simp add: o)
qed

text \<open>C24: tracking a rule adds it to the open rules and disturbs no other, except that with 256 rules
  open it is forgotten: the table does not change although the firewall has been told.\<close>

theorem rule_track_adds:
  assumes "rules_ok d"
  shows "rules_ok (rule_track d h f x (Some a))
    \<and> (if length (open_rules d) = 256 then rule_track d h f x (Some a) = d
       else mset (open_rules (rule_track d h f x (Some a)))
         = add_mset \<lparr>dr_handle = h, dr_family = f, dr_expiry = x, dr_active = True, dr_addr = a\<rparr> (mset (open_rules d)))"
  using rule_track_ok [OF assms] rule_track_open [OF assms] by (simp add: mk_rule_def)

theorem rule_track_adds_witness:
  "mset (open_rules (rule_track idle_daemon 12 2 30 (Some knock_src)))
     = {#\<lparr>dr_handle = 12, dr_family = 2, dr_expiry = 30, dr_active = True, dr_addr = knock_src\<rparr>#}"
  using rule_track_adds [OF idle_daemon_ok(1), of 12 2 30 knock_src] by (simp add: idle_daemon_ok(2))

section \<open>The firewall on the wire\<close>

text \<open>C25: inserting a rule sends one datagram, the batch with the accept rule for the source address,
  the target port and the interface, well within the 4096 bytes of its buffer; the handle returned
  is zero after a failure and otherwise the module's next one, which is counted up. The rule matches
  the port of the transport header and, unlike the drop rule and unlike the rule the documents
  give, not the protocol: it accepts UDP to that port number as well.\<close>

theorem rule_insert_datagram:
  assumes "netlink_rule_insert env src port iface w = Some (h, w')" and "ip_source src" and "iface_ok iface"
  shows "\<exists>b. (\<exists>cs. calls_since w w' = Sendto (g_fd w) b nl_addr # cs \<and> waits (g_fd w) cs) \<and> length b \<le> 660
    \<and> b = nft_batch (g_seq w + 2) (g_portid w) (nft_command NFT_MSG_NEWRULE NEWRULE_FLAGS (ucast (ss_family src))
            (g_seq w + 1) (g_portid w) (accept_rule src port iface))
    \<and> (h = 0 \<and> g_next_handle w' = g_next_handle w \<or> h = g_next_handle w \<and> g_next_handle w' = g_next_handle w + 1)"
proof -
  have src: "ss_wf src" using assms(2) by (simp add: ip_source_def)
  have i: "\<And>s. iface = Some s \<Longrightarrow> length s < 16" using assms(3) by (simp add: iface_ok_def)
  let ?b = "nft_batch (g_seq w + 2) (g_portid w) (nft_command NFT_MSG_NEWRULE NEWRULE_FLAGS (ucast (ss_family src))
            (g_seq w + 1) (g_portid w) (accept_rule src port iface))"
  obtain w1 where w1: "sent ?b w w1" "h = 0 \<and> w' = w1 \<or> h = g_next_handle w \<and> w' = w1\<lparr>g_next_handle := g_next_handle w + 1\<rparr>"
    using rule_insert_sends [OF assms(1) src i ip_source_family [OF assms(2)]] by blast
  have "calls_since w w' = calls_since w w1" using w1(2) by (auto simp: calls_since_def)
  moreover have "length (enc_attrs (accept_rule src port iface)) \<le> 600" by (rule rules_fit(1) [OF src i])
  then have "length ?b \<le> 660" by (simp add: nft_batch_def)
  ultimately show ?thesis using w1(2) sent_fields(3,6) [OF w1(1)] by (intro exI [of _ ?b]) auto
qed

theorem rule_insert_datagram_witness:
  "\<exists>w' b cs. netlink_rule_insert (knock []) knock_src 22 None (boot\<lparr>g_next_handle := 12\<rparr>) = Some (12, w')
     \<and> calls_since (boot\<lparr>g_next_handle := 12\<rparr>) w' = Sendto (-1) b nl_addr # cs \<and> length b \<le> 660 \<and> g_next_handle w' = 13"
proof -
  have i: "iface_ok None" by (simp add: iface_ok_def)
  obtain w' where ins: "netlink_rule_insert (knock []) knock_src 22 None (boot\<lparr>g_next_handle := 12\<rparr>) = Some (12, w')" "g_next_handle w' = 13"
    using rule_insert_granted [OF knock_grants knock_packet(1) i, where port = 22 and w = "boot\<lparr>g_next_handle := 12\<rparr>"] by auto
  have fd: "g_fd (boot\<lparr>g_next_handle := 12\<rparr>) = -1" by (simp add: boot_def)
  from rule_insert_datagram [OF ins(1) knock_packet(1) i] obtain b cs where
    "calls_since (boot\<lparr>g_next_handle := 12\<rparr>) w' = Sendto (-1) b nl_addr # cs" "length b \<le> 660" unfolding fd by blast
  then show ?thesis using ins by blast
qed

text \<open>C26: the walk over a datagram of replies reports the first error among them and no error when there
  is none. The messages are given without their layout: an error message counts by the absolute
  value of its code, a code of zero being an acknowledgement; one too short to hold a code
  counts as malformed; a message of another type is passed over.\<close>

theorem reply_scan_first_error:
  assumes "list_all reply_ok rs"
  shows "scan_reply (concat (map reply_bytes rs)) = (case List.map_filter reply_error rs of [] \<Rightarrow> None | e # es \<Rightarrow> Some e)"
  using assms by (rule scan_replies)

theorem reply_scan_first_error_witness:
  "scan_reply (concat (map reply_bytes [Other_reply 3 (replicate 10 0) [7], Error_reply (replicate 10 0) 0 (replicate 16 0),
     Error_reply (replicate 10 0) (-1) (replicate 16 0), Short_error (replicate 10 0) []])) = Some 1"
proof -
  have "list_all reply_ok [Other_reply 3 (replicate 10 0) [7], Error_reply (replicate 10 0) 0 (replicate 16 0),
     Error_reply (replicate 10 0) (-1) (replicate 16 0), Short_error (replicate 10 0) []]" by (simp add: NLMSG_ERROR_def)
  from reply_scan_first_error [OF this] show ?thesis by (simp add: map_filter_simps)
qed

text \<open>C32: receiving repeats while it is interrupted and returns with the first attempt that is not:
  the datagram and its sender, cut to the buffers, or -1 with both untouched.\<close>

theorem udp_recv_first_attempt:
  assumes "\<forall>j < k. interrupted env fd (length buf) (attempts env fd (length buf) j w)"
    and "\<not> interrupted env fd (length buf) (attempts env fd (length buf) k w)"
  shows "\<exists>r w'. udp_recv env fd buf src (Some 128) w = Some (r, w')
    \<and> calls_since w w' = replicate (Suc k) (Recvfrom fd (length buf))
    \<and> (let a = env (trace w @ replicate k (Recvfrom fd (length buf))) (Recvfrom fd (length buf))
       in if 0 \<le> ret a
          then r_n r = ret a \<and> r_buf r = poke 0 (take (length buf) (data a)) buf \<and> r_src r = poke 0 (take 128 (peer a)) src
          else r_n r = -1 \<and> r_buf r = buf \<and> r_src r = src)"
proof -
  obtain r where "udp_recv env fd buf src (Some 128) w = Some (r, attempts env fd (length buf) (Suc k) w)"
    "let a = env (trace w @ replicate k (Recvfrom fd (length buf))) (Recvfrom fd (length buf))
       in if 0 \<le> ret a
          then r_n r = ret a \<and> r_buf r = poke 0 (take (length buf) (data a)) buf \<and> r_src r = poke 0 (take 128 (peer a)) src
          else r_n r = -1 \<and> r_buf r = buf \<and> r_src r = src"
    using udp_recv_returns [of k env fd buf w src "Some 128"] assms unfolding option.case by blast
  moreover have "calls_since w (attempts env fd (length buf) (Suc k) w) = replicate (Suc k) (Recvfrom fd (length buf))"
    by (simp only: calls_since_def trace_attempts append_eq_conv_conj [symmetric] drop_append) simp
  ultimately show ?thesis by blast
qed

text \<open>A receive that is interrupted once.\<close>

definition once_interrupted :: env where
  "once_interrupted tr c = (knock [] [] c)\<lparr>ret := if tr = [] then -1 else 6, err := EINTR\<rparr>"

theorem udp_recv_first_attempt_witness:
  "\<exists>r w'. udp_recv once_interrupted 3 (replicate 256 0) (replicate 128 0) (Some 128) boot = Some (r, w')
     \<and> calls_since boot w' = [Recvfrom 3 256, Recvfrom 3 256] \<and> r_n r = 6"
proof -
  have b: "trace boot = []" "length (replicate 256 (0 :: byte)) = 256" by (simp_all add: boot_def)
  have i: "\<forall>j < 1. interrupted once_interrupted 3 256 (attempts once_interrupted 3 256 j boot)"
    "\<not> interrupted once_interrupted 3 256 (attempts once_interrupted 3 256 1 boot)"
    by (simp_all add: interrupted_def trace_attempts b once_interrupted_def)
  have "ret (once_interrupted [Recvfrom 3 256] (Recvfrom 3 256)) = 6" by (simp add: once_interrupted_def)
  then show ?thesis
    using udp_recv_first_attempt [where buf = "replicate 256 0" and src = "replicate 128 0", unfolded b(2), OF i]
    by (auto simp: Let_def b numeral_2_eq_2)
qed

text \<open>C40: a datagram without content stops the draining of a socket: whatever waits behind it is not
  received in this turn, although the sockets are polled edge-triggered.\<close>

theorem empty_datagram_stops_draining:
  assumes "ret (env (trace w) (Recvfrom fd (length buf))) = 0"
  shows "recv_loop env stk fd buf src d w = Some (d, sys_do env (Recvfrom fd (length buf)) w)"
  using assms by (subst recv_loop.simps, subst udp_recv.simps) (simp add: sys_eq Let_def)

theorem empty_datagram_stops_draining_witness:
  "recv_loop (\<lambda>tr c. (knock [] tr c)\<lparr>ret := if tr = [] then 0 else 6\<rparr>) knock_stack 3 (replicate 256 0) (replicate 128 0) idle_daemon boot
     = Some (idle_daemon, sys_do (\<lambda>tr c. (knock [] tr c)\<lparr>ret := if tr = [] then 0 else 6\<rparr>) (Recvfrom 3 256) boot)"
  using empty_datagram_stops_draining [where buf = "replicate 256 0" and w = boot and fd = 3
      and env = "\<lambda>tr c. (knock [] tr c)\<lparr>ret := if tr = [] then 0 else 6\<rparr>"] by (simp add: boot_def)

section \<open>Configuration\<close>

text \<open>C27: whatever options are given, a configuration that is accepted is within its bounds: one to eight
  listening addresses that fit their storage, a target port, times and counts in their ranges,
  strings and secret that fit their buffers, and a secret from exactly one source.\<close>

theorem accepted_options_in_bounds:
  "case parse_daemon_args gai default_config os of
     Opt_ok cfg \<Rightarrow> config_ok cfg \<and> 1 \<le> num_ports cfg \<and> (secret_len cfg = 0 \<longleftrightarrow> secret_file cfg \<noteq> [])
   | _ \<Rightarrow> True"
proof (cases "parse_daemon_args gai default_config os")
  case (Opt_ok cfg)
  from parse_daemon_args_ok [OF default_config_ok Opt_ok] show ?thesis by (auto simp: Opt_ok options_ok_def)
qed simp_all

text \<open>C31: a secret file is decoded like a secret on the command line: the text up to the line ends and
  blanks at its end; a secret that is written to a file in base32 with a newline is the one the
  daemon uses, and it fits its buffer.\<close>

theorem secret_file_decoded:
  assumes "file_holds env path (bytes_of_string s @ t)" and "CHR 0x00 \<notin> set s" and "list_all blank t"
    and "s = [] \<or> \<not> blank (byte_of_char (last s))"
  shows "fst (read_secret_file env path cfg w) =
    (case secret_decode (Some s) SECRET_SIZE of
       None \<Rightarrow> None
     | Some (out, enc) \<Rightarrow> Some (cfg\<lparr>cfg_secret := poke 0 out (cfg_secret cfg), secret_len := length out\<rparr>))
    \<and> (\<exists>fd. calls_since w (snd (read_secret_file env path cfg w)) = [Stat path, Open path, Read fd 4095, Close fd])"
  using read_secret_file_decodes [OF assms] by blast

definition file_system :: "byte list \<Rightarrow> env" where
  "file_system bs tr c = \<lparr>ret = (case c of Read fd n \<Rightarrow> int (length bs) | _ \<Rightarrow> 0), err = EIO,
     data = (case c of Read fd n \<Rightarrow> bs | _ \<Rightarrow> []), peer = [], ready = []\<rparr>"

lemma file_system_holds: "length bs \<le> 4095 \<Longrightarrow> file_holds (file_system bs) path bs"
  by (simp add: file_holds_def file_system_def)

theorem secret_file_decoded_witness:
  "fst (read_secret_file (file_system (bytes_of_string ''JBSWY3DP'' @ [13, 10])) ''f'' default_config boot)
     = Some (default_config\<lparr>cfg_secret := poke 0 [72, 101, 108, 108, 111] (cfg_secret default_config), secret_len := 5\<rparr>)"
proof -
  have d: "secret_decode (Some ''JBSWY3DP'') SECRET_SIZE = Some ([72, 101, 108, 108, 111], SECRET_BASE32)" by code_simp
  have f: "file_holds (file_system (bytes_of_string ''JBSWY3DP'' @ [13, 10])) ''f'' (bytes_of_string ''JBSWY3DP'' @ [13, 10])"
    by (rule file_system_holds) simp
  have bl: "list_all blank [13, 10]" "\<not> blank (byte_of_char (last ''JBSWY3DP''))" by code_simp+
  from secret_file_decoded [OF f _ bl(1), of default_config boot] bl(2) show ?thesis unfolding d by auto
qed

text \<open>C39: a secret file with nothing but line ends and blanks is accepted. Started with options that name
  such a file, the daemon goes on to run with the empty secret, whose tokens anyone can compute.\<close>

theorem empty_secret_file_accepted:
  assumes "parse_daemon_args gai default_config os = Opt_ok cfg" and "secret_file cfg \<noteq> []"
    and "file_holds env (secret_file cfg) t" and "list_all blank t"
  shows "\<exists>cfg' w'. daemon_main env tgt stk d gai os w = daemon_run env tgt stk d cfg' w' \<and> secret_of cfg' = []
    \<and> cfg' = cfg\<lparr>secret_len := 0\<rparr>"
proof -
  have d: "secret_decode (Some []) SECRET_SIZE = Some ([], SECRET_BASE32)" by code_simp
  have f: "file_holds env (secret_file cfg) (bytes_of_string [] @ t)" using assms(3) by (simp add: bytes_of_string_def)
  have "fst (read_secret_file env (secret_file cfg) cfg w) = Some (cfg\<lparr>secret_len := 0\<rparr>)"
    using read_secret_file_decodes(1) [OF f _ assms(4), of cfg w] unfolding d by (simp add: poke_def)
  then have "daemon_main env tgt stk d gai os w = daemon_run env tgt stk d (cfg\<lparr>secret_len := 0\<rparr>) (snd (read_secret_file env (secret_file cfg) cfg w))"
    using assms(1,2) by (simp add: daemon_main_def split_beta Let_def)
  then show ?thesis by (auto simp: secret_of_def)
qed

theorem empty_secret_file_accepted_witness:
  "\<exists>cfg' w'. daemon_main (file_system [10, 32]) x86_64 knock_stack idle_daemon (\<lambda>node port hints. None) [(CHR ''S'', ''f'')] boot
      = daemon_run (file_system [10, 32]) x86_64 knock_stack idle_daemon cfg' w' \<and> secret_of cfg' = []"
proof -
  define cfg where "cfg = (set_port 1 (any_in6 2222) (set_port 0 (any_in4 2222) (default_config\<lparr>secret_file := ''f''\<rparr>)))\<lparr>num_ports := 2\<rparr>"
  have o: "parse_daemon_args (\<lambda>node port hints. None) default_config [(CHR ''S'', ''f'')] = Opt_ok cfg" "secret_file cfg = ''f''"
    by (simp_all add: cfg_def parse_daemon_args_def dispatch_one_opt_def handle_secret_file_opt_def opt_result_of_def default_config_def
        set_port_def opt_consts)
  have f: "secret_file cfg \<noteq> []" "file_holds (file_system [10, 32]) (secret_file cfg) [10, 32]" "list_all blank [10, 32]"
    using o(2) by (simp_all add: file_system_holds blank_def)
  from empty_secret_file_accepted [OF o(1) f, of x86_64 knock_stack idle_daemon boot] show ?thesis by blast
qed

text \<open>C34: the client reads a bracketed host with a port, and a host without colons with a port, as the
  two it was written from.\<close>

theorem server_argument_read_back:
  assumes "1 \<le> n" and "n \<le> 65535" and "length host < 256"
  shows "(CHR '']'' \<notin> set host \<longrightarrow>
      parse_server_arg cfg (''['' @ host @ '']:'' @ dec_string n) = Some (cfg\<lparr>cl_port := of_nat n, cl_server := host\<rparr>))
    \<and> (CHR '':'' \<notin> set host \<and> host \<noteq> [] \<and> hd host \<noteq> CHR ''['' \<longrightarrow>
      parse_server_arg cfg (host @ '':'' @ dec_string n) = Some (cfg\<lparr>cl_port := of_nat n, cl_server := host\<rparr>))"
proof (intro conjI impI)
  assume "CHR '']'' \<notin> set host"
  then show "parse_server_arg cfg (''['' @ host @ '']:'' @ dec_string n) = Some (cfg\<lparr>cl_port := of_nat n, cl_server := host\<rparr>)"
    using parse_server_arg_bracket [of host n cfg] assms by simp
next
  assume h: "CHR '':'' \<notin> set host \<and> host \<noteq> [] \<and> hd host \<noteq> CHR ''[''"
  then have c: "char_at (host @ r) 0 \<noteq> CHR ''[''" for r by (cases host) (simp_all add: char_at_def)
  then have "parse_host_port (host @ CHR '':'' # dec_string n) = Some (of_nat n, length host)"
    using h assms parse_host_port_plain [of host n] by blast
  then show "parse_server_arg cfg (host @ '':'' @ dec_string n) = Some (cfg\<lparr>cl_port := of_nat n, cl_server := host\<rparr>)"
    using c assms(3) by (simp add: parse_server_arg_def)
qed

theorem server_argument_read_back_witness:
  "parse_server_arg \<lparr>cl_secret = [], cl_secret_len = 0, cl_port = 1, cl_server = []\<rparr> ''[::1]:2222''
     = Some \<lparr>cl_secret = [], cl_secret_len = 0, cl_port = 2222, cl_server = ''::1''\<rparr>"
proof -
  have "dec_string 2222 = ''2222''" by code_simp
  then show ?thesis
    using server_argument_read_back [of 2222 "''::1''" "\<lparr>cl_secret = [], cl_secret_len = 0, cl_port = 1, cl_server = []\<rparr>"] by simp
qed

section \<open>One-time passwords\<close>

text \<open>C15: the streaming hash of \<open>sha1.c\<close>, fed a message in any pieces into a context whose buffer
  holds arbitrary old bytes, is SHA-1 of FIPS 180-4.\<close>

theorem sha1_streams_fips:
  assumes "length (sha_buf ctx) = 64"
  shows "snd (sha1_final (fold (\<lambda>piece c. sha1_update c piece) pieces (sha1_init ctx))) = sha1_spec (concat pieces)"
  using assms by (rule sha1_stream)

theorem sha1_streams_fips_witness:
  "length (sha_buf stack_ctx) = 64
   \<and> snd (sha1_final (fold (\<lambda>piece c. sha1_update c piece) [[97], [98, 99]] (sha1_init stack_ctx)))
     = sha1_spec [97, 98, 99]"
  using sha1_streams_fips [of stack_ctx "[[97], [98, 99]]"] by (simp add: stack_ctx_def)

text \<open>C16: \<open>hmac_sha1\<close> is HMAC of RFC 2104 over SHA-1 for every key, longer than a block or not,
  and every message.\<close>

theorem hmac_sha1_is_rfc2104: "hmac_sha1 key msg = rfc2104_hmac key msg"
  by (rule hmac_sha1_rfc2104)

text \<open>C17: a token is the truncated HMAC of RFC 4226 on six, seven or eight digits (six for any other
  request), and so is below the power of ten that its digits allow.\<close>

theorem totp_generate_rfc4226:
  "unat (totp_generate secret counter d) = rfc4226_hotp secret counter (token_digits d)
   \<and> unat (totp_generate secret counter d) < 10 ^ token_digits d"
  by (simp add: totp_generate_def hotp_rfc4226 rfc4226_hotp_def token_digits_def)

text \<open>C18: the window search succeeds exactly when some counter between \<open>drift_behind\<close> steps before
  the current one (never below zero) and \<open>drift_ahead\<close> steps after it gives the token, and it reports
  the earliest such counter.\<close>

theorem totp_validate_window:
  assumes "params_ok p"
  shows "totp_validate secret token p =
    (case find (\<lambda>c. unat token = rfc4226_hotp secret (word_of_int c) (token_digits (p_digits p))) (window p) of
       Some c \<Rightarrow> (0, if out_counter p then Some (word_of_int c) else None)
     | None \<Rightarrow> (-1, None))"
  using assms by (rule totp_validate_find)

definition sample_params :: totp_params where
  "sample_params = \<lparr>src_ip = zero_ip, p_now = 59, p_digits = 8, p_step = 30, drift_behind = 1,
     drift_ahead = 1, out_counter = True\<rparr>"

theorem totp_validate_window_witness:
  "params_ok sample_params \<and> window sample_params = [0, 1, 2]
   \<and> totp_validate [49, 50] 94287082 sample_params =
     (case find (\<lambda>c. 94287082 = rfc4226_hotp [49, 50] (word_of_int c) 8) [0, 1, 2] of
        Some c \<Rightarrow> (0, Some (word_of_int c)) | None \<Rightarrow> (-1, None))"
proof -
  have ok: "params_ok sample_params" and win: "window sample_params = [0, 1, 2]"
    and d: "token_digits (p_digits sample_params) = 8" and out: "out_counter sample_params = True" by code_simp+
  have tok: "unat (94287082 :: u32) = 94287082" by simp
  show ?thesis
    using totp_validate_window [OF ok, of "[49, 50]" 94287082] ok
    unfolding win d out if_True tok by blast
qed

section \<open>Authentication packets\<close>

text \<open>C20: \<open>auth_parse\<close> accepts exactly the packets of six to eight decimal digits, and the token is
  the number they write; a null pointer is refused.\<close>

theorem auth_parse_accepts:
  "auth_parse None = None
   \<and> (auth_parse (Some d) = Some token \<longleftrightarrow>
        6 \<le> length d \<and> length d \<le> 8 \<and> list_all is_digit d \<and> unat token = decimal d)"
  unfolding auth_parse_iff list_all_iff by (simp add: auth_parse_def)

text \<open>C5: a packet is accepted exactly when the earliest counter of the window that gives its token
  is above the counter recorded for the source address, or the address is new and the table has a
  free slot; the record of that address, and no other, is then replaced. A refusal leaves the
  table as it was.\<close>

theorem auth_validate_decides:
  assumes "replay_ok t" and "params_ok p"
  shows "case find (\<lambda>c. unat token = rfc4226_hotp secret (word_of_int c) (token_digits (p_digits p))) (window p) of
      None \<Rightarrow> auth_validate t secret token p clock = (-1, t)
    | Some c \<Rightarrow>
        if (case replay_lookup t (src_ip p) of
              Some e \<Rightarrow> last_seq e < word_of_int c | None \<Rightarrow> \<exists>q < 64. \<not> re_used (t ! q))
        then \<exists>t'. auth_validate t secret token p clock = (0, t') \<and> replay_ok t'
          \<and> replay_lookup t' = (replay_lookup t)(src_ip p \<mapsto> mk_replay (src_ip p) (word_of_int c, clock))
        else auth_validate t secret token p clock = (-1, t)"
proof -
  have m: "matched_counter secret token p = map_option word_of_int
      (find (\<lambda>c. unat token = rfc4226_hotp secret (word_of_int c) (token_digits (p_digits p))) (window p))"
    unfolding matched_counter_def window_scan_window [OF assms(2)] totp_generate_def hotp_eq_iff find_map ..
  show ?thesis
  proof (cases "find (\<lambda>c. unat token = rfc4226_hotp secret (word_of_int c) (token_digits (p_digits p))) (window p)")
    case None
    then show ?thesis by (simp add: auth_validate_def m)
  next
    case (Some c)
    then show ?thesis
      using auth_validate_counter [OF assms(1), of secret token p "word_of_int c" clock] by (simp add: m)
  qed
qed

definition ip_v4 :: "byte \<Rightarrow> byte \<Rightarrow> byte \<Rightarrow> byte \<Rightarrow> ip_addr_t" where
  "ip_v4 a b c d = \<lparr>family = AF_INET, addr = [a, b, c, d] @ replicate 12 0\<rparr>"

text \<open>The token of counter zero, presented ten seconds after the epoch.\<close>

definition first_token :: "byte list \<Rightarrow> u32" where
  "first_token secret = totp_generate secret 0 6"

lemma first_token_found:
  "find (\<lambda>c. unat (first_token secret) = rfc4226_hotp secret (word_of_int c) 6) (window (daemon_params ip 10)) = Some 0"
proof -
  have "window (daemon_params ip 10) = [0, 1]" by (simp add: window_def daemon_params_def upto_rec1)
  then show ?thesis
    using hotp_rfc4226 [of secret 0 6] by (simp add: first_token_def totp_generate_def)
qed

theorem auth_validate_decides_witness:
  "\<exists>t'. auth_validate auth_replay_reset [1, 2] (first_token [1, 2]) (daemon_params zero_ip 10) 11 = (0, t')
     \<and> replay_ok t'
     \<and> replay_lookup t' = (replay_lookup auth_replay_reset)(zero_ip \<mapsto> mk_replay zero_ip (0, 11))"
proof -
  have p: "params_ok (daemon_params zero_ip 10)" "src_ip (daemon_params zero_ip 10) = zero_ip"
    "token_digits (p_digits (daemon_params zero_ip 10)) = 6" by code_simp+
  have none: "replay_lookup auth_replay_reset zero_ip = None" "\<not> re_used (auth_replay_reset ! 0)" by code_simp+
  then have "\<exists>q < 64. \<not> re_used (auth_replay_reset ! q)" by (intro exI [of _ 0]) simp
  then show ?thesis
    using auth_validate_decides [OF replay_reset_ok p(1), where token = "first_token [1, 2]" and secret = "[1, 2]" and clock = 11]
    unfolding p(2,3) first_token_found none(1) by simp
qed

definition two_clients :: replay_table where
  "two_clients = projr (auth_record_seq (projr (auth_record_seq auth_replay_reset 100 (ip_v4 10 0 0 1) 3000))
     220 (ip_v4 10 0 0 16) 6600)"

text \<open>C36: without that condition on home slots, pruning opens a replay. In any searchable table, take an
  entry of an address \<open>j\<close> slots behind its home slot and an expired entry on the way to it: pruning
  ends the search there, and the counter just used by the address, or any other, counts as unseen
  although its own entry has not expired and is still in the table.\<close>

theorem replay_prune_collision:
  assumes "replay_ok t" and "i < j" and "j < 64" and "e = t ! ((replay_idx ip + j) mod 64)" and "re_used e" and "re_ip e = ip"
    and "max_age < now - last_seen (t ! ((replay_idx ip + i) mod 64))" and "now - last_seen e \<le> max_age"
  shows "auth_seen_before t (last_seq e) ip = -1 \<and> auth_seen_before (auth_replay_prune t now max_age) c ip = 0
    \<and> e \<in> set (auth_replay_prune t now max_age)"
  using pruned_away [OF assms(1-7)] assms(8) by blast

theorem replay_prune_collision_witness:
  "auth_seen_before two_clients 220 (ip_v4 10 0 0 16) = -1
   \<and> auth_seen_before (auth_replay_prune two_clients 6610 3600) 220 (ip_v4 10 0 0 16) = 0
   \<and> mk_replay (ip_v4 10 0 0 16) (220, 6600) \<in> set (auth_replay_prune two_clients 6610 3600)"
proof -
  have step: "replay_ok t'" if "replay_ok t" "auth_record_seq t c ip clock = Inr t'" for t c ip clock t'
    using that replay.store_ok [OF that(1) replay.mk_used] by (auto simp: auth_record_seq_store split: option.splits)
  have r: "isl (auth_record_seq auth_replay_reset 100 (ip_v4 10 0 0 1) 3000) = False"
    "isl (auth_record_seq (projr (auth_record_seq auth_replay_reset 100 (ip_v4 10 0 0 1) 3000)) 220 (ip_v4 10 0 0 16) 6600) = False" by code_simp+
  have ok: "replay_ok two_clients"
    unfolding two_clients_def by (rule step [OF step [OF replay_reset_ok]]) (use r in \<open>simp_all add: isl_def sum.split_sel\<close>)
  have e: "mk_replay (ip_v4 10 0 0 16) (220, 6600) = two_clients ! ((replay_idx (ip_v4 10 0 0 16) + 1) mod 64)" by code_simp
  have f: "3600 < 6610 - last_seen (two_clients ! ((replay_idx (ip_v4 10 0 0 16) + 0) mod 64))" by code_simp
  have m: "re_used (mk_replay (ip_v4 10 0 0 16) (220, 6600))" "re_ip (mk_replay (ip_v4 10 0 0 16) (220, 6600)) = ip_v4 10 0 0 16"
    "last_seq (mk_replay (ip_v4 10 0 0 16) (220, 6600)) = 220" "6610 - last_seen (mk_replay (ip_v4 10 0 0 16) (220, 6600)) \<le> 3600"
    by (simp_all add: mk_replay_def)
  show ?thesis using replay_prune_collision [OF ok _ _ e m(1,2) f m(4), of 220] unfolding m(3) by simp
qed

section \<open>Rate limiting\<close>

text \<open>C21: the failure handler implements the abstract rule \<open>fail_step\<close>: the record of the failing
  address moves by it, no other record changes and the table stays searchable; only for an unknown
  address and a table without a free slot is the failure not recorded.\<close>

theorem rate_limit_fail_refines:
  assumes "rate_ok t"
  shows "rate_ok (rate_limit_fail t ip clock cfg)
    \<and> (if rate_map t ip = None \<and> (\<forall>p < 64. rt_used (t ! p)) then rate_limit_fail t ip clock cfg = t
       else rate_map (rate_limit_fail t ip clock cfg) = (rate_map t)(ip \<mapsto> fail_step cfg clock (rate_map t ip)))"
  using rate_limit_fail_map [OF assms, of ip clock cfg] rate_limit_fail_known [OF assms, of ip clock cfg]
    rate_limit_fail_full [OF assms, of ip clock cfg] by auto

definition sample_cfg :: rate_limit_cfg where
  "sample_cfg = \<lparr>min_block = 300, max_block = 86400, max_fails = 3, fail_window = 60\<rparr>"

theorem rate_limit_fail_refines_witness:
  "rate_map (rate_limit_fail rate_limit_reset (ip_v4 10 0 0 1) 1000 sample_cfg) =
     (rate_map rate_limit_reset)(ip_v4 10 0 0 1 \<mapsto> (1, 1000, 0, 0))"
proof -
  have "\<not> rt_used (rate_limit_reset ! 0)" by code_simp
  then have "\<not> (\<forall>p < 64. rt_used (rate_limit_reset ! p))" by (intro notI) (drule spec [of _ 0], simp)
  then show ?thesis
    using rate_limit_fail_refines [OF rate_reset_ok, of "ip_v4 10 0 0 1" 1000 sample_cfg] by (simp add: rate_reset_map)
qed

text \<open>C22: as many failures of a new address as the configured maximum (two or more) inside one window
  block it: every check is refused until the minimum block time after the last of them, and none
  is from then on.\<close>

theorem rate_limit_blocks_after_max_fails:
  assumes "rate_ok t" and "rate_map t ip = None" and "\<exists>p < 64. \<not> rt_used (t ! p)"
    and "length ts = unat (max_fails cfg)" and "2 \<le> max_fails cfg"
    and "\<forall>s \<in> set ts. 0 \<le> s \<and> s - hd ts \<le> uint (fail_window cfg)"
  shows "rate_limit_check (fold (\<lambda>s t. rate_limit_fail t ip s cfg) ts t) ip clock
    = (if clock < last ts + uint (min_block cfg) then -1 else 0)"
  using assms by (rule rate_limit_fail_blocks)

theorem rate_limit_blocks_after_max_fails_witness:
  "rate_limit_check (fold (\<lambda>s t. rate_limit_fail t (ip_v4 10 0 0 1) s sample_cfg) [1000, 1005, 1010] rate_limit_reset)
     (ip_v4 10 0 0 1) 1309 = -1"
proof -
  have "\<not> rt_used (rate_limit_reset ! 0)" by code_simp
  then have "\<exists>p < 64. \<not> rt_used (rate_limit_reset ! p)" by (intro exI [of _ 0]) simp
  moreover have "length [1000, 1005, 1010 :: time_t] = unat (max_fails sample_cfg)" "2 \<le> max_fails sample_cfg"
    "\<forall>s \<in> set [1000, 1005, 1010]. 0 \<le> s \<and> s - hd [1000, 1005, 1010] \<le> uint (fail_window sample_cfg)"
    by (simp_all add: sample_cfg_def)
  ultimately show ?thesis
    using rate_limit_blocks_after_max_fails [OF rate_reset_ok rate_reset_map, where clock = 1309 and ts = "[1000, 1005, 1010]" and cfg = sample_cfg]
    by (simp add: sample_cfg_def)
qed

text \<open>C38: the first failure of an address without a record never blocks it, whatever the maximum: its
  entry starts at a count of one without the comparison. So a maximum of one blocks only at the
  second failure inside the window, like a maximum of two.\<close>

theorem rate_limit_first_failure_passes:
  assumes "rate_ok t" and "rate_map t ip = None" and "0 \<le> later"
  shows "rate_limit_check (rate_limit_fail t ip s1 cfg) ip later = 0
    \<and> ((\<exists>p < 64. \<not> rt_used (t ! p)) \<and> max_fails cfg \<le> 2 \<and> 0 \<le> s2 \<and> s2 - s1 \<le> uint (fail_window cfg) \<longrightarrow>
        rate_limit_check (rate_limit_fail (rate_limit_fail t ip s1 cfg) ip s2 cfg) ip clock
          = (if clock < s2 + uint (min_block cfg) then -1 else 0))"
proof (cases "\<exists>p < 64. \<not> rt_used (t ! p)")
  case True
  note one = rate_limit_fail_known [OF assms(1), of ip s1 cfg] rate_limit_fail_map(1) [OF assms(1), of ip s1 cfg]
  have m: "rate_map (rate_limit_fail t ip s1 cfg) ip = Some (1, s1, 0, 0)" using one(1) True assms(2) by simp
  have "rate_map (rate_limit_fail (rate_limit_fail t ip s1 cfg) ip s2 cfg) ip = Some (fail_step cfg s2 (Some (1, s1, 0, 0)))"
    using rate_limit_fail_known [OF one(2), of ip s2 cfg] m by simp
  then show ?thesis using m assms(3) by (auto simp: rate_limit_check_map calc_block_duration_def)
next
  case False
  then show ?thesis using rate_limit_fail_full [OF assms(1,2)] assms(2) by (simp add: rate_limit_check_map)
qed

theorem rate_limit_first_failure_passes_witness:
  "rate_limit_check (rate_limit_fail rate_limit_reset (ip_v4 10 0 0 1) 1000 (sample_cfg\<lparr>max_fails := 1\<rparr>)) (ip_v4 10 0 0 1) 1001 = 0"
  using rate_limit_first_failure_passes [OF rate_reset_ok rate_reset_map, of 1001] by simp

text \<open>C23: the k-th consecutive block lasts the minimum block time doubled k times, capped at the
  maximum.\<close>

theorem backoff_doubles:
  assumes "0 < min_block cfg" and "min_block cfg \<le> max_block cfg" and "unat (max_block cfg) < 2 ^ 31"
  shows "unat (((\<lambda>cur. calc_block_duration cur cfg) ^^ Suc k) 0)
    = min (unat (max_block cfg)) (unat (min_block cfg) * 2 ^ k)"
  using assms by (rule backoff_iterate)

theorem backoff_doubles_witness:
  "unat (((\<lambda>cur. calc_block_duration cur sample_cfg) ^^ Suc 9) 0) = 86400"
  using backoff_doubles [of sample_cfg 9] by (simp add: sample_cfg_def)

text \<open>C35: a success forgets the failures of the address: its next check passes and its next failure is
  counted as the first.\<close>

theorem rate_limit_success_clears:
  assumes "length t = 64"
  shows "rate_map (rate_limit_success t ip) ip = None \<and> rate_limit_check (rate_limit_success t ip) ip clock = 0"
  using rate_limit_success_forgets [OF assms] by (simp add: rate_limit_check_map)

definition blocked_pair :: rate_table where
  "blocked_pair = fold (\<lambda>s t. rate_limit_fail t (ip_v4 10 0 0 16) s sample_cfg) [1001, 1002, 1003]
     (rate_limit_fail rate_limit_reset (ip_v4 10 0 0 1) 1000 sample_cfg)"

theorem rate_limit_success_clears_witness:
  "rate_limit_check (rate_limit_success blocked_pair (ip_v4 10 0 0 16)) (ip_v4 10 0 0 16) 1004 = 0"
proof -
  have "length blocked_pair = 64" by (simp add: blocked_pair_def)
  from rate_limit_success_clears [OF this] show ?thesis by blast
qed

text \<open>C37: a success of one address can lift the block of another. In any searchable table, take the
  record of an address \<open>j\<close> slots behind its home slot and that of another address on the way to it:
  after a success of the other address every check of the first one passes, blocked or not.\<close>

theorem rate_limit_success_collision:
  assumes "rate_ok t" and "i < j" and "j < 64" and "e = t ! ((rate_idx ip + j) mod 64)" and "rt_used e" and "rt_ip e = ip"
    and "f = t ! ((rate_idx ip + i) mod 64)" and "rt_used f"
  shows "rate_limit_check t ip clock = (if clock < block_until e then -1 else 0)
    \<and> rate_limit_check (rate_limit_success t (rt_ip f)) ip clock = 0"
  using success_unblocks [OF assms] by blast

theorem rate_limit_success_collision_witness:
  "rate_limit_check blocked_pair (ip_v4 10 0 0 16) 1004 = -1
   \<and> rate_limit_check (rate_limit_success blocked_pair (ip_v4 10 0 0 1)) (ip_v4 10 0 0 16) 1004 = 0"
proof -
  have ok: "rate_ok blocked_pair" unfolding blocked_pair_def by (simp add: rate_limit_fail_map(1) rate_reset_ok)
  have e: "rt_used (blocked_pair ! ((rate_idx (ip_v4 10 0 0 16) + 1) mod 64))" "rt_ip (blocked_pair ! ((rate_idx (ip_v4 10 0 0 16) + 1) mod 64)) = ip_v4 10 0 0 16"
    "1004 < block_until (blocked_pair ! ((rate_idx (ip_v4 10 0 0 16) + 1) mod 64))" by code_simp+
  have f: "rt_used (blocked_pair ! ((rate_idx (ip_v4 10 0 0 16) + 0) mod 64))"
    "rt_ip (blocked_pair ! ((rate_idx (ip_v4 10 0 0 16) + 0) mod 64)) = ip_v4 10 0 0 1" by code_simp+
  from rate_limit_success_collision [OF ok _ _ refl e(1,2) refl f(1), of 1004] e(3) show ?thesis unfolding f(2) by simp
qed

section \<open>Secrets\<close>

text \<open>C29: a decoded secret never exceeds the capacity of the buffer it is written to.\<close>

theorem secret_decode_fits:
  "case secret_decode inp cap of None \<Rightarrow> True | Some (out, enc) \<Rightarrow> length out \<le> cap"
  using secret_decode_cap by (auto split: option.split)

text \<open>C28: every secret that fits, written in hexadecimal, base64 or base32 of RFC 4648 with its prefix,
  is decoded to itself.\<close>

theorem secret_decode_inverts:
  assumes "length bs \<le> cap"
  shows "secret_decode (Some (''hex:'' @ hex_encode bs)) cap = Some (bs, SECRET_HEX)
    \<and> secret_decode (Some (''b64:'' @ base64_encode bs)) cap = Some (bs, SECRET_BASE64)
    \<and> secret_decode (Some (base32_encode bs)) cap = Some (bs, SECRET_BASE32)"
  using secret_decode_round_trips [OF assms] by simp

theorem secret_decode_inverts_witness:
  "base32_encode [72, 101, 108, 108, 111] = ''JBSWY3DP''
   \<and> secret_decode (Some ''JBSWY3DP'') 256 = Some ([72, 101, 108, 108, 111], SECRET_BASE32)"
proof -
  have "base32_encode [72, 101, 108, 108, 111] = ''JBSWY3DP''" by code_simp
  then show ?thesis using secret_decode_inverts [of "[72, 101, 108, 108, 111]" 256] by simp
qed

text \<open>C30: a prefixed secret is never read in another encoding than the one it names, and an unprefixed
  one with a character outside the base32 alphabet is refused.\<close>

theorem secret_decode_prefixes:
  "secret_decode (Some (''hex:'' @ s)) cap = map_option (\<lambda>b. (b, SECRET_HEX)) (hex_decode cap s)
   \<and> secret_decode (Some (''b64:'' @ s)) cap = map_option (\<lambda>b. (b, SECRET_BASE64)) (base64_decode cap s)
   \<and> ((\<exists>c \<in> set s. b32_val c = -1) \<and> CHR '':'' \<notin> set s \<longrightarrow> secret_decode (Some s) cap = None)"
  using secret_decode_hex [of s cap] secret_decode_b64 [of s cap]
  by (simp add: secret_decode_plain base32_alphabet_only)

theorem secret_decode_prefixes_witness:
  "b32_val CHR ''0'' = -1 \<and> secret_decode (Some ''JBSWY3D0'') 256 = None"
proof -
  have "b32_val CHR ''0'' = -1" by code_simp
  then show ?thesis using secret_decode_prefixes [of "''JBSWY3D0''" 256] by simp
qed

end
